(* ===== verification/Prelude.thy ===== *)
theory Prelude
  imports Main "HOL-Library.Word" "HOL-Library.Char_ord" "HOL-Library.Monad_Syntax" "HOL-Library.Multiset"
begin

text \<open>
  Shared vocabulary of the development: the theorem collections, the parts of the C and C++
  library the sources use on strings (\<open>std::string\<close> as \<open>string\<close>, positions as \<open>nat\<close>,
  \<open>npos\<close> as \<open>None\<close>), numeric conversion, and the list lemmas several components need.
\<close>

named_theorems str_simps \<open>facts on string search that component proofs rewrite with\<close>
named_theorems frame_simps \<open>which fields an operation leaves alone\<close>

section \<open>Characters\<close>

text \<open>The classifications of \<open><cctype>\<close> in the C locale, on bytes.\<close>

abbreviation ord :: "char \<Rightarrow> nat" where
  "ord c \<equiv> of_char c"

definition isspace_c :: "char \<Rightarrow> bool" where
  "isspace_c c \<longleftrightarrow> ord c = 32 \<or> (9 \<le> ord c \<and> ord c \<le> 13)"

definition isdigit_c :: "char \<Rightarrow> bool" where
  "isdigit_c c \<longleftrightarrow> 48 \<le> ord c \<and> ord c \<le> 57"

definition tolower_c :: "char \<Rightarrow> char" where
  "tolower_c c = (if 65 \<le> ord c \<and> ord c \<le> 90 then char_of (ord c + 32) else c)"

definition toupper_c :: "char \<Rightarrow> char" where
  "toupper_c c = (if 97 \<le> ord c \<and> ord c \<le> 122 then char_of (ord c - 32) else c)"

text \<open>\<open>char\<close> is signed on the platforms the daemon is built for.\<close>

definition schar :: "char \<Rightarrow> int" where
  "schar c = (if ord c < 128 then int (ord c) else int (ord c) - 256)"

lemma ord_eq_iff: "ord c = ord d \<longleftrightarrow> c = d"
  by simp

lemma ord_char_of [simp]: "n < 256 \<Longrightarrow> ord (char_of n) = n" for n :: nat
  by simp

lemma tolower_idem [simp]: "tolower_c (tolower_c c) = tolower_c c"
  by (auto simp: tolower_c_def)

lemma toupper_idem [simp]: "toupper_c (toupper_c c) = toupper_c c"
  by (auto simp: toupper_c_def)

abbreviation CR :: char where "CR \<equiv> CHR 0x0D"
abbreviation LF :: char where "LF \<equiv> CHR 0x0A"
abbreviation CRLF :: string where "CRLF \<equiv> [CR, LF]"

section \<open>Searching in strings\<close>

text \<open>\<open>std::string::find\<close> of a string: the first occurrence at or after a position.\<close>

fun find_sub :: "string \<Rightarrow> string \<Rightarrow> nat option" where
  "find_sub pat [] = (if pat = [] then Some 0 else None)"
| "find_sub pat (c # cs) =
     (if take (length pat) (c # cs) = pat then Some 0 else map_option Suc (find_sub pat cs))"

definition str_find :: "string \<Rightarrow> string \<Rightarrow> nat \<Rightarrow> nat option" where
  "str_find s pat pos =
     (if pos > length s then None else map_option (\<lambda>i. pos + i) (find_sub pat (drop pos s)))"

text \<open>\<open>find\<close> and \<open>rfind\<close> of a character; \<open>rfind_upto\<close> is \<open>rfind(c, pos)\<close>.\<close>

fun find_char :: "char \<Rightarrow> string \<Rightarrow> nat option" where
  "find_char c [] = None"
| "find_char c (d # ds) = (if d = c then Some 0 else map_option Suc (find_char c ds))"

fun rfind_char :: "char \<Rightarrow> string \<Rightarrow> nat option" where
  "rfind_char c [] = None"
| "rfind_char c (d # ds) =
     (case rfind_char c ds of Some i \<Rightarrow> Some (Suc i) | None \<Rightarrow> if d = c then Some 0 else None)"

definition rfind_upto :: "char \<Rightarrow> string \<Rightarrow> nat \<Rightarrow> nat option" where
  "rfind_upto c s pos = rfind_char c (take (Suc pos) s)"

lemma find_sub_Some:
  "find_sub pat s = Some i \<Longrightarrow> take (length pat) (drop i s) = pat \<and> i + length pat \<le> length s"
proof (induction pat s arbitrary: i rule: find_sub.induct)
  case (2 pat c cs)
  show ?case
  proof (cases "take (length pat) (c # cs) = pat")
    case True
    with 2 have "i = 0" by simp
    moreover have "length pat \<le> length (c # cs)"
      using arg_cong [OF True, of length] by simp
    ultimately show ?thesis using True by simp
  qed (use 2 in auto)
qed (auto split: if_splits)

lemma find_sub_None_iff:
  "pat \<noteq> [] \<Longrightarrow> find_sub pat s = None \<longleftrightarrow> (\<forall>i. take (length pat) (drop i s) \<noteq> pat)"
proof (induction pat s rule: find_sub.induct)
  case (2 pat c cs)
  have "(\<forall>i. take (length pat) (drop i (c # cs)) \<noteq> pat) \<longleftrightarrow>
        take (length pat) (c # cs) \<noteq> pat \<and> (\<forall>i. take (length pat) (drop i cs) \<noteq> pat)"
    by (metis drop0 drop_Suc_Cons not0_implies_Suc)
  with 2 show ?case by simp
qed auto

lemma str_find_Some:
  assumes "str_find s pat pos = Some i"
  shows "pos \<le> i" and "take (length pat) (drop i s) = pat" and "i + length pat \<le> length s"
proof -
  from assms obtain j where j: "find_sub pat (drop pos s) = Some j" and i: "i = pos + j"
    and p: "pos \<le> length s"
    by (auto simp: str_find_def split: if_splits)
  from find_sub_Some [OF j] show "pos \<le> i" "take (length pat) (drop i s) = pat"
    "i + length pat \<le> length s"
    using i p by (auto simp: add.commute)
qed

lemma find_char_Some:
  "find_char c s = Some i \<Longrightarrow> i < length s \<and> s ! i = c \<and> c \<notin> set (take i s)"
  by (induction c s arbitrary: i rule: find_char.induct) (auto split: if_splits)

lemma find_char_None [simp]: "find_char c s = None \<longleftrightarrow> c \<notin> set s"
  by (induction c s rule: find_char.induct) auto

lemma find_char_notin [simp]: "c \<notin> set s \<Longrightarrow> find_char c s = None"
  by simp

lemma find_char_append [str_simps]: "c \<notin> set xs \<Longrightarrow> find_char c (xs @ c # ys) = Some (length xs)"
  by (induction xs) auto

lemma rfind_char_None [simp]: "rfind_char c s = None \<longleftrightarrow> c \<notin> set s"
  by (induction c s rule: rfind_char.induct) (auto split: option.splits)

lemma rfind_char_notin [simp]: "c \<notin> set s \<Longrightarrow> rfind_char c s = None"
  by simp

lemma rfind_char_append [str_simps]:
  "c \<notin> set ys \<Longrightarrow> rfind_char c (xs @ c # ys) = Some (length xs)"
  by (induction xs) (simp_all del: rfind_char_None)

lemma rfind_char_Some:
  "rfind_char c s = Some i \<Longrightarrow> i < length s \<and> s ! i = c \<and> c \<notin> set (drop (Suc i) s)"
proof (induction c s arbitrary: i rule: rfind_char.induct)
  case (2 c d ds)
  show ?case
  proof (cases "rfind_char c ds")
    case None
    with 2 show ?thesis by (auto split: if_splits)
  next
    case (Some j)
    with 2 show ?thesis by auto
  qed
qed simp

text \<open>What a C function sees of a string.\<close>

definition c_str :: "string \<Rightarrow> string" where
  "c_str s = takeWhile (\<lambda>c. ord c \<noteq> 0) s"

lemma c_str_id [simp]: "\<forall>c\<in>set s. ord c \<noteq> 0 \<Longrightarrow> c_str s = s"
  by (simp add: c_str_def)

section \<open>Words of an input stream\<close>

text \<open>
  \<open>stream >> str\<close> on an \<open>istringstream\<close>: skips white space; \<open>None\<close> when nothing is
  left (the target keeps its value), else the next word and the rest of the stream.
\<close>

definition stream_word :: "string \<Rightarrow> (string \<times> string) option" where
  "stream_word s =
     (let t = dropWhile isspace_c s
      in if t = [] then None
         else Some (takeWhile (\<lambda>c. \<not> isspace_c c) t, dropWhile (\<lambda>c. \<not> isspace_c c) t))"

text \<open>Three words in a row, each target starting from its old value.\<close>

definition stream_get :: "string \<Rightarrow> string option \<Rightarrow> string \<times> string option" where
  "stream_get prev st =
     (case st of None \<Rightarrow> (prev, None)
      | Some s \<Rightarrow> (case stream_word s of None \<Rightarrow> (prev, None) | Some (w, r) \<Rightarrow> (w, Some r)))"

section \<open>Numbers\<close>

definition to_int32 :: "int \<Rightarrow> int" where
  "to_int32 n = (n + 2 ^ 31) mod 2 ^ 32 - 2 ^ 31"

definition to_uint32 :: "int \<Rightarrow> nat" where
  "to_uint32 n = nat (n mod 2 ^ 32)"

fun digits_val :: "nat \<Rightarrow> string \<Rightarrow> nat" where
  "digits_val acc [] = acc"
| "digits_val acc (c # cs) = (if isdigit_c c then digits_val (acc * 10 + (ord c - 48)) cs else acc)"

text \<open>
  \<open>strtol(s, NULL, 10)\<close> clamps to the range of \<open>long\<close>; \<open>atoi\<close> is \<open>strtol\<close> cut to
  32 bits, as in glibc.
\<close>

definition clamp64 :: "int \<Rightarrow> int" where
  "clamp64 n = max (- (2 ^ 63)) (min (2 ^ 63 - 1) n)"

definition strtol10 :: "string \<Rightarrow> int" where
  "strtol10 s =
     (case dropWhile isspace_c s of
        [] \<Rightarrow> 0
      | c # cs \<Rightarrow>
          if c = CHR ''-'' then clamp64 (- int (digits_val 0 cs))
          else if c = CHR ''+'' then clamp64 (int (digits_val 0 cs))
          else clamp64 (int (digits_val 0 (c # cs))))"

definition atoi :: "string \<Rightarrow> int" where
  "atoi s = to_int32 (strtol10 s)"

lemma to_int32_id [simp]: "- (2 ^ 31) \<le> n \<Longrightarrow> n < 2 ^ 31 \<Longrightarrow> to_int32 n = n"
  by (simp add: to_int32_def)

lemma to_int32_range: "- (2 ^ 31) \<le> to_int32 n \<and> to_int32 n < 2 ^ 31"
proof -
  have "0 \<le> (n + 2 ^ 31) mod 2 ^ 32" "(n + 2 ^ 31) mod 2 ^ 32 < (2 ^ 32 :: int)" by simp_all
  then show ?thesis by (simp add: to_int32_def)
qed

lemma atoi_range: "- (2 ^ 31) \<le> atoi s \<and> atoi s < 2 ^ 31"
  unfolding atoi_def by (rule to_int32_range)

lemma to_uint32_less: "to_uint32 n < 2 ^ 32"
proof -
  have "n mod 2 ^ 32 < (2 ^ 32 :: int)" by simp
  then show ?thesis by (simp add: to_uint32_def nat_less_iff)
qed

section \<open>Lists\<close>

lemma takeWhile_dropWhile_length:
  "length (takeWhile P xs) + length (dropWhile P xs) = length xs"
  by (metis length_append takeWhile_dropWhile_id)

lemma length_tl_less [simp]: "length xs - Suc 0 < length xs \<longleftrightarrow> xs \<noteq> []"
  by (cases xs) auto

lemma length_tl_less_le: "xs \<noteq> [] \<Longrightarrow> length xs \<le> n \<Longrightarrow> length xs - Suc 0 < n"
  by (cases xs) auto

lemma remove1_distinct_notin: "distinct xs \<Longrightarrow> x \<notin> set (remove1 x xs)"
  by simp

end
