(* ===== verification/Wildcard.thy ===== *)
theory Wildcard
  imports Prelude
begin

text \<open>
  The glob matcher of \<open>src/wildcard.cpp\<close>. C strings are lists without their terminating NUL,
  a pointer into a string is the suffix it points at, and \<open>*p == 0\<close> is the empty suffix. The
  two matchers differ in how they compare characters only, so the loops take that comparison as
  an argument. The saved pointers \<open>mp\<close> and \<open>cp\<close>, \<open>NULL\<close> until the first star, are an
  option; reading them while \<open>NULL\<close> makes the result \<open>None\<close>.
\<close>

section \<open>The matcher\<close>

abbreviation STAR :: char where "STAR \<equiv> CHR ''*''"
abbreviation QMARK :: char where "QMARK \<equiv> CHR ''?''"

text \<open>The loop before the first star: \<open>None\<close> is \<open>return 0\<close>.\<close>

fun match_lead :: "(char \<Rightarrow> char \<Rightarrow> bool) \<Rightarrow> string \<Rightarrow> string \<Rightarrow> (string \<times> string) option" where
  "match_lead eq [] wild = Some ([], wild)"
| "match_lead eq (c # cs) [] = None"
| "match_lead eq (c # cs) (x # w) =
     (if x = STAR then Some (c # cs, x # w)
      else if \<not> eq x c \<and> x \<noteq> QMARK then None
      else match_lead eq cs w)"

text \<open>The trailing loop \<open>while (*wild == '*') wild++; return !*wild;\<close>.\<close>

definition only_stars :: "string \<Rightarrow> bool" where
  "only_stars wild \<longleftrightarrow> dropWhile (\<lambda>x. x = STAR) wild = []"

text \<open>The backtracking loop; \<open>star\<close> is \<open>(mp, cp)\<close>.\<close>

function (sequential) match_loop ::
  "(char \<Rightarrow> char \<Rightarrow> bool) \<Rightarrow> string \<Rightarrow> string \<Rightarrow> (string \<times> string) option \<Rightarrow> bool option" where
  "match_loop eq [] wild star = Some (only_stars wild)"
| "match_loop eq (c # cs) wild star =
     (if wild \<noteq> [] \<and> hd wild = STAR then
        (if tl wild = [] then Some True
         else match_loop eq (c # cs) (tl wild) (Some (tl wild, cs)))
      else if wild \<noteq> [] \<and> (eq (hd wild) c \<or> hd wild = QMARK) then match_loop eq cs (tl wild) star
      else (case star of None \<Rightarrow> None
            | Some (mp, cp) \<Rightarrow> match_loop eq cp mp (Some (mp, tl cp))))"
  by pat_completeness auto

text \<open>
  Each star leaves a shorter mask, a mismatch advances \<open>cp\<close>, a match advances \<open>string\<close>.
\<close>

termination
  by (relation "measures
        [\<lambda>(eq, s, w, star). max (length w) (case star of None \<Rightarrow> 0 | Some (mp, cp) \<Rightarrow> length mp),
         \<lambda>(eq, s, w, star). (case star of None \<Rightarrow> 0 | Some (mp, cp) \<Rightarrow> length cp),
         \<lambda>(eq, s, w, star). length s]")
     (auto split: option.splits simp: max_def length_tl_less_le)

definition match_with :: "(char \<Rightarrow> char \<Rightarrow> bool) \<Rightarrow> string \<Rightarrow> string \<Rightarrow> bool option" where
  "match_with eq str msk =
     (case match_lead eq str msk of None \<Rightarrow> Some False
      | Some (string', wild) \<Rightarrow> match_loop eq string' wild None)"

definition csmatch :: "string \<Rightarrow> string \<Rightarrow> bool option" where
  "csmatch str msk = match_with (=) str msk"

definition match_ci :: "string \<Rightarrow> string \<Rightarrow> bool option" where
  "match_ci str msk = match_with (\<lambda>a b. tolower_c a = tolower_c b) str msk"

section \<open>What a mask means\<close>

text \<open>A star stands for any string, a question mark for one character.\<close>

function (sequential) glob :: "(char \<Rightarrow> char \<Rightarrow> bool) \<Rightarrow> string \<Rightarrow> string \<Rightarrow> bool" where
  "glob eq [] s = (s = [])"
| "glob eq (x # m) [] = (x = STAR \<and> glob eq m [])"
| "glob eq (x # m) (c # cs) =
     (if x = STAR then glob eq m (c # cs) \<or> glob eq (x # m) cs
      else (eq x c \<or> x = QMARK) \<and> glob eq m cs)"
  by pat_completeness auto
termination by (relation "measures [\<lambda>(eq, m, s). length m + length s]") auto

declare match_loop.simps(2) [simp del]

lemma glob_star_Nil [simp]: "glob eq (STAR # m) [] = glob eq m []"
  by simp

lemma glob_star_suffix: "glob eq (STAR # m) s \<longleftrightarrow> (\<exists>k. glob eq m (drop k s))"
proof (induction s)
  case (Cons c cs)
  have "(\<exists>k. glob eq m (drop k (c # cs))) \<longleftrightarrow> glob eq m (c # cs) \<or> (\<exists>k. glob eq m (drop k cs))"
    by (metis drop0 drop_Suc_Cons not0_implies_Suc)
  with Cons show ?case by simp
qed simp

lemma glob_star_absorb: "glob eq (STAR # m) t \<Longrightarrow> glob eq (STAR # m) (u @ t)"
  unfolding glob_star_suffix by (elim exE, rule_tac x = "length u + k" in exI) simp

lemma only_stars_glob: "only_stars w = glob eq w []"
  by (induction w) (auto simp: only_stars_def)

text \<open>A mask consumes one character for each of its leading non-stars.\<close>

lemma glob_consume:
  assumes "glob eq (pre @ w) t" and "\<forall>x\<in>set pre. x \<noteq> STAR"
  shows "length pre \<le> length t \<and> glob eq w (drop (length pre) t)"
  using assms
proof (induction pre arbitrary: t)
  case (Cons x pre)
  then show ?case by (cases t) auto
qed simp

section \<open>The loop computes the meaning\<close>

text \<open>
  What ties the pointers together: since the last star, \<open>pre\<close> was consumed from \<open>mp\<close> and
  as many characters \<open>pre'\<close> from the attempt that starts just before \<open>cp\<close>.
\<close>

definition star_ok :: "string \<Rightarrow> string \<Rightarrow> (string \<times> string) option \<Rightarrow> bool" where
  "star_ok s w star \<longleftrightarrow>
     (case star of None \<Rightarrow> s = [] \<or> (w \<noteq> [] \<and> hd w = STAR)
      | Some (mp, cp) \<Rightarrow> \<exists>pre pre'. mp = pre @ w \<and> (\<forall>x\<in>set pre. x \<noteq> STAR) \<and>
          length pre' = length pre \<and> cp = tl (pre' @ s))"

definition star_alt :: "(char \<Rightarrow> char \<Rightarrow> bool) \<Rightarrow> (string \<times> string) option \<Rightarrow> bool" where
  "star_alt eq star = (case star of None \<Rightarrow> False | Some (mp, cp) \<Rightarrow> glob eq (STAR # mp) cp)"

lemma star_ok_new: "star_ok s w (Some (w, tl s))"
  unfolding star_ok_def by (auto intro: exI [of _ "[]"])

lemma star_ok_match:
  assumes "star_ok (c # cs) (x # w) star" and "x \<noteq> STAR"
  shows "star_ok cs w star"
proof (cases star)
  case None
  with assms show ?thesis by (simp add: star_ok_def)
next
  case (Some p)
  with assms(1) obtain mp cp pre pre' where p: "p = (mp, cp)" "mp = pre @ x # w"
    "\<forall>y\<in>set pre. y \<noteq> STAR" "length pre' = length pre" "cp = tl (pre' @ c # cs)"
    by (cases p) (auto simp: star_ok_def)
  then have "mp = (pre @ [x]) @ w \<and> (\<forall>y\<in>set (pre @ [x]). y \<noteq> STAR) \<and>
      length (pre' @ [c]) = length (pre @ [x]) \<and> cp = tl ((pre' @ [c]) @ cs)"
    using assms(2) by auto
  then show ?thesis unfolding star_ok_def Some p(1) option.case prod.case by (intro exI)
qed

text \<open>An older star never helps where the current attempt has run out of string or met a star.\<close>

lemma star_alt_consumed:
  assumes "star_ok s w star" and "star_alt eq star" and "w = [] \<or> hd w = STAR \<or> s = []"
  shows "glob eq w s \<or> (w \<noteq> [] \<and> hd w = STAR \<and> glob eq (STAR # tl w) s) \<or> (w = [] \<and> s \<noteq> [])"
proof -
  from assms(2) obtain mp cp where st: "star = Some (mp, cp)" and g: "glob eq (STAR # mp) cp"
    by (auto simp: star_alt_def split: option.splits)
  with assms(1) obtain pre pre' where mp: "mp = pre @ w" and ns: "\<forall>x\<in>set pre. x \<noteq> STAR"
    and len: "length pre' = length pre" and cp: "cp = tl (pre' @ s)"
    by (auto simp: star_ok_def)
  from g obtain k where k: "glob eq mp (drop k cp)" unfolding glob_star_suffix by blast
  from glob_consume [OF k [unfolded mp] ns]
  have short: "length pre \<le> length (drop k cp)" and rest: "glob eq w (drop (length pre) (drop k cp))"
    by auto
  show ?thesis
  proof (cases "pre' @ s")
    case Nil
    with len cp short rest show ?thesis by auto
  next
    case (Cons a as)
    have "drop (length pre) (drop k cp) = drop (Suc k) s"
      using len cp Cons by (metis add.commute add_Suc_right append_eq_conv_conj drop_Suc drop_drop)
    moreover have "length pre \<le> length pre' + length s - 1 - k" using short cp by simp
    ultimately have r: "glob eq w (drop (Suc k) s)" and "s \<noteq> []" using rest len Cons by auto
    then show ?thesis
    proof (cases "w = []")
      case False
      then obtain m where w: "w = STAR # m" using assms(3) \<open>s \<noteq> []\<close> by (cases w) auto
      have "glob eq w (take (Suc k) s @ drop (Suc k) s)"
        using r unfolding w by (rule glob_star_absorb)
      then show ?thesis by simp
    qed (use \<open>s \<noteq> []\<close> in auto)
  qed
qed

lemma match_loop_glob:
  "star_ok s w star \<Longrightarrow> match_loop eq s w star = Some (glob eq w s \<or> star_alt eq star)"
proof (induction eq s w star rule: match_loop.induct)
  case (1 eq wild star)
  have "star_alt eq star \<Longrightarrow> glob eq wild []"
    using star_alt_consumed [OF 1] by (cases wild) auto
  then show ?case by (auto simp: only_stars_glob [of _ eq])
next
  case (2 eq c cs wild star)
  note unfold = match_loop.simps(2) [of eq c cs wild star]
  consider (star) m where "wild = STAR # m"
    | (matching) x m where "wild = x # m" "x \<noteq> STAR" "eq x c \<or> x = QMARK"
    | (mismatch) "wild = [] \<or> hd wild \<noteq> STAR" "wild = [] \<or> \<not> (eq (hd wild) c \<or> hd wild = QMARK)"
    by (cases wild) auto
  then show ?case
  proof cases
    case star
    then have old: "star_alt eq star \<Longrightarrow> glob eq wild (c # cs)"
      using star_alt_consumed [OF 2(4)] by auto
    show ?thesis
    proof (cases "m = []")
      case True
      have "glob eq [STAR] (c # cs)" unfolding glob_star_suffix
        by (metis drop_eq_Nil glob.simps(1) order_refl)
      with star True show ?thesis by (subst unfold) simp
    next
      case False
      have "match_loop eq (c # cs) m (Some (m, cs)) =
          Some (glob eq m (c # cs) \<or> star_alt eq (Some (m, cs)))"
        using 2(1) star False star_ok_new [of "c # cs" m] by simp
      with star False old show ?thesis by (subst unfold) (auto simp: star_alt_def)
    qed
  next
    case matching
    with 2(2) star_ok_match [OF 2(4) [unfolded matching(1)] matching(2)]
    show ?thesis by (subst unfold) (simp add: matching star_alt_def)
  next
    case mismatch
    then obtain mp cp where st: "star = Some (mp, cp)"
      using 2(4) by (cases star) (auto simp: star_ok_def)
    have "match_loop eq cp mp (Some (mp, tl cp)) = Some (glob eq mp cp \<or> glob eq (STAR # mp) (tl cp))"
      using 2(3) mismatch st star_ok_new [of cp mp] by (auto simp: star_alt_def)
    moreover have "\<not> glob eq wild (c # cs)" using mismatch by (cases wild) auto
    moreover have "(glob eq mp cp \<or> glob eq (STAR # mp) (tl cp)) = glob eq (STAR # mp) cp"
      by (cases cp) auto
    ultimately show ?thesis using mismatch st by (subst unfold) (auto simp: star_alt_def)
  qed
qed

lemma match_lead_glob:
  "(case match_lead eq s w of None \<Rightarrow> \<not> glob eq w s
    | Some (s', w') \<Rightarrow> glob eq w s = glob eq w' s' \<and> (s' = [] \<or> (w' \<noteq> [] \<and> hd w' = STAR)))"
  by (induction eq s w rule: match_lead.induct) (auto split: option.splits)

lemma match_with_glob: "match_with eq s w = Some (glob eq w s)"
  using match_lead_glob [of eq w s]
  by (auto simp: match_with_def match_loop_glob star_ok_def star_alt_def only_stars_glob [of _ eq]
    split: option.splits)

section \<open>Properties\<close>

text \<open>Claim C11: the case-sensitive matcher always returns, never reads a pointer that was not
  set, and its answer is the meaning of the mask: the single saved star is enough.\<close>

theorem csmatch_correct: "csmatch str msk = Some (glob (=) msk str)"
  unfolding csmatch_def by (rule match_with_glob)

lemma tolower_wild [simp]: "tolower_c x = STAR \<longleftrightarrow> x = STAR" "tolower_c x = QMARK \<longleftrightarrow> x = QMARK"
proof -
  have "ord (char_of (ord x + 32)) = ord x + 32" if "ord x \<le> 90" using that by simp
  then show "tolower_c x = STAR \<longleftrightarrow> x = STAR" "tolower_c x = QMARK \<longleftrightarrow> x = QMARK"
    by (auto simp: tolower_c_def dest!: arg_cong [where f = ord])
qed

lemma glob_tolower:
  "glob (\<lambda>a b. tolower_c a = tolower_c b) m s = glob (=) (map tolower_c m) (map tolower_c s)"
  by (induction "\<lambda>a b :: char. tolower_c a = tolower_c b" m s rule: glob.induct) auto

text \<open>The case-insensitive matcher always returns, and its answer is the meaning of the
  mask on the lower-cased strings.\<close>

theorem match_ci_correct: "match_ci str msk = Some (glob (=) (map tolower_c msk) (map tolower_c str))"
  unfolding match_ci_def glob_tolower [symmetric] by (rule match_with_glob)

end
