(* ===== verification/Cidr.thy ===== *)
theory Cidr
  imports Wildcard
begin

unbundle bit_operations_syntax

text \<open>
  CIDR matching (\<open>src/cidr.cpp\<close>) and the matchers of \<open>src/wildcard.cpp\<close> that use it.
  \<open>inet_pton\<close> belongs to the C library of the host and is an argument: it takes whether
  \<open>AF_INET6\<close> is asked for and a string, and gives the raw bytes. \<open>ip6\<close> is the build option
  \<open>SUPPORT_IP6LINKS\<close>.
\<close>

type_synonym bytes = "8 word list"
type_synonym pton = "bool \<Rightarrow> string \<Rightarrow> bytes option"

definition inverted_bits :: bytes where
  "inverted_bits = [0x00, 0x80, 0xC0, 0xE0, 0xF0, 0xF8, 0xFC, 0xFE]"

definition MatchCIDRBits :: "bytes \<Rightarrow> bytes \<Rightarrow> nat \<Rightarrow> bool" where
  "MatchCIDRBits address msk mask_bits =
     (let divisor = mask_bits div 8; modulus = mask_bits mod 8 in
      if modulus \<noteq> 0 \<and>
         (address ! divisor AND inverted_bits ! modulus) \<noteq> (msk ! divisor AND inverted_bits ! modulus)
      then False
      else if take divisor address \<noteq> take divisor msk then False
      else True)"

text \<open>The part of \<open>MatchCIDR\<close> after the user name has been dealt with.\<close>

definition MatchCIDR_host :: "bool \<Rightarrow> pton \<Rightarrow> string \<Rightarrow> string \<Rightarrow> bool" where
  "MatchCIDR_host ip6 inet_pton address cidr_mask =
     (case rfind_char (CHR ''/'') cidr_mask of
        None \<Rightarrow> False
      | Some bits_chars \<Rightarrow>
          let bits = to_uint32 (atoi (drop (Suc bits_chars) cidr_mask));
              msk = take bits_chars cidr_mask in
          (case (if ip6 then inet_pton True address else None) of
             Some a6 \<Rightarrow>
               (case inet_pton True msk of
                  Some m6 \<Rightarrow> MatchCIDRBits a6 m6 (if bits > 128 then 128 else bits)
                | None \<Rightarrow> False)
           | None \<Rightarrow>
               (case inet_pton False address of
                  Some a4 \<Rightarrow>
                    (case inet_pton False msk of
                       Some m4 \<Rightarrow> MatchCIDRBits a4 m4 (if bits > 32 then 32 else bits)
                     | None \<Rightarrow> False)
                | None \<Rightarrow> False)))"

definition MatchCIDR :: "bool \<Rightarrow> pton \<Rightarrow> string \<Rightarrow> string \<Rightarrow> bool \<Rightarrow> bool" where
  "MatchCIDR ip6 inet_pton address cidr_mask match_with_username =
     (if match_with_username then
        (case (find_char (CHR ''@'') cidr_mask, find_char (CHR ''@'') address) of
           (Some i, Some j) \<Rightarrow>
             match_ci (take j address) (take i cidr_mask) = Some True \<and>
             MatchCIDR_host ip6 inet_pton (drop (Suc j) address) (drop (Suc i) cidr_mask)
         | _ \<Rightarrow> MatchCIDR_host ip6 inet_pton address cidr_mask)
      else MatchCIDR_host ip6 inet_pton address cidr_mask)"

definition match_cidr :: "bool \<Rightarrow> pton \<Rightarrow> string \<Rightarrow> string \<Rightarrow> bool \<Rightarrow> bool" where
  "match_cidr ip6 inet_pton str msk use_cidr_match =
     (if use_cidr_match \<and> MatchCIDR ip6 inet_pton str msk True then True
      else match_ci str msk = Some True)"

definition match_case_cidr :: "bool \<Rightarrow> pton \<Rightarrow> bool \<Rightarrow> string \<Rightarrow> string \<Rightarrow> bool \<Rightarrow> bool" where
  "match_case_cidr ip6 inet_pton case_sensitive str msk use_cidr_match =
     (if use_cidr_match \<and> MatchCIDR ip6 inet_pton str msk True then True
      else if case_sensitive then csmatch str msk = Some True else match_ci str msk = Some True)"

definition match_case :: "bool \<Rightarrow> string \<Rightarrow> string \<Rightarrow> bool" where
  "match_case case_sensitive str msk =
     (if case_sensitive then csmatch str msk = Some True else match_ci str msk = Some True)"

section \<open>Bits of an address\<close>

text \<open>The bits of a byte string in network order, most significant first.\<close>

definition byte_bits :: "8 word \<Rightarrow> bool list" where
  "byte_bits b = map (bit b) [7, 6, 5, 4, 3, 2, 1, 0]"

definition bits_of :: "bytes \<Rightarrow> bool list" where
  "bits_of bs = concat (map byte_bits bs)"

lemma length_byte_bits [simp]: "length (byte_bits b) = 8"
  by (simp add: byte_bits_def)

lemma bits_of_Cons: "bits_of (b # bs) = byte_bits b @ bits_of bs"
  by (simp add: bits_of_def)

lemma bits_of_append: "bits_of (xs @ ys) = bits_of xs @ bits_of ys"
  by (simp add: bits_of_def)

lemma length_bits_of [simp]: "length (bits_of bs) = 8 * length bs"
  by (induction bs) (simp_all add: bits_of_def)

lemma byte_eq_iff: "(x :: 8 word) = y \<longleftrightarrow> (\<forall>i \<in> {7, 6, 5, 4, 3, 2, 1, 0}. bit x i = bit y i)"
proof
  assume *: "\<forall>i \<in> {7, 6, 5, 4, 3, 2, 1, 0}. bit x i = bit y i"
  show "x = y"
  proof (rule bit_word_eqI)
    fix n assume "n < LENGTH(8)"
    then have "n \<in> {7, 6, 5, 4, 3, 2, 1, 0}" by auto
    with * show "bit x n = bit y n" by blast
  qed
qed simp

lemma byte_bits_inj: "byte_bits x = byte_bits y \<longleftrightarrow> x = y"
  by (auto simp: byte_bits_def byte_eq_iff)

lemma bits_of_inj: "length xs = length ys \<Longrightarrow> bits_of xs = bits_of ys \<longleftrightarrow> xs = ys"
  by (induction xs ys rule: list_induct2) (auto simp: bits_of_Cons byte_bits_inj)

lemma less_8_cases: "(k :: nat) < 8 \<longleftrightarrow> k \<in> {7, 6, 5, 4, 3, 2, 1, 0}"
  by auto

lemma bit_inverted_bits:
  assumes "k < 8" and "i < 8"
  shows "bit (inverted_bits ! k) i \<longleftrightarrow> 8 - k \<le> i"
proof -
  have "\<forall>k \<in> {7, 6, 5, 4, 3, 2, 1, 0}. \<forall>i \<in> {7, 6, 5, 4, 3, 2, 1, 0}.
      bit (inverted_bits ! k) i = (8 - k \<le> i)"
    by (simp add: inverted_bits_def)
  with assms show ?thesis unfolding less_8_cases by blast
qed

lemma inverted_bits_take:
  assumes k: "k < 8"
  shows "x AND inverted_bits ! k = y AND inverted_bits ! k \<longleftrightarrow>
         take k (byte_bits x) = take k (byte_bits y)"
proof -
  have inv: "bit (inverted_bits ! k) i = (8 - k \<le> i)" if "i \<in> {7, 6, 5, 4, 3, 2, 1, 0}" for i
    using bit_inverted_bits [OF k, of i] that unfolding less_8_cases by blast
  have "x AND inverted_bits ! k = y AND inverted_bits ! k \<longleftrightarrow>
        (\<forall>i \<in> {7, 6, 5, 4, 3, 2, 1, 0}. 8 - k \<le> i \<longrightarrow> bit x i = bit y i)"
    unfolding byte_eq_iff bit_and_iff by (rule ball_cong [OF refl]) (subst (1 2) inv, assumption, rule iffI; argo)
  also have "\<dots> \<longleftrightarrow> take k (byte_bits x) = take k (byte_bits y)"
    using k unfolding less_8_cases by (elim insertE emptyE) (simp_all add: byte_bits_def)
  finally show ?thesis .
qed

lemma take_bits_of:
  assumes "k < 8" and "d < length bs"
  shows "take (8 * d + k) (bits_of bs) = bits_of (take d bs) @ take k (byte_bits (bs ! d))"
proof -
  have "bits_of bs = bits_of (take d bs) @ byte_bits (bs ! d) @ bits_of (drop (Suc d) bs)"
    using assms(2) by (metis bits_of_Cons bits_of_append id_take_nth_drop)
  then show ?thesis using assms by simp
qed

section \<open>Properties\<close>

text \<open>Claim C12: comparing the odd bits with the lookup table and the whole bytes with
  \<open>memcmp\<close> compares exactly the first \<open>mask_bits\<close> bits, in network order.\<close>

theorem MatchCIDRBits_correct:
  assumes len: "length a = length m" and n: "n \<le> 8 * length a"
  shows "MatchCIDRBits a m n \<longleftrightarrow> take n (bits_of a) = take n (bits_of m)"
proof -
  let ?d = "n div 8" and ?k = "n mod 8"
  have n_eq: "n = 8 * ?d + ?k" by simp
  have bytes: "bits_of (take ?d a) = bits_of (take ?d m) \<longleftrightarrow> take ?d a = take ?d m"
    by (rule bits_of_inj) (simp add: len)
  show ?thesis
  proof (cases "?k = 0")
    case True
    then have "take n (bits_of xs) = bits_of (take ?d xs)" if "length xs = length a" for xs
      using n n_eq that by (metis add.right_neutral append_take_drop_id bits_of_append length_bits_of
          append_eq_conv_conj length_take min.absorb2 mult_le_cancel1 zero_less_numeral)
    with True bytes len show ?thesis by (simp add: MatchCIDRBits_def Let_def)
  next
    case False
    with n n_eq have d: "?d < length a" by linarith
    then have "take n (bits_of xs) = bits_of (take ?d xs) @ take ?k (byte_bits (xs ! ?d))"
      if "length xs = length a" for xs
      using take_bits_of [of ?k ?d xs] n_eq that by simp
    then have "take n (bits_of a) = take n (bits_of m) \<longleftrightarrow>
        take ?d a = take ?d m \<and> take ?k (byte_bits (a ! ?d)) = take ?k (byte_bits (m ! ?d))"
      using bytes len by simp
    with False show ?thesis
      by (auto simp: MatchCIDRBits_def Let_def inverted_bits_take)
  qed
qed

theorem MatchCIDRBits_correct_witness:
  "length [0x7F, 0, 0, 1 :: 8 word] = length [0x7F, 0, 0, 0 :: 8 word] \<and>
   (MatchCIDRBits [0x7F, 0, 0, 1] [0x7F, 0, 0, 0] 9 \<longleftrightarrow>
    take 9 (bits_of [0x7F, 0, 0, 1]) = take 9 (bits_of [0x7F, 0, 0, 0]))"
  using MatchCIDRBits_correct [of "[0x7F, 0, 0, 1]" "[0x7F, 0, 0, 0]" 9] by simp

end
