(* ===== verification/Numeric.thy ===== *)
theory Numeric
  imports Prelude
begin

text \<open>
  Numbers in text: \<open>ConvNumeric\<close> behind \<open>ConvToStr\<close> and \<open>itoa\<close> (\<open>include/inspircd.h\<close>), and
  \<open>InspIRCd::Duration\<close> (\<open>src/helperfuncs.cpp\<close>). \<open>Duration\<close> computes in \<open>long\<close>: an
  operation that overflows it is \<open>None\<close>.
\<close>

section \<open>Printing\<close>

text \<open>The digit loop, least significant first; C division truncates, so it runs on \<open>|in|\<close>.\<close>

fun num_digits :: "nat \<Rightarrow> string" where
  "num_digits q = (if q = 0 then [] else char_of (48 + q mod 10) # num_digits (q div 10))"

declare num_digits.simps [simp del]

definition ConvNumeric :: "int \<Rightarrow> string" where
  "ConvNumeric i =
     (if i = 0 then ''0''
      else rev (num_digits (nat \<bar>i\<bar>) @ (if i < 0 then ''-'' else [])))"

definition hex_digit :: "nat \<Rightarrow> char" where
  "hex_digit d = ''0123456789abcdef'' ! d"

function base_digits :: "nat \<Rightarrow> nat \<Rightarrow> string" where
  "base_digits b q = (if q = 0 \<or> b < 2 then [] else hex_digit (q mod b) # base_digits b (q div b))"
  by pat_completeness auto
termination by (relation "measure snd") auto

declare base_digits.simps [simp del]

definition itoa :: "int \<Rightarrow> int \<Rightarrow> string" where
  "itoa i base =
     (if base < 2 \<or> base > 16 then []
      else rev (base_digits (nat base) (nat \<bar>i\<bar>) @ (if i < 0 \<and> base = 10 then ''-'' else [])))"

section \<open>Printing and reading back\<close>

lemma isdigit_c_char_of [simp]: "d < 10 \<Longrightarrow> isdigit_c (char_of (48 + d))" for d :: nat
  by (simp add: isdigit_c_def)

lemma num_digits_0 [simp]: "num_digits 0 = []"
  by (subst num_digits.simps) simp

lemma num_digits_pos: "0 < q \<Longrightarrow> num_digits q = char_of (48 + q mod 10) # num_digits (q div 10)"
  by (subst num_digits.simps) simp

lemma num_digits_isdigit: "c \<in> set (num_digits q) \<Longrightarrow> isdigit_c c"
proof (induction q rule: num_digits.induct)
  case (1 q)
  then show ?case by (cases "q = 0") (auto simp: num_digits_pos)
qed

lemma num_digits_eq_Nil [simp]: "num_digits q = [] \<longleftrightarrow> q = 0"
  by (subst num_digits.simps) simp

lemma digits_val_append:
  "\<forall>c\<in>set xs. isdigit_c c \<Longrightarrow> digits_val acc (xs @ ys) = digits_val (digits_val acc xs) ys"
  by (induction xs arbitrary: acc) auto

lemma digits_val_num_digits:
  "digits_val acc (rev (num_digits q)) = acc * 10 ^ length (num_digits q) + q"
proof (induction q arbitrary: acc rule: num_digits.induct)
  case (1 q)
  show ?case
  proof (cases "q = 0")
    case False
    have digs: "\<forall>c\<in>set (rev (num_digits (q div 10))). isdigit_c c"
      using num_digits_isdigit by auto
    have "digits_val acc (rev (num_digits q)) =
        digits_val (digits_val acc (rev (num_digits (q div 10)))) [char_of (48 + q mod 10)]"
      using False digits_val_append [OF digs] by (simp add: num_digits_pos)
    also have "\<dots> = (acc * 10 ^ length (num_digits (q div 10)) + q div 10) * 10 + q mod 10"
      using "1" [OF False] by simp
    finally show ?thesis using False by (simp add: num_digits_pos algebra_simps)
  qed simp
qed

definition nondigit_start :: "string \<Rightarrow> bool" where
  "nondigit_start s \<longleftrightarrow> s = [] \<or> \<not> isdigit_c (hd s)"

lemma digits_val_stop [simp]: "nondigit_start s \<Longrightarrow> digits_val acc s = acc"
  by (cases s) (auto simp: nondigit_start_def)

lemma not_isdigit [simp]: "\<not> isdigit_c CHR ''-''" "\<not> isdigit_c CHR ''+''" "\<not> isspace_c CHR ''-''"
  by (simp_all add: isdigit_c_def isspace_c_def)

lemma isdigit_not_space [simp]: "isdigit_c c \<Longrightarrow> \<not> isspace_c c"
  by (auto simp: isdigit_c_def isspace_c_def)

lemma strtol10_ConvNumeric: "nondigit_start r \<Longrightarrow> strtol10 (ConvNumeric i @ r) = clamp64 i"
proof -
  assume r: "nondigit_start r"
  let ?ds = "rev (num_digits (nat \<bar>i\<bar>))"
  have val: "digits_val 0 (?ds @ r) = nat \<bar>i\<bar>"
    using digits_val_append [of ?ds 0 r] digits_val_num_digits [of 0 "nat \<bar>i\<bar>"] num_digits_isdigit r
    by auto
  consider "i = 0" | "i < 0" | "0 < i" by linarith
  then show ?thesis
  proof cases
    case 1
    then show ?thesis using r
      by (simp add: ConvNumeric_def strtol10_def isspace_c_def isdigit_c_def)
  next
    case 2
    then show ?thesis using val by (simp add: ConvNumeric_def strtol10_def)
  next
    case 3
    then obtain d ds where ds: "?ds = d # ds" by (cases ?ds) auto
    then have "isdigit_c d" using num_digits_isdigit [of d "nat \<bar>i\<bar>"] by (metis list.set_intros(1) set_rev)
    moreover have "ConvNumeric i = ?ds" using 3 by (simp add: ConvNumeric_def)
    moreover have "int (nat \<bar>i\<bar>) = i" using 3 by simp
    moreover have "digits_val 0 (d # ds @ r) = nat \<bar>i\<bar>" using val ds by simp
    ultimately show ?thesis unfolding strtol10_def ds
      by (auto simp: isdigit_c_def simp del: digits_val.simps split: list.splits)
  qed
qed

lemma atoi_ConvNumeric:
  assumes "- (2 ^ 31) \<le> i" and "i < 2 ^ 31" and "r = [] \<or> \<not> isdigit_c (hd r)"
  shows "atoi (ConvNumeric i @ r) = i"
proof -
  have "clamp64 i = i" using assms by (simp add: clamp64_def)
  then show ?thesis
    using assms strtol10_ConvNumeric [of r i] by (simp add: atoi_def nondigit_start_def)
qed

text \<open>Claim C16: what \<open>ConvToStr\<close> prints, \<open>atoi\<close> reads back, for every value of an \<open>int\<close>, also
  when more text that does not start with a digit follows.\<close>

theorem ConvNumeric_atoi:
  assumes "- (2 ^ 31) \<le> i" and "i < 2 ^ 31" and "r = [] \<or> \<not> isdigit_c (hd r)"
  shows "atoi (ConvNumeric i @ r) = i"
  by (rule atoi_ConvNumeric [OF assms])

theorem ConvNumeric_atoi_witness: "atoi (ConvNumeric (- 8080) @ '' bytes'') = - 8080"
  using ConvNumeric_atoi [of "- 8080" "'' bytes''"] by (simp add: isdigit_c_def)

section \<open>Durations\<close>

text \<open>
  The 256-entry table \<open>duration_multi\<close>: the entries that are not 1, by character code.
\<close>

definition duration_multi :: "nat \<Rightarrow> int" where
  "duration_multi m =
     (if m = 68 \<or> m = 100 then 86400
      else if m = 72 \<or> m = 104 then 3600
      else if m = 77 \<or> m = 109 then 60
      else if m = 87 \<or> m = 119 then 604800
      else if m = 89 \<or> m = 121 then 31536000
      else 1)"

text \<open>A value of type \<open>long\<close>; signed overflow is undefined, and \<open>None\<close>.\<close>

definition long_of :: "int \<Rightarrow> int option" where
  "long_of i = (if - (2 ^ 63) \<le> i \<and> i < 2 ^ 63 then Some i else None)"

definition dur_add :: "int \<Rightarrow> int \<Rightarrow> nat \<Rightarrow> int option" where
  "dur_add tot subtotal multiplier = do {
     p \<leftarrow> long_of (subtotal * duration_multi multiplier);
     long_of (tot + p)
   }"

fun dur_loop :: "string \<Rightarrow> nat \<times> int \<times> int \<times> int \<Rightarrow> (nat \<times> int \<times> int \<times> int) option" where
  "dur_loop [] st = Some st"
| "dur_loop (c # cs) (multiplier, tot, tms, subtotal) =
     (if isdigit_c c then do {
        p \<leftarrow> long_of ((int (ord c) - 48) * tms);
        subtotal' \<leftarrow> long_of (subtotal + p);
        tms' \<leftarrow> long_of (tms * 10);
        dur_loop cs (multiplier, tot, tms', subtotal')
      } else do {
        tot' \<leftarrow> (if subtotal \<noteq> 0 then dur_add tot subtotal multiplier else Some tot);
        dur_loop cs (ord c, tot', 1, 0)
      })"

definition dur_finish :: "nat \<times> int \<times> int \<times> int \<Rightarrow> int option" where
  "dur_finish st = (case st of (multiplier, tot, tms, subtotal) \<Rightarrow>
     if multiplier \<noteq> 0 then do { tot' \<leftarrow> dur_add tot subtotal multiplier; long_of (tot' + 0) }
     else long_of (tot + subtotal))"

definition Duration :: "string \<Rightarrow> int option" where
  "Duration str = do { st \<leftarrow> dur_loop (rev str) (0, 0, 1, 0); dur_finish st }"

lemma duration_multi_pos: "1 \<le> duration_multi m"
  by (simp add: duration_multi_def)

lemma dur_add_long:
  assumes "0 \<le> t" "0 \<le> s"
  shows "dur_add t s m = long_of (t + s * duration_multi m)"
proof -
  have "0 \<le> s * duration_multi m" using assms duration_multi_pos [of m] by simp
  with assms show ?thesis by (simp add: dur_add_def long_of_def)
qed

lemma long_of_pow10: "long_of (10 ^ k * 10) = (if k < 18 then Some (10 ^ Suc k) else None)"
proof (cases "k < 18")
  case True
  have "(10 :: int) ^ k \<le> 10 ^ 17" using True by (intro power_increasing) auto
  then have "10 ^ k * (10 :: int) < 2 ^ 63" by (simp add: mult.commute)
  moreover have "- (2 ^ 63) \<le> (0 :: int)" "(0 :: int) \<le> 10 ^ k * 10" by simp_all
  then have "- (2 ^ 63) \<le> 10 ^ k * (10 :: int)" by (rule order_trans)
  ultimately show ?thesis using True by (simp only: long_of_def if_True simp_thms power_Suc mult.commute)
next
  case False
  have "(10 :: int) ^ 18 \<le> 10 ^ k" using False by (intro power_increasing) auto
  then have "\<not> 10 ^ k * (10 :: int) < 2 ^ 63" by (simp add: mult.commute not_less)
  with False show ?thesis by (simp add: long_of_def)
qed

lemma digit_bound: "(d :: nat) < 10 \<Longrightarrow> int d * 10 ^ k \<le> 9 * 10 ^ k"
  by (intro mult_right_mono) auto

lemma digit_step:
  assumes "d < 10" "0 \<le> s" "s < 10 ^ k"
  shows "dur_loop (char_of (48 + d) # cs) (m, t, 10 ^ k, s) =
    (if k < 18 then dur_loop cs (m, t, 10 ^ Suc k, s + int d * 10 ^ k) else None)"
proof (cases "k < 18")
  case True
  have "(10 :: int) ^ k \<le> 10 ^ 17" using True by (intro power_increasing) auto
  then have "int d * 10 ^ k \<le> 9 * 10 ^ 17" "s < 10 ^ 17" "0 \<le> int d * 10 ^ k"
    using assms(3) digit_bound [OF assms(1), of k] by (linarith, linarith, simp)
  then have "long_of x = Some x" if "0 \<le> x" "x \<le> s + int d * 10 ^ k" for x
    using that by (simp add: long_of_def)
  then have "long_of (int d * 10 ^ k) = Some (int d * 10 ^ k)"
    "long_of (s + int d * 10 ^ k) = Some (s + int d * 10 ^ k)"
    using assms(2) by simp_all
  with True assms(1) long_of_pow10 [of k] show ?thesis by simp
next
  case False
  with assms(1) long_of_pow10 [of k] show ?thesis by (auto split: bind_splits)
qed

lemma dur_loop_digits:
  assumes "0 \<le> s" "s < 10 ^ k"
  shows "dur_loop (num_digits q @ cs) (m, t, 10 ^ k, s) =
    (if q = 0 \<or> k + length (num_digits q) \<le> 18
     then dur_loop cs (m, t, 10 ^ (k + length (num_digits q)), s + int q * 10 ^ k) else None)"
  using assms
proof (induction q arbitrary: k s rule: num_digits.induct)
  case (1 q)
  show ?case
  proof (cases "q = 0")
    case False
    let ?s = "s + int (q mod 10) * 10 ^ k"
    have "int (q mod 10) + int (q div 10) * 10 = int q" by presburger
    then have "(int (q mod 10) + int (q div 10) * 10) * 10 ^ k = int q * 10 ^ k" by simp
    then have eq: "s + int (q mod 10) * 10 ^ k + int (q div 10) * 10 ^ Suc k = s + int q * 10 ^ k"
      by (simp only: distrib_right power_Suc mult.assoc add.assoc)
    have "int (q mod 10) * 10 ^ k \<le> 9 * 10 ^ k" "0 \<le> int (q mod 10) * (10 :: int) ^ k"
      using digit_bound [of "q mod 10" k] by simp_all
    with 1(2,3) have "0 \<le> ?s" "?s < 10 ^ Suc k" unfolding power_Suc by linarith+
    from 1(1) [OF False this] have IH: "dur_loop (num_digits (q div 10) @ cs) (m, t, 10 ^ Suc k, ?s) =
      (if q div 10 = 0 \<or> Suc k + length (num_digits (q div 10)) \<le> 18
       then dur_loop cs (m, t, 10 ^ (Suc k + length (num_digits (q div 10))), s + int q * 10 ^ k) else None)"
      by (simp only: eq)
    have len: "length (num_digits q) = Suc (length (num_digits (q div 10)))" "q < 10 \<Longrightarrow> num_digits (q div 10) = []"
      using False by (simp_all add: num_digits_pos)
    have "dur_loop (num_digits q @ cs) (m, t, 10 ^ k, s) =
        (if k < 18 then dur_loop (num_digits (q div 10) @ cs) (m, t, 10 ^ Suc k, ?s) else None)"
      using digit_step [OF _ 1(2,3), of "q mod 10"] False by (simp add: num_digits_pos del: power_Suc)
    with IH len False show ?thesis by (auto simp del: power_Suc)
  qed simp
qed

lemma num_digits_length: "length (num_digits q) \<le> n \<longleftrightarrow> q < 10 ^ n"
proof (induction n arbitrary: q)
  case (Suc n)
  show ?case
  proof (cases "q = 0")
    case False
    with Suc.IH [of "q div 10"] show ?thesis by (simp add: num_digits_pos div_less_iff_less_mult mult.commute)
  qed simp
qed simp

text \<open>What is still to be added to a total, and when a state of the loop is one without overflow.\<close>

definition dur_value :: "nat \<times> int \<times> int \<times> int \<Rightarrow> int" where
  "dur_value st = (case st of (m, t, _, s) \<Rightarrow> t + s * duration_multi m)"

definition dur_ok :: "nat \<times> int \<times> int \<times> int \<Rightarrow> bool" where
  "dur_ok st \<longleftrightarrow> (case st of (m, t, _, s) \<Rightarrow> 0 \<le> t \<and> t < 2 ^ 63 \<and> 0 \<le> s)"

lemma dur_loop_number:
  "\<exists>tms. dur_loop (rev (ConvNumeric (int q)) @ cs) (m, t, 1, 0) =
    (if q < 10 ^ 18 then dur_loop cs (m, t, tms, int q) else None)"
proof (cases "q = 0")
  case True
  have "dur_loop (CHR ''0'' # cs) (m, t, 1, 0) = dur_loop cs (m, t, 10, 0)"
    by (simp add: isdigit_c_def long_of_def)
  with True show ?thesis by (auto simp: ConvNumeric_def simp del: dur_loop.simps)
next
  case False
  with dur_loop_digits [of 0 0 q cs m t] num_digits_length [of q 18] show ?thesis
    by (auto simp: ConvNumeric_def)
qed

lemma dur_finish_value: "dur_ok st \<Longrightarrow> dur_finish st = long_of (dur_value st)"
  by (cases st) (auto simp: dur_ok_def dur_finish_def dur_value_def dur_add_long duration_multi_def long_of_def
      split: bind_splits)

text \<open>One group of a duration, as it is written.\<close>

definition dur_group :: "nat \<times> char \<Rightarrow> string" where
  "dur_group p = ConvNumeric (int (fst p)) @ [snd p]"

definition dur_sum :: "(nat \<times> char) list \<Rightarrow> int" where
  "dur_sum gs = (\<Sum>p\<leftarrow>gs. int (fst p) * duration_multi (ord (snd p)))"

lemma dur_sum_simps [simp]:
  "dur_sum [] = 0" "dur_sum (g # gs) = int (fst g) * duration_multi (ord (snd g)) + dur_sum gs"
  "dur_sum (gs @ gs') = dur_sum gs + dur_sum gs'" "0 \<le> dur_sum gs" "dur_sum (rev gs) = dur_sum gs"
proof -
  have "0 \<le> int (fst p) * duration_multi (ord (snd p))" for p :: "nat \<times> char"
    using duration_multi_pos [of "ord (snd p)"] by simp
  then show "0 \<le> dur_sum gs" unfolding dur_sum_def by (intro sum_list_nonneg) auto
qed (simp_all add: dur_sum_def rev_map [symmetric] sum_list_rev)

lemma dur_unit:
  assumes "dur_ok st" "\<not> isdigit_c u"
  shows "dur_loop (u # cs) st =
    (if dur_value st < 2 ^ 63 then dur_loop cs (ord u, dur_value st, 1, 0) else None)"
proof -
  obtain m t tms s where st: "st = (m, t, tms, s)" by (cases st)
  have "0 \<le> s * duration_multi m" using assms(1) duration_multi_pos [of m] by (simp add: st dur_ok_def)
  with assms st dur_add_long [of t s m] show ?thesis
    by (auto simp: dur_ok_def dur_value_def long_of_def)
qed

lemma dur_loop_groups:
  assumes "dur_ok st" and "\<forall>p\<in>set gs. \<not> isdigit_c (snd p)"
  shows "Option.bind (dur_loop (concat (map (rev \<circ> dur_group) gs)) st) dur_finish =
    (if (\<forall>p\<in>set gs. fst p < 10 ^ 18) \<and> dur_value st + dur_sum gs < 2 ^ 63
     then Some (dur_value st + dur_sum gs) else None)"
  using assms
proof (induction gs arbitrary: st)
  case Nil
  have "0 \<le> dur_value st"
    using Nil(1) duration_multi_pos [of "fst st"] by (auto simp: dur_ok_def dur_value_def split: prod.splits)
  with Nil show ?case by (simp add: dur_finish_value long_of_def)
next
  case (Cons g gs)
  obtain q u where g: "g = (q, u)" by (cases g)
  let ?v = "dur_value st"
  have nonneg: "0 \<le> ?v" "0 \<le> int q * duration_multi (ord u)"
    using Cons.prems(1) duration_multi_pos [of "fst st"] duration_multi_pos [of "ord u"]
    by (auto simp: dur_ok_def dur_value_def split: prod.splits)
  obtain tms where num: "dur_loop (rev (ConvNumeric (int q)) @ concat (map (rev \<circ> dur_group) gs)) (ord u, ?v, 1, 0) =
      (if q < 10 ^ 18 then dur_loop (concat (map (rev \<circ> dur_group) gs)) (ord u, ?v, tms, int q) else None)"
    using dur_loop_number by blast
  have unit: "dur_loop (concat (map (rev \<circ> dur_group) (g # gs))) st =
      (if ?v < 2 ^ 63 then dur_loop (rev (ConvNumeric (int q)) @ concat (map (rev \<circ> dur_group) gs)) (ord u, ?v, 1, 0) else None)"
    using dur_unit [OF Cons.prems(1), of u] Cons.prems(2) by (simp add: g dur_group_def)
  have units: "\<forall>p\<in>set gs. \<not> isdigit_c (snd p)" using Cons.prems(2) by simp
  show ?case
  proof (cases "?v < 2 ^ 63 \<and> q < 10 ^ 18")
    case True
    with nonneg have ok: "dur_ok (ord u, ?v, tms, int q)" by (simp add: dur_ok_def)
    have val: "dur_value (ord u, ?v, tms, int q) = ?v + int q * duration_multi (ord u)" by (simp add: dur_value_def)
    have "dur_loop (concat (map (rev \<circ> dur_group) (g # gs))) st =
        dur_loop (concat (map (rev \<circ> dur_group) gs)) (ord u, ?v, tms, int q)"
      using True unit num by simp
    with Cons.IH [OF ok] True units show ?thesis
      by (simp only: g val dur_sum_simps fst_conv snd_conv add.assoc list.set ball_simps simp_thms)
  next
    case False
    have "?v \<le> ?v + dur_sum (g # gs)" using dur_sum_simps(4) [of "g # gs"] by linarith
    moreover have "dur_loop (concat (map (rev \<circ> dur_group) (g # gs))) st = None"
      using False unit num by (auto simp del: list.map concat.simps)
    moreover have "\<not> ((\<forall>p\<in>set (g # gs). fst p < 10 ^ 18) \<and> ?v + dur_sum (g # gs) < 2 ^ 63)"
      using False calculation(1) by (auto simp: g simp del: dur_sum_simps)
    ultimately show ?thesis by (simp only: if_False bind.bind_lzero)
  qed
qed

text \<open>Claim C17: a duration \<open>1y2w3d\<dots>\<close> is the sum of its groups, each number times the seconds of
  its unit, and a trailing number without a unit counts as seconds; that is so exactly as long as no
  number has more than eighteen digits and the sum fits a \<open>long\<close>, and otherwise a signed
  operation of the loop overflows.\<close>

theorem Duration_correct:
  assumes units: "\<forall>p\<in>set gs. \<not> isdigit_c (snd p)"
  shows "Duration (concat (map dur_group gs) @ ConvNumeric (int secs)) =
    (let total = (\<Sum>p\<leftarrow>gs. int (fst p) * duration_multi (ord (snd p))) + int secs
     in if (\<forall>p\<in>set gs. fst p < 10 ^ 18) \<and> secs < 10 ^ 18 \<and> total < 2 ^ 63 then Some total else None)"
proof -
  let ?cs = "concat (map (rev \<circ> dur_group) (rev gs))"
  have rev: "rev (concat (map dur_group gs)) = ?cs" by (simp add: rev_concat rev_map)
  obtain tms where num: "dur_loop (rev (ConvNumeric (int secs)) @ ?cs) (0, 0, 1, 0) =
      (if secs < 10 ^ 18 then dur_loop ?cs (0, 0, tms, int secs) else None)"
    using dur_loop_number by blast
  have "dur_ok (0, 0, tms, int secs)" "dur_value (0, 0, tms, int secs) = int secs"
    by (simp_all add: dur_ok_def dur_value_def duration_multi_def)
  with dur_loop_groups [of "(0, 0, tms, int secs)" "rev gs"] units num rev show ?thesis
    by (auto simp: Duration_def Let_def dur_sum_def [symmetric] algebra_simps)
qed

theorem Duration_correct_witness:
  "Duration (concat (map dur_group [(1, CHR ''y''), (2, CHR ''w'')]) @ ConvNumeric (int 5)) = Some 32745605 \<and>
   Duration (concat (map dur_group [(300000000000, CHR ''y'')]) @ ConvNumeric (int 0)) = None"
  using Duration_correct [of "[(1, CHR ''y''), (2, CHR ''w'')]" 5]
    Duration_correct [of "[(300000000000, CHR ''y'')]" 0]
  by (simp add: isdigit_c_def duration_multi_def)

end
