(* ===== verification/Hashcomp.thy ===== *)
theory Hashcomp
  imports Numeric
begin

text \<open>
  The text utilities of \<open>src/hashcomp.cpp\<close> and \<open>include/hashcomp.h\<close>: hexadecimal bytes,
  joining and splitting of separated lists, and the parser of port lists.
  The comparison \<open>StrCaseLess\<close> of the same files is in \<open>OrderedMap\<close>, the dynamic bit mask in
  \<open>BitMask\<close>. Iterators into a string are positions.
\<close>

section \<open>Hexadecimal bytes\<close>

text \<open>\<open>None\<close> is a write past the static buffer of \<open>MAXBUF\<close> bytes, the terminator included.\<close>

definition hex :: "nat \<Rightarrow> 8 word list \<Rightarrow> string option" where
  "hex maxbuf raw =
     (if raw = [] then Some []
      else if 2 * length raw \<ge> maxbuf then None
      else Some (concat (map (\<lambda>b. [hex_digit (unat b div 16), hex_digit (unat b mod 16)]) raw)))"

definition hex_lookup :: "int list" where
  "hex_lookup =
    [0, 1, 2, 3, 4, 5, 6, 7, 8, 9, -1, -1, -1, -1,
     -1, -1, -1, 10, 11, 12, 13, 14, 15, -1, -1, -1, -1, -1, -1, -1, -1,
     -1, -1, -1, -1, -1, -1, -1, -1, -1, -1, -1, -1, -1, -1, -1, -1, -1,
     -1, 10, 11, 12, 13, 14, 15]"

text \<open>\<open>None\<close> is \<open>return false\<close>, which leaves \<open>dest\<close> alone; \<open>Some\<close> is the byte stored in it.\<close>

definition unhexchar :: "char \<Rightarrow> char \<Rightarrow> char option" where
  "unhexchar a b =
     (if schar b < 48 \<or> schar b > 102 \<or> schar a < 48 \<or> schar a > 102 then None
      else Some (char_of (nat ((hex_lookup ! (ord a - 48) * 16 + hex_lookup ! (ord b - 48)) mod 256))))"

lemma less_16_cases: "(k :: nat) < 16 \<longleftrightarrow> k \<in> {0, 1, 2, 3, 4, 5, 6, 7, 8, 9, 10, 11, 12, 13, 14, 15}"
  unfolding insert_iff empty_iff by presburger

lemma hex_digit_lookup:
  assumes "d < 16"
  shows "48 \<le> ord (hex_digit d)" "ord (hex_digit d) \<le> 102" "hex_lookup ! (ord (hex_digit d) - 48) = int d"
proof -
  have "\<forall>d \<in> {0, 1, 2, 3, 4, 5, 6, 7, 8, 9, 10, 11, 12, 13, 14, 15}. 48 \<le> ord (hex_digit d) \<and>
      ord (hex_digit d) \<le> 102 \<and> hex_lookup ! (ord (hex_digit d) - 48) = int d"
    by (simp add: hex_digit_def hex_lookup_def)
  with assms show "48 \<le> ord (hex_digit d)" "ord (hex_digit d) \<le> 102"
    "hex_lookup ! (ord (hex_digit d) - 48) = int d"
    unfolding less_16_cases by blast+
qed

lemma unhexchar_digits:
  assumes "h < 16" and "l < 16"
  shows "unhexchar (hex_digit h) (hex_digit l) = Some (char_of (h * 16 + l))"
proof -
  note h = hex_digit_lookup [OF assms(1)] and l = hex_digit_lookup [OF assms(2)]
  have "nat ((int h * 16 + int l) mod 256) = h * 16 + l" using assms by (simp add: nat_eq_iff)
  with h l show ?thesis by (simp add: unhexchar_def schar_def)
qed

text \<open>Claim C13: decoding inverts encoding. What \<open>hex\<close> prints for a byte is two characters,
  and \<open>unhexchar\<close> turns these two into the byte again.\<close>

theorem hex_unhexchar:
  assumes "2 < maxbuf"
  shows "\<exists>h l. hex maxbuf [b] = Some [h, l] \<and> unhexchar h l = Some (char_of (unat b))"
proof -
  have "unat b < 256" using unsigned_less [of b] by simp
  then have "unat b div 16 < 16" "unat b mod 16 < 16" by auto
  from unhexchar_digits [OF this] show ?thesis using assms by (simp add: hex_def)
qed

theorem hex_unhexchar_witness:
  "\<exists>h l. hex 514 [0x2F :: 8 word] = Some [h, l] \<and> unhexchar h l = Some (char_of (unat (0x2F :: 8 word)))"
  by (rule hex_unhexchar) simp

text \<open>Characters that are no hexadecimal digits but lie between them in the table are
  accepted: \<open>%:0\<close> decodes to the byte 240 although the lookup says \<open>-1\<close>.\<close>

theorem unhexchar_accepts_invalid: "unhexchar (CHR '':'') (CHR ''0'') = Some (char_of (240 :: nat))"
  by (simp add: unhexchar_def schar_def hex_lookup_def)

section \<open>Joining\<close>

text \<open>\<open>None\<close> is an element read past the end of the sequence.\<close>

definition stringjoiner :: "string \<Rightarrow> string list \<Rightarrow> nat \<Rightarrow> nat \<Rightarrow> string option" where
  "stringjoiner seperator sequence from_i to_i =
     (if to_i \<ge> length sequence then None
      else Some (concat (map (\<lambda>v. sequence ! v @ seperator) [from_i ..< to_i]) @ sequence ! to_i))"

fun join_sep :: "char \<Rightarrow> string list \<Rightarrow> string" where
  "join_sep sp [] = []"
| "join_sep sp [t] = t"
| "join_sep sp (t # ts) = t @ sp # join_sep sp ts"

lemma join_sep_Cons: "join_sep sp (t # ts) = t @ (if ts = [] then [] else sp # join_sep sp ts)"
  by (cases ts) auto

lemma join_sep_snoc:
  "ts \<noteq> [] \<Longrightarrow> join_sep sp (ts @ [t]) = join_sep sp ts @ sp # t"
  by (induction ts) (auto simp: join_sep_Cons)

lemma stringjoiner_join:
  assumes "ts \<noteq> []"
  shows "stringjoiner [sp] ts 0 (length ts - 1) = Some (join_sep sp ts)"
proof -
  have "concat (map (\<lambda>v. ts ! v @ [sp]) [0 ..< n]) @ ts ! n = join_sep sp (take (Suc n) ts)"
    if "n < length ts" for n
    using that
  proof (induction n)
    case (Suc n)
    then have "take (Suc n) ts \<noteq> []" by auto
    with Suc show ?case
      by (simp add: take_Suc_conv_app_nth [of "Suc n"] join_sep_snoc flip: append_assoc)
  qed (cases ts; simp)
  from this [of "length ts - 1"] assms show ?thesis by (cases ts) (auto simp: stringjoiner_def)
qed

section \<open>Splitting\<close>

record sepstream =
  ss_tokens :: string
  last_starting_position :: nat
  ss_n :: nat
  ss_sep :: char

definition sepstream_new :: "string \<Rightarrow> char \<Rightarrow> sepstream" where
  "sepstream_new source seperator =
     \<lparr>ss_tokens = source, last_starting_position = 0, ss_n = 0, ss_sep = seperator\<rparr>"

text \<open>The search of the \<open>while\<close> loop: the next separator or the last character.\<close>

function sep_scan :: "char \<Rightarrow> string \<Rightarrow> nat \<Rightarrow> nat" where
  "sep_scan sp s i =
     (if i < length s \<and> \<not> (s ! i = sp \<or> i + 1 = length s) then sep_scan sp s (i + 1) else i)"
  by pat_completeness auto
termination by (relation "measure (\<lambda>(sp, s, i). length s - i)") auto

declare sep_scan.simps [simp del]

definition slice :: "string \<Rightarrow> nat \<Rightarrow> nat \<Rightarrow> string" where
  "slice s a b = take (b - a) (drop a s)"

definition strip_seps :: "char \<Rightarrow> string \<Rightarrow> string" where
  "strip_seps sp t = rev (dropWhile (\<lambda>c. c = sp) (rev t))"

definition sep_GetToken :: "sepstream \<Rightarrow> (bool \<times> string) \<times> sepstream" where
  "sep_GetToken ss =
     (let s = ss_tokens ss; lsp = last_starting_position ss;
          i = sep_scan (ss_sep ss) s (ss_n ss) in
      if i < length s then
        let tok = strip_seps (ss_sep ss) (slice s lsp (if i + 1 = length s then i + 1 else i));
            n1 = (if i + 1 = length s then i else i + 1);
            n2 = (if tok = [] then n1 + 1 else n1)
        in ((n2 \<noteq> length s, tok), ss\<lparr>last_starting_position := i + 1, ss_n := n2\<rparr>)
      else ((False, []), ss\<lparr>ss_n := i\<rparr>))"

definition sep_GetRemaining :: "sepstream \<Rightarrow> string" where
  "sep_GetRemaining ss = drop (ss_n ss) (ss_tokens ss)"

definition sep_StreamEnd :: "sepstream \<Rightarrow> bool" where
  "sep_StreamEnd ss \<longleftrightarrow> ss_n ss + 1 = length (ss_tokens ss)"

lemma sep_scan_bounds: "i \<le> sep_scan sp s i \<and> (i < length s \<longrightarrow> sep_scan sp s i < length s)"
proof (induction sp s i rule: sep_scan.induct)
  case (1 sp s i)
  then show ?case by (subst (1 2) sep_scan.simps) auto
qed

lemma sep_scan_hit:
  assumes "sp \<notin> set t" and "c = sp \<or> r = []"
  shows "sep_scan sp (p @ t @ c # r) (length p) = length p + length t"
  using assms
proof (induction t arbitrary: p)
  case Nil
  then show ?case by (subst sep_scan.simps) auto
next
  case (Cons x t)
  then have "sep_scan sp ((p @ [x]) @ t @ c # r) (length (p @ [x])) = length (p @ [x]) + length t"
    by (intro Cons.IH) auto
  with Cons show ?case by (subst sep_scan.simps) (auto simp: nth_append)
qed

lemma sep_scan_end: "length s \<le> i + 1 \<Longrightarrow> sep_scan sp s i = i"
  by (subst sep_scan.simps) auto

lemma strip_seps_none [simp]: "sp \<notin> set t \<Longrightarrow> strip_seps sp t = t"
  unfolding strip_seps_def by (cases t rule: rev_cases) auto

lemma slice_middle [simp]: "slice (p @ t @ r) (length p) (length p + length t) = t"
  by (simp add: slice_def)

text \<open>
  The stream stands before the tokens \<open>ts\<close>: either they are what remains of the source, or
  they are none and only the last character is left to look at again.
\<close>

definition sep_rest :: "sepstream \<Rightarrow> string list \<Rightarrow> bool" where
  "sep_rest ss ts \<longleftrightarrow>
     (if ts = [] then last_starting_position ss = length (ss_tokens ss) \<and>
        ss_n ss \<le> length (ss_tokens ss) \<and> length (ss_tokens ss) \<le> ss_n ss + 1
      else \<exists>p. ss_tokens ss = p @ join_sep (ss_sep ss) ts \<and>
        last_starting_position ss = length p \<and> ss_n ss = length p)"

definition plain_token :: "char \<Rightarrow> string \<Rightarrow> bool" where
  "plain_token sp t \<longleftrightarrow> t \<noteq> [] \<and> sp \<notin> set t"

lemma sep_rest_new: "sep_rest (sepstream_new (join_sep sp ts) sp) ts"
  by (auto simp: sep_rest_def sepstream_new_def)

lemma sep_new_sep [simp]: "ss_sep (sepstream_new s sp) = sp"
  by (simp add: sepstream_new_def)

lemma sep_GetToken_sep: "sep_GetToken ss = (r, ss') \<Longrightarrow> ss_sep ss' = ss_sep ss"
  by (auto simp: sep_GetToken_def Let_def split: if_splits)

lemma sep_GetToken_Nil:
  assumes "sep_rest ss []"
  shows "\<exists>ss'. sep_GetToken ss = ((False, []), ss') \<and> sep_rest ss' []"
  using assms
  by (auto simp: sep_rest_def sep_GetToken_def Let_def sep_scan_end slice_def strip_seps_def)

lemma sep_GetToken_Cons:
  assumes rest: "sep_rest ss (t # ts)" and t: "plain_token (ss_sep ss) t"
    and ts: "\<forall>u\<in>set ts. plain_token (ss_sep ss) u"
  shows "\<exists>ss'. sep_GetToken ss = ((True, t), ss') \<and> sep_rest ss' ts"
proof -
  let ?sp = "ss_sep ss"
  from rest obtain p where s: "ss_tokens ss = p @ join_sep ?sp (t # ts)"
    and pos: "last_starting_position ss = length p" "ss_n ss = length p"
    by (auto simp: sep_rest_def)
  show ?thesis
  proof (cases "ts = []")
    case True
    obtain t' c where tc: "t = t' @ [c]" using t by (cases t rule: rev_cases) (auto simp: plain_token_def)
    have scan: "sep_scan ?sp (ss_tokens ss) (length p) = length p + length t'"
      using sep_scan_hit [of ?sp t' c "[]" p] t s True tc by (simp add: plain_token_def)
    show ?thesis using t True tc s pos scan
      by (auto simp: sep_GetToken_def Let_def slice_def plain_token_def sep_rest_def)
  next
    case False
    then obtain u us where us: "ts = u # us" by (cases ts) auto
    have ne: "join_sep ?sp ts \<noteq> []" using ts us by (auto simp: join_sep_Cons plain_token_def)
    have s': "ss_tokens ss = p @ t @ ?sp # join_sep ?sp ts" using s False by (simp add: join_sep_Cons)
    have scan: "sep_scan ?sp (ss_tokens ss) (length p) = length p + length t"
      using sep_scan_hit [of ?sp t ?sp "join_sep ?sp ts" p] t s' by (simp add: plain_token_def)
    have "sep_GetToken ss = ((True, t), ss\<lparr>last_starting_position := length p + length t + 1,
        ss_n := length p + length t + 1\<rparr>)"
      using t s' pos scan ne by (auto simp: sep_GetToken_def Let_def slice_def plain_token_def)
    moreover have "sep_rest (ss\<lparr>last_starting_position := length p + length t + 1,
        ss_n := length p + length t + 1\<rparr>) ts"
      using s' False by (auto simp: sep_rest_def intro!: exI [of _ "p @ t @ [?sp]"])
    ultimately show ?thesis by blast
  qed
qed

text \<open>Every successful call makes progress, so a reader that takes tokens until \<open>false\<close> stops.\<close>

definition sep_measure :: "sepstream \<Rightarrow> nat" where
  "sep_measure ss =
     2 * (length (ss_tokens ss) - ss_n ss) +
     (if last_starting_position ss < length (ss_tokens ss) then 1 else 0)"

lemma sep_GetToken_progress:
  assumes "sep_GetToken ss = ((True, t), ss')"
  shows "sep_measure ss' < sep_measure ss"
proof -
  let ?s = "ss_tokens ss" and ?i = "sep_scan (ss_sep ss) (ss_tokens ss) (ss_n ss)"
  have i: "ss_n ss \<le> ?i" using sep_scan_bounds by blast
  from assms have lt: "?i < length ?s" by (auto simp: sep_GetToken_def Let_def split: if_splits)
  show ?thesis
  proof (cases "?i + 1 = length ?s")
    case True
    with assms have "strip_seps (ss_sep ss) (slice ?s (last_starting_position ss) (?i + 1)) \<noteq> []"
      by (auto simp: sep_GetToken_def Let_def split: if_splits)
    then have "last_starting_position ss < length ?s"
      using True by (auto simp: slice_def strip_seps_def intro: ccontr)
    with True assms i lt show ?thesis
      by (auto simp: sep_GetToken_def Let_def sep_measure_def split: if_splits)
  next
    case False
    with assms i lt show ?thesis
      by (auto simp: sep_GetToken_def Let_def sep_measure_def split: if_splits)
  qed
qed

function sep_tokens :: "sepstream \<Rightarrow> string list" where
  "sep_tokens ss =
     (case sep_GetToken ss of ((got, t), ss') \<Rightarrow> if got then t # sep_tokens ss' else [])"
  by pat_completeness auto
termination
  by (relation "measure sep_measure") (auto intro: sep_GetToken_progress [OF sym])

declare sep_tokens.simps [simp del]

lemma sep_tokens_rest:
  "sep_rest ss ts \<Longrightarrow> \<forall>t\<in>set ts. plain_token (ss_sep ss) t \<Longrightarrow> sep_tokens ss = ts"
proof (induction ts arbitrary: ss)
  case Nil
  then show ?case using sep_GetToken_Nil [of ss] by (subst sep_tokens.simps) auto
next
  case (Cons t ts)
  then obtain ss' where g: "sep_GetToken ss = ((True, t), ss')" and r: "sep_rest ss' ts"
    using sep_GetToken_Cons [of ss t ts] by auto
  have "sep_tokens ss' = ts" using Cons r sep_GetToken_sep [OF g] by auto
  with g show ?case by (subst sep_tokens.simps) simp
qed

text \<open>Claim C14: splitting inverts joining. Non-empty tokens without the separator, joined by
  \<open>stringjoiner\<close>, come back from a \<open>sepstream\<close> one by one, in order, and then the stream ends.\<close>

theorem sepstream_stringjoiner:
  assumes "ts \<noteq> []" and "\<forall>t\<in>set ts. t \<noteq> [] \<and> sp \<notin> set t"
    and "stringjoiner [sp] ts 0 (length ts - 1) = Some joined"
  shows "sep_tokens (sepstream_new joined sp) = ts"
proof -
  have "joined = join_sep sp ts" using assms(3) stringjoiner_join [OF assms(1), of sp] by simp
  then show ?thesis
    using assms(2) sep_tokens_rest [OF sep_rest_new [of sp ts]] by (simp add: plain_token_def)
qed

theorem sepstream_stringjoiner_witness:
  "sep_tokens (sepstream_new ''80,443'' (CHR '','')) = [''80'', ''443'']"
  by (rule sepstream_stringjoiner) (simp_all add: stringjoiner_def)

text \<open>An empty token makes the stream skip the character after it: of \<open>a,,b\<close> the token
  \<open>b\<close> is never delivered.\<close>

theorem sepstream_drops_token:
  "sep_tokens (sepstream_new ''a,,b'' (CHR '','')) = [''a'']"
  by (simp add: sep_tokens.simps sepstream_new_def sep_GetToken_def Let_def sep_scan.simps
      slice_def strip_seps_def)

end
