(* ===== verification/PortParser.thy ===== *)
theory PortParser
  imports Hashcomp
begin

text \<open>
  \<open>utils::portparser\<close> (\<open>src/hashcomp.cpp\<close>): the ports of a list such as
  \<open>6660,6661,6662-6669\<close>, one per call of \<open>GetToken\<close>, 0 at the end.
\<close>

record portparser =
  pp_sep :: sepstream
  in_range :: int
  range_begin :: int
  range_end :: int
  overlapped :: bool
  overlap_set :: "int list"

definition portparser_new :: "string \<Rightarrow> bool \<Rightarrow> portparser" where
  "portparser_new source allow_overlapped =
     \<lparr>pp_sep = sepstream_new source (CHR '',''), in_range = 0, range_begin = 0, range_end = 0,
      overlapped = allow_overlapped, overlap_set = []\<rparr>"

definition Overlaps :: "int \<Rightarrow> portparser \<Rightarrow> bool \<times> portparser" where
  "Overlaps val pp =
     (if \<not> overlapped pp then (False, pp)
      else if val \<notin> set (overlap_set pp) then (False, pp\<lparr>overlap_set := val # overlap_set pp\<rparr>)
      else (True, pp))"

lemma Overlaps_frame:
  "Overlaps v pp = (b, pp') \<Longrightarrow> pp_sep pp' = pp_sep pp \<and> in_range pp' = in_range pp \<and>
     range_begin pp' = range_begin pp \<and> range_end pp' = range_end pp \<and> overlapped pp' = overlapped pp"
  by (auto simp: Overlaps_def split: if_splits)

lemma Overlaps_off [simp]: "\<not> overlapped pp \<Longrightarrow> Overlaps v pp = (False, pp)"
  by (simp add: Overlaps_def)

text \<open>\<open>while (Overlaps(in_range) && in_range <= range_end) in_range++;\<close>\<close>

function pp_skip_range :: "portparser \<Rightarrow> portparser" where
  "pp_skip_range pp =
     (case Overlaps (in_range pp) pp of (ov, pp') \<Rightarrow>
        if ov \<and> in_range pp' \<le> range_end pp' then pp_skip_range (pp'\<lparr>in_range := in_range pp' + 1\<rparr>)
        else pp')"
  by pat_completeness auto
termination
  by (relation "measure (\<lambda>pp. nat (range_end pp + 1 - in_range pp))")
    (auto dest!: Overlaps_frame [OF sym])

declare pp_skip_range.simps [simp del]

text \<open>\<open>while (Overlaps(atoi(x))) if (!sep->GetToken(x)) return 0;\<close> with \<open>None\<close> for the return.\<close>

function pp_skip_tokens :: "string \<Rightarrow> portparser \<Rightarrow> string option \<times> portparser" where
  "pp_skip_tokens x pp =
     (case Overlaps (atoi x) pp of (ov, pp1) \<Rightarrow>
        if ov then
          (case sep_GetToken (pp_sep pp1) of ((got, x'), ss) \<Rightarrow>
             if got then pp_skip_tokens x' (pp1\<lparr>pp_sep := ss\<rparr>) else (None, pp1\<lparr>pp_sep := ss\<rparr>))
        else (Some x, pp1))"
  by pat_completeness auto
termination
  by (relation "measure (\<lambda>(x, pp). sep_measure (pp_sep pp))")
    (auto dest!: Overlaps_frame [OF sym] intro: sep_GetToken_progress [OF sym])

declare pp_skip_tokens.simps [simp del]

text \<open>The part of \<open>GetToken\<close> that starts on the next item of the list.\<close>

definition pp_item :: "portparser \<Rightarrow> int \<times> portparser" where
  "pp_item pp0 =
     (case sep_GetToken (pp_sep pp0) of ((_, x0), ss0) \<Rightarrow>
        let pp = pp0\<lparr>pp_sep := ss0\<rparr> in
        if x0 = [] then (0, pp)
        else
          (case pp_skip_tokens x0 pp of
             (None, pp) \<Rightarrow> (0, pp)
           | (Some x, pp) \<Rightarrow>
               (case rfind_char (CHR ''-'') x of
                  Some dash \<Rightarrow>
                    let sbegin = take dash x; send = drop (dash + 1) x;
                        rb = atoi sbegin; re = atoi send;
                        pp = pp\<lparr>range_begin := rb, range_end := re\<rparr> in
                    if rb > 0 \<and> re > 0 \<and> rb < 65536 \<and> re < 65536 \<and> rb < re
                    then (rb, pp\<lparr>in_range := rb\<rparr>)
                    else (atoi sbegin, pp)
                | None \<Rightarrow> (atoi x, pp))))"

definition pp_GetToken :: "portparser \<Rightarrow> int \<times> portparser" where
  "pp_GetToken pp0 =
     (if in_range pp0 > 0 then
        let pp = pp0\<lparr>in_range := in_range pp0 + 1\<rparr> in
        if in_range pp \<le> range_end pp then
          (case Overlaps (in_range pp) pp of (ov, pp) \<Rightarrow>
             if \<not> ov then (in_range pp, pp)
             else
               let pp = pp_skip_range pp in
               if in_range pp \<le> range_end pp then (in_range pp, pp) else pp_item pp)
        else pp_item (pp\<lparr>in_range := 0\<rparr>)
      else pp_item pp0)"

text \<open>The caller's loop \<open>while ((portno = portrange.GetToken()))\<close>, cut off after \<open>k\<close> calls.\<close>

fun pp_ports :: "nat \<Rightarrow> portparser \<Rightarrow> int list" where
  "pp_ports 0 pp = []"
| "pp_ports (Suc k) pp =
     (case pp_GetToken pp of (p, pp') \<Rightarrow> if p = 0 then [] else p # pp_ports k pp')"

section \<open>What a port list means\<close>

datatype port_item = Port nat | Ports nat nat

fun item_text :: "port_item \<Rightarrow> string" where
  "item_text (Port p) = ConvNumeric (int p)"
| "item_text (Ports a b) = ConvNumeric (int a) @ CHR ''-'' # ConvNumeric (int b)"

fun item_ports :: "port_item \<Rightarrow> int list" where
  "item_ports (Port p) = [int p]"
| "item_ports (Ports a b) = [int a .. int b]"

fun item_ok :: "port_item \<Rightarrow> bool" where
  "item_ok (Port p) \<longleftrightarrow> 0 < p \<and> p < 65536"
| "item_ok (Ports a b) \<longleftrightarrow> 0 < a \<and> a < b \<and> b < 65536"

lemma ConvNumeric_nat: "0 < p \<Longrightarrow> ConvNumeric (int p) = rev (num_digits p)"
  by (simp add: ConvNumeric_def)

lemma atoi_nat: "p < 65536 \<Longrightarrow> atoi (ConvNumeric (int p)) = int p"
  using atoi_ConvNumeric [of "int p" "[]"] by simp

lemma ConvNumeric_digits: "c \<in> set (ConvNumeric (int p)) \<Longrightarrow> isdigit_c c"
  by (cases "p = 0") (auto simp: ConvNumeric_def isdigit_c_def dest!: num_digits_isdigit)

lemma ConvNumeric_notin [simp]:
  "CHR ''-'' \<notin> set (ConvNumeric (int p))" "CHR '','' \<notin> set (ConvNumeric (int p))"
  by (auto dest!: ConvNumeric_digits simp: isdigit_c_def)

lemma ConvNumeric_ne [simp]: "ConvNumeric i \<noteq> []"
  by (auto simp: ConvNumeric_def)

lemma item_plain: "plain_token (CHR '','') (item_text it)"
  by (cases it) (auto simp: plain_token_def)

lemma rfind_dash [simp]:
  "rfind_char (CHR ''-'') (ConvNumeric (int a) @ CHR ''-'' # ConvNumeric (int b)) =
   Some (length (ConvNumeric (int a)))"
  by (rule rfind_char_append) simp

text \<open>The state of a parser with overlap checks off, and what it still has to deliver.\<close>

definition pp_inv :: "portparser \<Rightarrow> port_item list \<Rightarrow> bool" where
  "pp_inv pp its \<longleftrightarrow> \<not> overlapped pp \<and> ss_sep (pp_sep pp) = CHR '','' \<and>
     sep_rest (pp_sep pp) (map item_text its) \<and> (\<forall>it\<in>set its. item_ok it) \<and>
     (in_range pp = 0 \<or> (0 < in_range pp \<and> in_range pp \<le> range_end pp))"

definition pp_expected :: "portparser \<Rightarrow> port_item list \<Rightarrow> int list" where
  "pp_expected pp its =
     (if in_range pp > 0 then [in_range pp + 1 .. range_end pp] else []) @ concat (map item_ports its)"

lemma pp_skip_tokens_off [simp]: "\<not> overlapped pp \<Longrightarrow> pp_skip_tokens x pp = (Some x, pp)"
  by (subst pp_skip_tokens.simps) simp

lemma pp_item_Nil:
  assumes "pp_inv pp []"
  shows "fst (pp_item pp) = 0"
  using assms sep_GetToken_Nil [of "pp_sep pp"] by (auto simp: pp_inv_def pp_item_def Let_def)

lemma pp_item_Cons:
  assumes inv: "pp_inv pp (it # its)" and idle: "in_range pp = 0"
  shows "\<exists>pp'. pp_item pp = (hd (item_ports it), pp') \<and> pp_inv pp' its \<and>
    pp_expected pp' its = tl (item_ports it) @ concat (map item_ports its)"
proof -
  from inv item_plain sep_GetToken_Cons [of "pp_sep pp" "item_text it" "map item_text its"]
  obtain ss where tok: "sep_GetToken (pp_sep pp) = ((True, item_text it), ss)"
    and rest: "sep_rest ss (map item_text its)"
    by (auto simp: pp_inv_def)
  note sep = sep_GetToken_sep [OF tok]
  show ?thesis
  proof (cases it)
    case (Port p)
    with inv have "p < 65536" by (simp add: pp_inv_def)
    with Port tok rest sep inv idle show ?thesis
      by (simp add: pp_item_def pp_inv_def pp_expected_def atoi_nat)
  next
    case (Ports a b)
    with inv have ab: "0 < a" "a < b" "b < 65536" by (auto simp: pp_inv_def)
    then have "[int a .. int b] = int a # [int a + 1 .. int b]" by (simp add: upto_rec1)
    with ab Ports tok rest sep inv show ?thesis
      by (simp add: pp_item_def pp_inv_def pp_expected_def atoi_nat Let_def)
  qed
qed

lemma item_ports_cases: "item_ok it \<Longrightarrow> item_ports it = hd (item_ports it) # tl (item_ports it) \<and> hd (item_ports it) \<noteq> 0"
  by (cases it) (auto simp: upto_rec1)

lemma pp_next_item:
  assumes inv: "pp_inv pp its" and idle: "in_range pp = 0"
  shows "case concat (map item_ports its) of [] \<Rightarrow> fst (pp_item pp) = 0
    | p # ps \<Rightarrow> p \<noteq> 0 \<and> (\<exists>pp' its'. pp_item pp = (p, pp') \<and> pp_inv pp' its' \<and> pp_expected pp' its' = ps)"
proof (cases its)
  case Nil
  with inv pp_item_Nil show ?thesis by simp
next
  case (Cons it its')
  then have it: "item_ports it = hd (item_ports it) # tl (item_ports it)" "hd (item_ports it) \<noteq> 0"
    using inv item_ports_cases [of it] by (auto simp: pp_inv_def)
  then have "concat (map item_ports its) = hd (item_ports it) # tl (item_ports it) @ concat (map item_ports its')"
    using Cons by (metis append_Cons concat.simps(2) list.simps(9))
  with it(2) pp_item_Cons [OF inv [unfolded Cons] idle] show ?thesis by auto
qed

lemma pp_GetToken_step:
  assumes inv: "pp_inv pp its"
  shows "case pp_expected pp its of [] \<Rightarrow> fst (pp_GetToken pp) = 0
    | p # ps \<Rightarrow> p \<noteq> 0 \<and> (\<exists>pp' its'. pp_GetToken pp = (p, pp') \<and> pp_inv pp' its' \<and> pp_expected pp' its' = ps)"
proof (cases "in_range pp = 0")
  case True
  then have "pp_GetToken pp = pp_item pp" and "pp_expected pp its = concat (map item_ports its)"
    by (simp_all add: pp_GetToken_def pp_expected_def)
  with pp_next_item [OF inv True] show ?thesis by (simp only:)
next
  case pos: False
  then have r: "0 < in_range pp" "in_range pp \<le> range_end pp" using inv by (auto simp: pp_inv_def)
  show ?thesis
  proof (cases "in_range pp + 1 \<le> range_end pp")
    case True
    then have "[in_range pp + 1 .. range_end pp] = (in_range pp + 1) # [in_range pp + 1 + 1 .. range_end pp]"
      by (rule upto_rec1)
    with True r inv show ?thesis
      by (simp add: pp_GetToken_def pp_expected_def pp_inv_def) (rule exI [of _ its], simp)
  next
    case False
    let ?pp = "pp\<lparr>in_range := 0\<rparr>"
    have "pp_GetToken pp = pp_item ?pp" and "pp_expected pp its = concat (map item_ports its)"
      using False r by (simp_all add: pp_GetToken_def pp_expected_def)
    moreover have "pp_inv ?pp its" using inv by (simp add: pp_inv_def)
    moreover have "in_range ?pp = 0" by simp
    ultimately show ?thesis using pp_next_item [of ?pp its] by (simp only:)
  qed
qed

lemma pp_ports_expected: "pp_inv pp its \<Longrightarrow> pp_ports k pp = take k (pp_expected pp its)"
proof (induction k arbitrary: pp its)
  case (Suc k)
  from pp_GetToken_step [OF Suc.prems] Suc.IH show ?case
    by (cases "pp_expected pp its"; cases "pp_GetToken pp") auto
qed simp



end
