(* ===== verification/Kernel.thy ===== *)
theory Kernel
  imports Prelude
begin

text \<open>
  The system calls the sources make. The kernel is not part of the program, so its answers come
  from an oracle, a function of everything that was asked before; a run of the model records every
  call with its answer in \<open>trace\<close>, and \<open>errno\<close> holds the code of the last call that failed.
  The state \<open>io\<close> also has the socket engine's tables (\<open>include/socketengine.h\<close> and the
  \<open>private\<close> members of the engines); the server's state extends this record.
\<close>

datatype errcode = E_NONE | EAGAIN | EINTR | EACCES | ENOENT | ELOOP | ENAMETOOLONG | ENOTDIR | E_OTHER nat

text \<open>The kind of file in \<open>st_mode\<close>.\<close>

datatype st_kind = S_DIR | S_REG | S_LNK | S_BLK | S_CHR | S_SOCK | S_FIFO

record stat =
  st_kind :: st_kind
  st_size :: int
  st_uid :: int

datatype ctl_op = CTL_ADD | CTL_MOD | CTL_DEL
datatype interest = WANT_IN | WANT_OUT

text \<open>\<open>Sys_send_map sock file off len\<close> is a \<open>send\<close> from a mapping of a whole file.\<close>

datatype syscall =
    Sys_read int nat
  | Sys_send int string
  | Sys_mmap int int
  | Sys_munmap int
  | Sys_send_map int int int int
  | Sys_open string bool
  | Sys_close int
  | Sys_shutdown int int
  | Sys_stat string
  | Sys_lstat string
  | Sys_geteuid
  | Sys_accept int
  | Sys_getsockname int
  | Sys_getfl int
  | Sys_setfl_nonblock int int
  | Sys_so_error int
  | Sys_create_engine
  | Sys_epoll_ctl ctl_op int interest
  | Sys_epoll_wait nat
  | Sys_kevent_add int interest bool
  | Sys_kevent_delete int interest
  | Sys_kevent_wait nat
  | Sys_port_associate int interest
  | Sys_port_dissociate int
  | Sys_port_getn nat
  | Sys_select "int list" "int list" "int list"
  | Sys_pipe
  | Sys_fork
  | Sys_socket bool
  | Sys_setsockopt int string
  | Sys_bind int string int
  | Sys_listen int int
  | Sys_time
  | Sys_write_file string string
  | Sys_write int string
  | Sys_unload string
  | Sys_execv string
  | Sys_exit int
  | Sys_getcwd
  | Sys_chdir string
  | Sys_fopen string string
  | Sys_fclose string
  | Sys_readfile string
  | Sys_getpid
  | Sys_fprintf string
  | Sys_fflush
  | Sys_setfl_block int int
  | Sys_signal int string
  | Sys_kill int int
  | Sys_getppid
  | Sys_setsid
  | Sys_umask int
  | Sys_getrlimit
  | Sys_setrlimit
  | Sys_isatty int
  | Sys_sleep int
  | Sys_chroot string
  | Sys_getpwnam string
  | Sys_getgrnam string
  | Sys_setuid int
  | Sys_setgid int

text \<open>One event that a wait returns: \<open>EPOLLHUP\<close>, \<open>EPOLLERR\<close>, \<open>EPOLLOUT\<close> of \<open>epoll\<close>,
  \<open>EV_EOF\<close> and the 16 bits of \<open>flags\<close> of \<open>kqueue\<close>, \<open>POLLRDNORM\<close> of event ports and
  whether the port event comes from a descriptor.\<close>

record io_event =
  ev_fd :: int
  ev_hup :: bool
  ev_err :: bool
  ev_out :: bool
  ev_in :: bool
  ev_source_fd :: bool
  ev_flags :: "16 word"
  ev_code :: errcode

record reply =
  r_ret :: int
  r_errno :: errcode
  r_data :: string
  r_stat :: stat
  r_pair :: "int \<times> int"
  r_events :: "io_event list"
  r_sets :: "int list \<times> int list \<times> int list"

text \<open>The objects an event is delivered to, by the address they are allocated at.\<close>

datatype handler = H_Conn nat | H_Listen nat | H_Cgi nat | H_Log

datatype engine_kind = EPollEngine | KQueueEngine | PortsEngine | SelectEngine

record engine =
  engine_kind :: engine_kind
  MAX_DESCRIPTORS :: int
  FD_SETSIZE :: int
  ref :: "int \<Rightarrow> handler option"
  CurrentSetSize :: int
  sel_fds :: "(int \<times> int) list"
  sel_writeable :: "int \<Rightarrow> bool"

record io =
  world :: "(syscall \<times> reply) list \<Rightarrow> syscall \<Rightarrow> reply"
  trace :: "(syscall \<times> reply) list"
  errno :: errcode
  SE :: engine

definition syscall :: "syscall \<Rightarrow> 'a io_scheme \<Rightarrow> reply \<times> 'a io_scheme" where
  "syscall c s =
     (let r = world s (trace s) c in
      (r, s\<lparr>trace := trace s @ [(c, r)], errno := (if r_ret r < 0 then r_errno r else errno s)\<rparr>))"

text \<open>What calls to the kernel and to the socket engine leave alone: the rest of the state.\<close>

definition io_frame :: "'a io_scheme \<Rightarrow> 'a io_scheme \<Rightarrow> bool" where
  "io_frame s s' \<longleftrightarrow> world s' = world s \<and> io.more s' = io.more s"

lemma io_frame_refl [simp, intro]: "io_frame s s"
  by (simp add: io_frame_def)

lemma io_frame_trans [trans]: "io_frame s s' \<Longrightarrow> io_frame s' s'' \<Longrightarrow> io_frame s s''"
  by (simp add: io_frame_def)

lemma io_frame_updates [simp, intro]:
  "io_frame s (s\<lparr>SE := g\<rparr>)" "io_frame s (s\<lparr>errno := e\<rparr>)" "io_frame s (s\<lparr>trace := t\<rparr>)"
  by (simp_all add: io_frame_def)

lemma io_frame_world: "io_frame s s' \<Longrightarrow> world s' = world s"
  by (simp add: io_frame_def)

lemma io_frame_shape: "io_frame s s' \<Longrightarrow> s' = s\<lparr>trace := trace s', errno := errno s', SE := SE s'\<rparr>"
  by (simp add: io_frame_def)

lemma syscall_frame [intro]: "syscall c s = (r, s') \<Longrightarrow> io_frame s s'"
  by (auto simp: io_frame_def syscall_def Let_def)

lemma syscall_SE [simp]: "SE (snd (syscall c s)) = SE s"
  by (simp add: syscall_def Let_def)

lemma syscall_SE': "syscall c s = (r, s') \<Longrightarrow> SE s' = SE s"
  by (metis snd_conv syscall_SE)

lemma syscall_trace: "syscall c s = (r, s') \<Longrightarrow> trace s' = trace s @ [(c, r)]"
  by (auto simp: syscall_def Let_def)

lemma syscall_reply: "syscall c s = (r, s') \<Longrightarrow> r = world s (trace s) c"
  by (auto simp: syscall_def Let_def)

section \<open>What the program relies on the kernel for\<close>

text \<open>\<open>read\<close>, \<open>send\<close>: the result is \<open>-1\<close> or a count within the bounds of the request.\<close>

definition kernel_ok :: "((syscall \<times> reply) list \<Rightarrow> syscall \<Rightarrow> reply) \<Rightarrow> bool" where
  "kernel_ok orc \<longleftrightarrow>
     (\<forall>tr fd dat. - 1 \<le> r_ret (orc tr (Sys_send fd dat)) \<and> r_ret (orc tr (Sys_send fd dat)) \<le> int (length dat)) \<and>
     (\<forall>tr fd file off len. - 1 \<le> r_ret (orc tr (Sys_send_map fd file off len)) \<and>
        r_ret (orc tr (Sys_send_map fd file off len)) \<le> max 0 len) \<and>
     (\<forall>tr fd n. - 1 \<le> r_ret (orc tr (Sys_read fd n)) \<and> r_ret (orc tr (Sys_read fd n)) \<le> int n \<and>
        int (length (r_data (orc tr (Sys_read fd n)))) = max 0 (r_ret (orc tr (Sys_read fd n))))"

text \<open>The bytes a run has put on a socket, read off its trace.\<close>

fun sent_on :: "int \<Rightarrow> (syscall \<times> reply) list \<Rightarrow> string" where
  "sent_on fd [] = []"
| "sent_on fd ((c, r) # tr) =
     (case c of Sys_send fd' dat \<Rightarrow> if fd' = fd then take (nat (r_ret r)) dat else [] | _ \<Rightarrow> []) @ sent_on fd tr"

lemma sent_on_append [simp]: "sent_on fd (tr @ tr') = sent_on fd tr @ sent_on fd tr'"
  by (induction fd tr rule: sent_on.induct) auto

end
