(* ===== verification/OrderedMap.thy ===== *)
theory OrderedMap
  imports Prelude "HOL-Library.List_Lexorder"
begin

text \<open>
  \<open>std::map\<close> with a comparison function, as an association list in the map's iteration order.
  The sources use it with \<open>utils::StrCaseLess\<close> (\<open>include/hashcomp.h\<close>; HTTP header names) and
  with the default order of \<open>std::string\<close>. The interface of a map, with the laws its clients
  rely on, is the locale \<open>dictionary\<close>; it holds for every comparison that a key into a linear
  order explains (\<open>key_order\<close>), and both orders of the sources are such.
\<close>

section \<open>The container\<close>

text \<open>\<open>m[k] = v\<close>: an equivalent key that is present is kept, only its value changes.\<close>

fun om_insert :: "('k \<Rightarrow> 'k \<Rightarrow> bool) \<Rightarrow> 'k \<Rightarrow> 'v \<Rightarrow> ('k \<times> 'v) list \<Rightarrow> ('k \<times> 'v) list" where
  "om_insert lt k v [] = [(k, v)]"
| "om_insert lt k v ((k', v') # m) =
     (if lt k k' then (k, v) # (k', v') # m
      else if lt k' k then (k', v') # om_insert lt k v m
      else (k', v) # m)"

fun om_find :: "('k \<Rightarrow> 'k \<Rightarrow> bool) \<Rightarrow> 'k \<Rightarrow> ('k \<times> 'v) list \<Rightarrow> 'v option" where
  "om_find lt k [] = None"
| "om_find lt k ((k', v') # m) =
     (if lt k k' then None else if lt k' k then om_find lt k m else Some v')"

fun om_erase :: "('k \<Rightarrow> 'k \<Rightarrow> bool) \<Rightarrow> 'k \<Rightarrow> ('k \<times> 'v) list \<Rightarrow> ('k \<times> 'v) list" where
  "om_erase lt k [] = []"
| "om_erase lt k ((k', v') # m) =
     (if lt k k' then (k', v') # m else if lt k' k then (k', v') # om_erase lt k m else m)"

section \<open>The interface\<close>

locale dictionary =
  fixes ins :: "'k \<Rightarrow> 'v \<Rightarrow> 'm \<Rightarrow> 'm"
    and fnd :: "'k \<Rightarrow> 'm \<Rightarrow> 'v option"
    and del :: "'k \<Rightarrow> 'm \<Rightarrow> 'm"
    and nil :: 'm
    and same :: "'k \<Rightarrow> 'k \<Rightarrow> bool"
    and inv :: "'m \<Rightarrow> bool"
  assumes inv_nil: "inv nil"
    and inv_ins: "inv m \<Longrightarrow> inv (ins k v m)"
    and inv_del: "inv m \<Longrightarrow> inv (del k m)"
    and fnd_nil: "fnd k nil = None"
    and fnd_ins: "inv m \<Longrightarrow> fnd k' (ins k v m) = (if same k k' then Some v else fnd k' m)"
    and fnd_del: "inv m \<Longrightarrow> fnd k' (del k m) = (if same k k' then None else fnd k' m)"
    and same_refl: "same k k"
begin

lemma fnd_ins_same: "inv m \<Longrightarrow> fnd k (ins k v m) = Some v"
  by (simp add: fnd_ins same_refl)

lemma fnd_del_same: "inv m \<Longrightarrow> fnd k (del k m) = None"
  by (simp add: fnd_del same_refl)

lemma fnd_ins_twice: "inv m \<Longrightarrow> fnd k' (ins k v (ins k u m)) = fnd k' (ins k v m)"
  by (simp add: fnd_ins inv_ins)

lemma fnd_del_ins: "inv m \<Longrightarrow> fnd k' (del k (ins k v m)) = fnd k' (del k m)"
  by (simp add: fnd_ins fnd_del inv_ins)

end

section \<open>Comparisons explained by a key\<close>

declare om_insert.simps(2) [simp del] om_find.simps(2) [simp del] om_erase.simps(2) [simp del]

locale key_order =
  fixes lt :: "'k \<Rightarrow> 'k \<Rightarrow> bool" and key :: "'k \<Rightarrow> 'o :: linorder"
  assumes lt_key: "lt a b \<longleftrightarrow> key a < key b"
begin

definition om_inv :: "('k \<times> 'v) list \<Rightarrow> bool" where
  "om_inv m \<longleftrightarrow> sorted_wrt (\<lambda>p q. key (fst p) < key (fst q)) m"

lemma om_inv_Nil [simp]: "om_inv []"
  by (simp add: om_inv_def)

lemma om_inv_Cons [simp]:
  "om_inv ((k, v) # m) \<longleftrightarrow> (\<forall>p\<in>set m. key k < key (fst p)) \<and> om_inv m"
  by (simp add: om_inv_def)

lemma om_Cons [simp]:
  "om_insert lt k v ((k', v') # m) =
     (if key k < key k' then (k, v) # (k', v') # m
      else if key k' < key k then (k', v') # om_insert lt k v m else (k', v) # m)"
  "om_find lt k ((k', v') # m) =
     (if key k < key k' then None else if key k' < key k then om_find lt k m else Some v')"
  "om_erase lt k ((k', v') # m) =
     (if key k < key k' then (k', v') # m
      else if key k' < key k then (k', v') # om_erase lt k m else m)"
  by (simp_all add: lt_key [of k k'] lt_key [of k' k] om_insert.simps(2) om_find.simps(2) om_erase.simps(2))

lemma key_om_insert:
  "q \<in> set (om_insert lt k v m) \<Longrightarrow> key (fst q) = key k \<or> (\<exists>p\<in>set m. key (fst p) = key (fst q))"
  by (induction m) (auto split: if_splits)

lemma set_om_erase: "set (om_erase lt k m) \<subseteq> set m"
  by (induction m) (auto split: if_splits)

lemma om_inv_insert: "om_inv m \<Longrightarrow> om_inv (om_insert lt k v m)"
proof (induction m)
  case (Cons p m)
  obtain k' v' where p: "p = (k', v')" by (cases p)
  have "\<forall>q\<in>set (om_insert lt k v m). key k' < key (fst q)" if "key k' < key k"
  proof
    fix q assume "q \<in> set (om_insert lt k v m)"
    from key_om_insert [OF this] that Cons.prems show "key k' < key (fst q)" by (auto simp: p)
  qed
  with Cons show ?case by (auto simp: p)
qed simp

lemma om_inv_erase: "om_inv m \<Longrightarrow> om_inv (om_erase lt k m)"
proof (induction m)
  case (Cons p m)
  then show ?case using set_om_erase [of k m] by (cases p) auto
qed simp

lemma om_find_above: "\<forall>p\<in>set m. key k < key (fst p) \<Longrightarrow> om_find lt k m = None"
  by (cases m) auto

lemma om_find_insert:
  "om_inv m \<Longrightarrow> om_find lt k' (om_insert lt k v m) = (if key k = key k' then Some v else om_find lt k' m)"
  by (induction m) auto

lemma om_find_erase:
  "om_inv m \<Longrightarrow> om_find lt k' (om_erase lt k m) = (if key k = key k' then None else om_find lt k' m)"
proof (induction m)
  case (Cons p m)
  have above: "om_find lt k' m = None" if "key k' \<le> key (fst p)"
    using that Cons.prems by (cases p) (force intro!: om_find_above)
  show ?case
  proof (cases "key k' \<le> key (fst p)")
    case True
    with Cons.prems above show ?thesis by (cases p) auto
  next
    case False
    with Cons.prems Cons.IH show ?thesis by (cases p) auto
  qed
qed simp

lemma om_find_cong: "key k = key k' \<Longrightarrow> om_find lt k m = om_find lt k' m"
  by (induction m) auto

lemma om_find_Some_mem: "om_find lt k m = Some v \<Longrightarrow> \<exists>k'. (k', v) \<in> set m \<and> key k' = key k"
  by (induction m) (auto split: if_splits)

lemma om_find_mem: "om_inv m \<Longrightarrow> (k, v) \<in> set m \<Longrightarrow> om_find lt k m = Some v"
  by (induction m) (force)+

end

sublocale key_order \<subseteq> om: dictionary "om_insert lt" "om_find lt" "om_erase lt" "[]"
  "\<lambda>a b. key a = key b" om_inv
  by unfold_locales (simp_all add: om_inv_insert om_inv_erase om_find_insert om_find_erase)

section \<open>The two orders of the sources\<close>

text \<open>\<open>std::lexicographical_compare\<close>.\<close>

fun lex_compare :: "('a \<Rightarrow> 'a \<Rightarrow> bool) \<Rightarrow> 'a list \<Rightarrow> 'a list \<Rightarrow> bool" where
  "lex_compare lt xs [] = False"
| "lex_compare lt [] (y # ys) = True"
| "lex_compare lt (x # xs) (y # ys) = (if lt x y then True else if lt y x then False else lex_compare lt xs ys)"

definition charicmp :: "char \<Rightarrow> char \<Rightarrow> bool" where
  "charicmp c1 c2 \<longleftrightarrow> schar (tolower_c c1) < schar (tolower_c c2)"

definition StrCaseLess :: "string \<Rightarrow> string \<Rightarrow> bool" where
  "StrCaseLess s1 s2 = lex_compare charicmp s1 s2"

definition str_less :: "string \<Rightarrow> string \<Rightarrow> bool" where
  "str_less s1 s2 = lex_compare (\<lambda>a b. ord a < ord b) s1 s2"

definition ci_key :: "string \<Rightarrow> int list" where
  "ci_key s = map (\<lambda>c. schar (tolower_c c)) s"

lemma lex_compare_key:
  "lex_compare (\<lambda>a b. f a < f b) xs ys \<longleftrightarrow> map f xs < map f (ys :: 'a list)" for f :: "'a \<Rightarrow> 'o :: linorder"
  by (induction "\<lambda>a b. f a < f b" xs ys rule: lex_compare.induct) auto

lemma schar_inj: "schar a = schar b \<longleftrightarrow> a = b"
proof -
  have "ord a < 256" "ord b < 256" by simp_all
  then have "schar a = schar b \<longleftrightarrow> ord a = ord b"
    unfolding schar_def by (simp del: nat_of_char_less_256 of_char_eq_iff split: if_split)
  then show ?thesis by simp
qed

lemma ci_key_eq: "ci_key a = ci_key b \<longleftrightarrow> map tolower_c a = map tolower_c b"
proof -
  have "ci_key s = map schar (map tolower_c s)" for s by (simp add: ci_key_def)
  moreover have "inj schar" by (auto intro: injI simp: schar_inj)
  ultimately show ?thesis by (metis inj_map_eq_map)
qed

interpretation ci: key_order StrCaseLess ci_key
proof unfold_locales
  have "charicmp = (\<lambda>a b. schar (tolower_c a) < schar (tolower_c b))"
    by (simp add: fun_eq_iff charicmp_def)
  then show "StrCaseLess a b \<longleftrightarrow> ci_key a < ci_key b" for a b
    using lex_compare_key [of "\<lambda>c. schar (tolower_c c)" a b] by (simp add: StrCaseLess_def ci_key_def)
qed

interpretation st: key_order str_less "map (of_char :: char \<Rightarrow> nat)"
  by unfold_locales (simp add: str_less_def lex_compare_key)

lemma ord_map_inj [simp]: "map (of_char :: char \<Rightarrow> nat) a = map of_char b \<longleftrightarrow> a = b"
  by (rule inj_map_eq_map) (auto intro: injI)

text \<open>
  A \<open>std::multimap\<close> with the order of \<open>std::string\<close>: \<open>insert\<close> goes after the equal keys,
  so equal keys keep the order in which they were inserted; \<open>equal_range\<close> lists them.
\<close>

fun mm_insert :: "string \<Rightarrow> 'v \<Rightarrow> (string \<times> 'v) list \<Rightarrow> (string \<times> 'v) list" where
  "mm_insert k v [] = [(k, v)]"
| "mm_insert k v ((k', v') # m) =
     (if str_less k k' then (k, v) # (k', v') # m else (k', v') # mm_insert k v m)"

definition mm_range :: "string \<Rightarrow> (string \<times> 'v) list \<Rightarrow> 'v list" where
  "mm_range k m = map snd (filter (\<lambda>p. fst p = k) m)"

definition mm_count :: "string \<Rightarrow> (string \<times> 'v) list \<Rightarrow> nat" where
  "mm_count k m = length (mm_range k m)"

definition mm_sorted :: "(string \<times> 'v) list \<Rightarrow> bool" where
  "mm_sorted m \<longleftrightarrow> sorted_wrt (\<lambda>p q. \<not> str_less (fst q) (fst p)) m"

lemma set_mm_insert: "set (mm_insert k v m) = insert (k, v) (set m)"
  by (induction k v m rule: mm_insert.induct) auto

lemma mm_sorted_insert: "mm_sorted m \<Longrightarrow> mm_sorted (mm_insert k v m)"
proof (induction m)
  case (Cons p m)
  then have IH: "mm_sorted (mm_insert k v m)" by (simp add: mm_sorted_def)
  show ?case
  proof (cases "str_less k (fst p)")
    case True
    have "\<not> str_less (fst q) k" if "q \<in> set (p # m)" for q
    proof -
      have "\<not> str_less (fst q) (fst p)"
        using that Cons.prems by (auto simp: mm_sorted_def st.lt_key)
      with True show ?thesis unfolding st.lt_key by (meson less_trans not_less_iff_gr_or_eq order.strict_trans)
    qed
    with True Cons.prems show ?thesis by (cases p) (auto simp: mm_sorted_def)
  next
    case False
    with Cons.prems IH show ?thesis by (cases p) (auto simp: mm_sorted_def set_mm_insert)
  qed
qed (simp add: mm_sorted_def)

lemma mm_range_insert:
  "mm_sorted m \<Longrightarrow> mm_range k' (mm_insert k v m) = mm_range k' m @ (if k = k' then [v] else [])"
proof (induction m)
  case (Cons p m)
  have "filter (\<lambda>q. fst q = k) (p # m) = []" if "str_less k (fst p)"
  proof -
    have "\<not> str_less (fst q) (fst p)" if "q \<in> set m" for q
      using that Cons.prems by (simp add: mm_sorted_def)
    with \<open>str_less k (fst p)\<close> show ?thesis
      unfolding st.lt_key filter_empty_conv by (metis list.set_cases set_ConsD order.strict_trans2 less_irrefl linorder_not_less)
  qed
  with Cons show ?case by (cases p) (auto simp: mm_range_def mm_sorted_def)
qed (simp add: mm_range_def)

end
