(* ===== verification/SocketEngines.thy ===== *)
theory SocketEngines
  imports Kernel OrderedMap
begin

text \<open>
  The socket engines (\<open>src/socketengine.cpp\<close>, \<open>src/socketengines/\<close>): the table \<open>ref\<close> from
  descriptors to the objects that handle their events, kept in step with what the kernel watches.
  An access to \<open>ref\<close> outside its \<open>MAX_DESCRIPTORS\<close> entries is \<open>None\<close>. The contract that the
  connection code relies on is the locale \<open>socket_engine\<close>; each of the four engines is an instance.
\<close>

text \<open>\<open>EventHandler::Readable\<close> and \<open>Writeable\<close>; only the log file overrides the first.\<close>

definition Readable :: "handler \<Rightarrow> bool" where "Readable eh = (case eh of H_Log \<Rightarrow> False | _ \<Rightarrow> True)"
definition Writeable :: "handler \<Rightarrow> bool" where "Writeable eh = False"

definition ref_at :: "engine \<Rightarrow> int \<Rightarrow> handler option option" where
  "ref_at e fd = (if 0 \<le> fd \<and> fd < MAX_DESCRIPTORS e then Some (ref e fd) else None)"

definition set_ref :: "int \<Rightarrow> handler option \<Rightarrow> engine \<Rightarrow> engine option" where
  "set_ref fd h e =
     (if 0 \<le> fd \<and> fd < MAX_DESCRIPTORS e then Some (e\<lparr>ref := (ref e)(fd := h)\<rparr>) else None)"

definition HasFd :: "int \<Rightarrow> 'a io_scheme \<Rightarrow> bool option" where
  "HasFd fd s =
     (if fd < 0 \<or> fd > MAX_DESCRIPTORS (SE s) then Some False
      else map_option (\<lambda>h. h \<noteq> None) (ref_at (SE s) fd))"

definition GetRef :: "int \<Rightarrow> 'a io_scheme \<Rightarrow> handler option option" where
  "GetRef fd s = (if fd < 0 \<or> fd > MAX_DESCRIPTORS (SE s) then Some None else ref_at (SE s) fd)"

definition BoundsCheckFd :: "int \<Rightarrow> 'a io_scheme \<Rightarrow> bool" where
  "BoundsCheckFd fd s = (if fd < 0 \<or> fd > MAX_DESCRIPTORS (SE s) then False else True)"

definition engine_new :: "engine_kind \<Rightarrow> int \<Rightarrow> int \<Rightarrow> engine" where
  "engine_new k maxd setsize =
     \<lparr>engine_kind = k, MAX_DESCRIPTORS = maxd, FD_SETSIZE = setsize, ref = (\<lambda>_. None),
      CurrentSetSize = 0, sel_fds = [], sel_writeable = (\<lambda>_. False)\<rparr>"

text \<open>The constructors: \<open>Inl\<close> is the exit status when the kernel refuses.\<close>

definition engine_create :: "engine_kind \<Rightarrow> int \<Rightarrow> int \<Rightarrow> 'a io_scheme \<Rightarrow> int + 'a io_scheme" where
  "engine_create k maxd setsize s =
     (let s = s\<lparr>SE := engine_new k maxd setsize\<rparr> in
      case k of
        SelectEngine \<Rightarrow> Inr s
      | _ \<Rightarrow> (case syscall Sys_create_engine s of (r, s1) \<Rightarrow> if r_ret r = - 1 then Inl 10 else Inr s1))"

text \<open>\<open>RecoverFromFork\<close>: the handle of \<open>kqueue\<close> does not survive a fork.\<close>

definition RecoverFromFork :: "'a io_scheme \<Rightarrow> int + 'a io_scheme" where
  "RecoverFromFork s =
     (case engine_kind (SE s) of
        KQueueEngine \<Rightarrow>
          (case syscall Sys_create_engine s of (r, s1) \<Rightarrow>
             if r_ret r = - 1 then Inl 10 else Inr (s1\<lparr>SE := (SE s1)\<lparr>CurrentSetSize := 0\<rparr>\<rparr>))
      | _ \<Rightarrow> Inr s)"

definition engine_GetName :: "engine_kind \<Rightarrow> string" where
  "engine_GetName k =
     (case k of EPollEngine \<Rightarrow> ''epoll'' | KQueueEngine \<Rightarrow> ''kqueue'' | PortsEngine \<Rightarrow> ''ports'' | SelectEngine \<Rightarrow> ''select'')"

definition GetMaxFds :: "engine \<Rightarrow> int" where
  "GetMaxFds e = (case engine_kind e of SelectEngine \<Rightarrow> FD_SETSIZE e | _ \<Rightarrow> MAX_DESCRIPTORS e)"

definition GetRemainingFds :: "engine \<Rightarrow> int" where
  "GetRemainingFds e = GetMaxFds e - CurrentSetSize e"

section \<open>epoll\<close>

definition epoll_AddFd :: "handler \<Rightarrow> int \<Rightarrow> 'a io_scheme \<Rightarrow> (bool \<times> 'a io_scheme) option" where
  "epoll_AddFd eh fd s =
     (if fd < 0 \<or> fd > MAX_DESCRIPTORS (SE s) then Some (False, s)
      else if MAX_DESCRIPTORS (SE s) - CurrentSetSize (SE s) \<le> 1 then Some (False, s)
      else do {
        r \<leftarrow> ref_at (SE s) fd;
        if r \<noteq> None then Some (False, s)
        else (case syscall (Sys_epoll_ctl CTL_ADD fd (if Readable eh then WANT_IN else WANT_OUT)) s of (i, s1) \<Rightarrow>
          if r_ret i < 0 then Some (False, s1)
          else do {
            e \<leftarrow> set_ref fd (Some eh) (SE s1);
            Some (True, s1\<lparr>SE := e\<lparr>CurrentSetSize := CurrentSetSize e + 1\<rparr>\<rparr>)
          })
      })"

definition epoll_WantWrite :: "handler \<Rightarrow> int \<Rightarrow> 'a io_scheme \<Rightarrow> 'a io_scheme option" where
  "epoll_WantWrite eh fd s = Some (snd (syscall (Sys_epoll_ctl CTL_MOD fd WANT_OUT) s))"

definition epoll_DelFd :: "handler \<Rightarrow> int \<Rightarrow> bool \<Rightarrow> 'a io_scheme \<Rightarrow> (bool \<times> 'a io_scheme) option" where
  "epoll_DelFd eh fd force s =
     (if fd < 0 \<or> fd > MAX_DESCRIPTORS (SE s) then Some (False, s)
      else (case syscall (Sys_epoll_ctl CTL_DEL fd (if Readable eh then WANT_IN else WANT_OUT)) s of (i, s1) \<Rightarrow>
        if r_ret i < 0 \<and> \<not> force then Some (False, s1)
        else do {
          e \<leftarrow> set_ref fd None (SE s1);
          Some (True, s1\<lparr>SE := e\<lparr>CurrentSetSize := CurrentSetSize e - 1\<rparr>\<rparr>)
        }))"

section \<open>kqueue\<close>

definition kqueue_AddFd :: "handler \<Rightarrow> int \<Rightarrow> 'a io_scheme \<Rightarrow> (bool \<times> 'a io_scheme) option" where
  "kqueue_AddFd eh fd s =
     (if fd < 0 \<or> fd > MAX_DESCRIPTORS (SE s) then Some (False, s)
      else if MAX_DESCRIPTORS (SE s) - CurrentSetSize (SE s) \<le> 1 then Some (False, s)
      else do {
        r \<leftarrow> ref_at (SE s) fd;
        if r \<noteq> None then Some (False, s)
        else (case syscall (Sys_kevent_add fd (if Readable eh then WANT_IN else WANT_OUT) False) s of (i, s1) \<Rightarrow>
          if r_ret i = - 1 then Some (False, s1)
          else do {
            e \<leftarrow> set_ref fd (Some eh) (SE s1);
            Some (True, s1\<lparr>SE := e\<lparr>CurrentSetSize := CurrentSetSize e + 1\<rparr>\<rparr>)
          })
      })"

definition kqueue_DelFd :: "handler \<Rightarrow> int \<Rightarrow> bool \<Rightarrow> 'a io_scheme \<Rightarrow> (bool \<times> 'a io_scheme) option" where
  "kqueue_DelFd eh fd force s =
     (if fd < 0 \<or> fd > MAX_DESCRIPTORS (SE s) then Some (False, s)
      else (case syscall (Sys_kevent_delete fd WANT_IN) s of (i, s1) \<Rightarrow>
        case syscall (Sys_kevent_delete fd WANT_OUT) s1 of (j, s2) \<Rightarrow>
        if r_ret j < 0 \<and> r_ret i < 0 \<and> \<not> force then Some (False, s2)
        else do {
          e \<leftarrow> set_ref fd None (SE s2);
          Some (True, s2\<lparr>SE := e\<lparr>CurrentSetSize := CurrentSetSize e - 1\<rparr>\<rparr>)
        }))"

definition kqueue_WantWrite :: "handler \<Rightarrow> int \<Rightarrow> 'a io_scheme \<Rightarrow> 'a io_scheme option" where
  "kqueue_WantWrite eh fd s = Some (snd (syscall (Sys_kevent_add fd WANT_OUT True) s))"

section \<open>Event ports\<close>

definition ports_AddFd :: "handler \<Rightarrow> int \<Rightarrow> 'a io_scheme \<Rightarrow> (bool \<times> 'a io_scheme) option" where
  "ports_AddFd eh fd s =
     (if fd < 0 \<or> fd > MAX_DESCRIPTORS (SE s) then Some (False, s)
      else if MAX_DESCRIPTORS (SE s) - CurrentSetSize (SE s) \<le> 1 then Some (False, s)
      else do {
        r \<leftarrow> ref_at (SE s) fd;
        if r \<noteq> None then Some (False, s)
        else do {
          e \<leftarrow> set_ref fd (Some eh) (SE s);
          (case syscall (Sys_port_associate fd (if Readable eh then WANT_IN else WANT_OUT)) (s\<lparr>SE := e\<rparr>) of
             (_, s1) \<Rightarrow> Some (True, s1\<lparr>SE := (SE s1)\<lparr>CurrentSetSize := CurrentSetSize (SE s1) + 1\<rparr>\<rparr>))
        }
      })"

definition ports_WantWrite :: "handler \<Rightarrow> int \<Rightarrow> 'a io_scheme \<Rightarrow> 'a io_scheme option" where
  "ports_WantWrite eh fd s = Some (snd (syscall (Sys_port_associate fd WANT_OUT) s))"

definition ports_DelFd :: "handler \<Rightarrow> int \<Rightarrow> bool \<Rightarrow> 'a io_scheme \<Rightarrow> (bool \<times> 'a io_scheme) option" where
  "ports_DelFd eh fd force s =
     (if fd < 0 \<or> fd > MAX_DESCRIPTORS (SE s) then Some (False, s)
      else (case syscall (Sys_port_dissociate fd) s of (_, s1) \<Rightarrow> do {
        e \<leftarrow> set_ref fd None ((SE s1)\<lparr>CurrentSetSize := CurrentSetSize (SE s1) - 1\<rparr>);
        Some (True, s1\<lparr>SE := e\<rparr>)
      }))"

section \<open>select\<close>

text \<open>\<open>fds\<close> is a \<open>std::map<int,int>\<close>.\<close>

abbreviation (input) int_less :: "int \<Rightarrow> int \<Rightarrow> bool" where "int_less \<equiv> (<)"

interpretation fdmap: key_order int_less "\<lambda>fd. fd"
  by unfold_locales simp

definition select_AddFd :: "handler \<Rightarrow> int \<Rightarrow> 'a io_scheme \<Rightarrow> (bool \<times> 'a io_scheme) option" where
  "select_AddFd eh fd s =
     (if fd < 0 \<or> fd > MAX_DESCRIPTORS (SE s) then Some (False, s)
      else if FD_SETSIZE (SE s) - CurrentSetSize (SE s) \<le> 1 then Some (False, s)
      else do {
        r \<leftarrow> ref_at (SE s) fd;
        if r \<noteq> None then Some (False, s)
        else do {
          e \<leftarrow> set_ref fd (Some eh) ((SE s)\<lparr>sel_fds := om_insert int_less fd fd (sel_fds (SE s))\<rparr>);
          Some (True, s\<lparr>SE := e\<lparr>CurrentSetSize := CurrentSetSize e + 1\<rparr>\<rparr>)
        }
      })"

definition select_WantWrite :: "handler \<Rightarrow> int \<Rightarrow> 'a io_scheme \<Rightarrow> 'a io_scheme option" where
  "select_WantWrite eh fd s =
     (if 0 \<le> fd \<and> fd < MAX_DESCRIPTORS (SE s)
      then Some (s\<lparr>SE := (SE s)\<lparr>sel_writeable := (sel_writeable (SE s))(fd := True)\<rparr>\<rparr>) else None)"

definition select_DelFd :: "handler \<Rightarrow> int \<Rightarrow> bool \<Rightarrow> 'a io_scheme \<Rightarrow> (bool \<times> 'a io_scheme) option" where
  "select_DelFd eh fd force s =
     (if fd < 0 \<or> fd > MAX_DESCRIPTORS (SE s) then Some (False, s)
      else do {
        let e = (SE s)\<lparr>sel_fds := om_erase int_less fd (sel_fds (SE s))\<rparr>;
        e \<leftarrow> set_ref fd None (e\<lparr>CurrentSetSize := CurrentSetSize e - 1\<rparr>);
        Some (True, s\<lparr>SE := e\<lparr>sel_fds := om_insert int_less fd 0 (sel_fds e)\<rparr>\<rparr>)
      })"

section \<open>The virtual functions\<close>

definition AddFd :: "handler \<Rightarrow> int \<Rightarrow> 'a io_scheme \<Rightarrow> (bool \<times> 'a io_scheme) option" where
  "AddFd eh fd s =
     (case engine_kind (SE s) of
        EPollEngine \<Rightarrow> epoll_AddFd eh fd s | KQueueEngine \<Rightarrow> kqueue_AddFd eh fd s
      | PortsEngine \<Rightarrow> ports_AddFd eh fd s | SelectEngine \<Rightarrow> select_AddFd eh fd s)"

definition DelFd :: "handler \<Rightarrow> int \<Rightarrow> bool \<Rightarrow> 'a io_scheme \<Rightarrow> (bool \<times> 'a io_scheme) option" where
  "DelFd eh fd force s =
     (case engine_kind (SE s) of
        EPollEngine \<Rightarrow> epoll_DelFd eh fd force s | KQueueEngine \<Rightarrow> kqueue_DelFd eh fd force s
      | PortsEngine \<Rightarrow> ports_DelFd eh fd force s | SelectEngine \<Rightarrow> select_DelFd eh fd force s)"

definition WantWrite :: "handler \<Rightarrow> int \<Rightarrow> 'a io_scheme \<Rightarrow> 'a io_scheme option" where
  "WantWrite eh fd s =
     (case engine_kind (SE s) of
        EPollEngine \<Rightarrow> epoll_WantWrite eh fd s | KQueueEngine \<Rightarrow> kqueue_WantWrite eh fd s
      | PortsEngine \<Rightarrow> ports_WantWrite eh fd s | SelectEngine \<Rightarrow> select_WantWrite eh fd s)"

text \<open>The wrappers of the system calls.\<close>

definition SE_Send :: "int \<Rightarrow> string \<Rightarrow> 'a io_scheme \<Rightarrow> int \<times> 'a io_scheme" where
  "SE_Send fd buf s = (case syscall (Sys_send fd buf) s of (r, s') \<Rightarrow> (r_ret r, s'))"

definition SE_Close :: "int \<Rightarrow> 'a io_scheme \<Rightarrow> int \<times> 'a io_scheme" where
  "SE_Close fd s = (case syscall (Sys_close fd) s of (r, s') \<Rightarrow> (r_ret r, s'))"

definition SE_Shutdown :: "int \<Rightarrow> int \<Rightarrow> 'a io_scheme \<Rightarrow> int \<times> 'a io_scheme" where
  "SE_Shutdown fd how s = (case syscall (Sys_shutdown fd how) s of (r, s') \<Rightarrow> (r_ret r, s'))"

definition SE_Accept :: "int \<Rightarrow> 'a io_scheme \<Rightarrow> reply \<times> 'a io_scheme" where
  "SE_Accept fd s = syscall (Sys_accept fd) s"

definition SE_GetSockName :: "int \<Rightarrow> 'a io_scheme \<Rightarrow> reply \<times> 'a io_scheme" where
  "SE_GetSockName fd s = syscall (Sys_getsockname fd) s"

definition NonBlocking :: "int \<Rightarrow> 'a io_scheme \<Rightarrow> int \<times> 'a io_scheme" where
  "NonBlocking fd s =
     (case syscall (Sys_getfl fd) s of (flags, s1) \<Rightarrow>
        case syscall (Sys_setfl_nonblock fd (r_ret flags)) s1 of (r, s2) \<Rightarrow> (r_ret r, s2))"

definition SE_Bind :: "int \<Rightarrow> string \<Rightarrow> int \<Rightarrow> 'a io_scheme \<Rightarrow> int \<times> 'a io_scheme" where
  "SE_Bind fd addr port s = (case syscall (Sys_bind fd addr port) s of (r, s') \<Rightarrow> (r_ret r, s'))"

definition SE_Listen :: "int \<Rightarrow> int \<Rightarrow> 'a io_scheme \<Rightarrow> int \<times> 'a io_scheme" where
  "SE_Listen fd backlog s = (case syscall (Sys_listen fd backlog) s of (r, s') \<Rightarrow> (r_ret r, s'))"

section \<open>The contract\<close>

text \<open>What the rest of the program may rely on, whatever the engine: the table changes at the one
  descriptor concerned and exactly when the call reports success, and the count follows it.\<close>

locale socket_engine =
  fixes add :: "handler \<Rightarrow> int \<Rightarrow> 's \<Rightarrow> (bool \<times> 's) option"
    and del :: "handler \<Rightarrow> int \<Rightarrow> bool \<Rightarrow> 's \<Rightarrow> (bool \<times> 's) option"
    and want :: "handler \<Rightarrow> int \<Rightarrow> 's \<Rightarrow> 's option"
    and tab :: "'s \<Rightarrow> int \<Rightarrow> handler option"
    and sz :: "'s \<Rightarrow> int"
    and lim :: "'s \<Rightarrow> int"
  assumes add_True: "add eh fd s = Some (True, s') \<Longrightarrow>
      tab s fd = None \<and> tab s' = (tab s)(fd := Some eh) \<and> sz s' = sz s + 1 \<and> sz s + 1 < lim s \<and> lim s' = lim s"
    and add_False: "add eh fd s = Some (False, s') \<Longrightarrow> tab s' = tab s \<and> sz s' = sz s \<and> lim s' = lim s"
    and del_True: "del eh fd force s = Some (True, s') \<Longrightarrow>
      tab s' = (tab s)(fd := None) \<and> sz s' = sz s - 1 \<and> lim s' = lim s"
    and del_False: "del eh fd force s = Some (False, s') \<Longrightarrow> tab s' = tab s \<and> sz s' = sz s \<and> lim s' = lim s"
    and want: "want eh fd s = Some s' \<Longrightarrow> tab s' = tab s \<and> sz s' = sz s \<and> lim s' = lim s"
begin

definition counted :: "'s \<Rightarrow> bool" where
  "counted s \<longleftrightarrow> finite {fd. tab s fd \<noteq> None} \<and> sz s = int (card {fd. tab s fd \<noteq> None}) \<and> (sz s = 0 \<or> sz s < lim s)"

lemma counted_add:
  assumes inv: "counted s" and step: "add eh fd s = Some (b, s')"
  shows "counted s'"
proof (cases b)
  case True
  from add_True [of eh fd s s'] step True have free: "tab s fd = None" and tab: "tab s' = (tab s)(fd := Some eh)"
    and sz: "sz s' = sz s + 1" "sz s + 1 < lim s" "lim s' = lim s" by auto
  have "{x. tab s' x \<noteq> None} = insert fd {x. tab s x \<noteq> None}" using tab by auto
  with inv free sz show ?thesis by (simp add: counted_def)
next
  case False
  with add_False [of eh fd s s'] step inv show ?thesis unfolding counted_def by metis
qed

lemma counted_del:
  assumes inv: "counted s" and reg: "tab s fd \<noteq> None" and step: "del eh fd force s = Some (b, s')"
  shows "counted s'"
proof (cases b)
  case True
  from del_True [of eh fd force s s'] step True have tab: "tab s' = (tab s)(fd := None)"
    and sz: "sz s' = sz s - 1" "lim s' = lim s" by auto
  have set: "{x. tab s' x \<noteq> None} = {x. tab s x \<noteq> None} - {fd}" using tab by auto
  have "card {x. tab s x \<noteq> None} > 0" using inv reg by (auto simp: counted_def card_gt_0_iff)
  then have "sz s < lim s" using inv by (auto simp: counted_def)
  moreover have "card ({x. tab s x \<noteq> None} - {fd}) = card {x. tab s x \<noteq> None} - 1"
    using reg by (simp add: card_Diff_singleton)
  ultimately show ?thesis using inv sz \<open>card {x. tab s x \<noteq> None} > 0\<close> unfolding counted_def set by simp
next
  case False
  with del_False [of eh fd force s s'] step inv show ?thesis unfolding counted_def by metis
qed

lemma counted_want: "counted s \<Longrightarrow> want eh fd s = Some s' \<Longrightarrow> counted s'"
  using want unfolding counted_def by metis

text \<open>The count after \<open>n\<close> successful removals of descriptors that were not registered.\<close>

definition drift :: "nat \<Rightarrow> 's \<Rightarrow> bool" where
  "drift n s \<longleftrightarrow> finite {fd. tab s fd \<noteq> None} \<and> sz s = int (card {fd. tab s fd \<noteq> None}) - int n \<and>
     (sz s \<le> 0 \<or> sz s < lim s)"

lemma drift_add:
  assumes inv: "drift n s" and step: "add eh fd s = Some (b, s')"
  shows "drift n s'"
proof (cases b)
  case True
  from add_True [of eh fd s s'] step True have free: "tab s fd = None" and tab: "tab s' = (tab s)(fd := Some eh)"
    and sz: "sz s' = sz s + 1" "sz s + 1 < lim s" "lim s' = lim s" by auto
  have "{x. tab s' x \<noteq> None} = insert fd {x. tab s x \<noteq> None}" using tab by auto
  with inv free sz show ?thesis by (simp add: drift_def)
next
  case False
  with add_False [of eh fd s s'] step inv show ?thesis unfolding drift_def by metis
qed

lemma drift_del:
  assumes inv: "drift n s" and step: "del eh fd force s = Some (b, s')"
  shows "drift (n + (if b \<and> tab s fd = None then 1 else 0)) s'"
proof (cases b)
  case True
  from del_True [of eh fd force s s'] step True have tab: "tab s' = (tab s)(fd := None)"
    and sz: "sz s' = sz s - 1" "lim s' = lim s" by auto
  have set: "{x. tab s' x \<noteq> None} = {x. tab s x \<noteq> None} - {fd}" using tab by auto
  show ?thesis
  proof (cases "tab s fd = None")
    case free: True
    then have "{x. tab s x \<noteq> None} - {fd} = {x. tab s x \<noteq> None}" by auto
    with inv sz True free show ?thesis unfolding drift_def set by auto
  next
    case reg: False
    then have "card {x. tab s x \<noteq> None} > 0" using inv by (auto simp: drift_def card_gt_0_iff)
    moreover have "card ({x. tab s x \<noteq> None} - {fd}) = card {x. tab s x \<noteq> None} - 1"
      using reg by (simp add: card_Diff_singleton)
    ultimately show ?thesis using inv sz True reg unfolding drift_def set by auto
  qed
next
  case False
  with del_False [of eh fd force s s'] step inv show ?thesis unfolding drift_def by auto
qed

lemma drift_want: "drift n s \<Longrightarrow> want eh fd s = Some s' \<Longrightarrow> drift n s'"
  using want unfolding drift_def by metis

end

lemmas engine_defs = epoll_AddFd_def epoll_DelFd_def epoll_WantWrite_def kqueue_AddFd_def kqueue_DelFd_def
  kqueue_WantWrite_def ports_AddFd_def ports_DelFd_def ports_WantWrite_def select_AddFd_def select_DelFd_def
  select_WantWrite_def ref_at_def set_ref_def

abbreviation io_ref :: "'a io_scheme \<Rightarrow> int \<Rightarrow> handler option" where "io_ref s \<equiv> ref (SE s)"
abbreviation io_size :: "'a io_scheme \<Rightarrow> int" where "io_size s \<equiv> CurrentSetSize (SE s)"
abbreviation io_max :: "'a io_scheme \<Rightarrow> int" where "io_max s \<equiv> MAX_DESCRIPTORS (SE s)"
abbreviation io_setsize :: "'a io_scheme \<Rightarrow> int" where "io_setsize s \<equiv> FD_SETSIZE (SE s)"

interpretation epoll: socket_engine epoll_AddFd epoll_DelFd epoll_WantWrite io_ref io_size io_max
  by unfold_locales (auto simp: engine_defs Let_def dest!: syscall_SE' split: if_splits prod.splits bind_splits)

interpretation kqueue: socket_engine kqueue_AddFd kqueue_DelFd kqueue_WantWrite io_ref io_size io_max
  by unfold_locales (auto simp: engine_defs Let_def dest!: syscall_SE' split: if_splits prod.splits bind_splits)

interpretation ports: socket_engine ports_AddFd ports_DelFd ports_WantWrite io_ref io_size io_max
  by unfold_locales (auto simp: engine_defs Let_def dest!: syscall_SE' split: if_splits prod.splits bind_splits)

interpretation select: socket_engine select_AddFd select_DelFd select_WantWrite io_ref io_size io_setsize
  by unfold_locales (auto simp: engine_defs Let_def dest!: syscall_SE' split: if_splits prod.splits bind_splits)

section \<open>Properties of whichever engine is built in\<close>

definition engine_limit :: "'a io_scheme \<Rightarrow> int" where
  "engine_limit s = GetMaxFds (SE s)"

definition engine_counted :: "'a io_scheme \<Rightarrow> bool" where
  "engine_counted s \<longleftrightarrow> finite {fd. ref (SE s) fd \<noteq> None} \<and>
     CurrentSetSize (SE s) = int (card {fd. ref (SE s) fd \<noteq> None}) \<and>
     (CurrentSetSize (SE s) = 0 \<or> CurrentSetSize (SE s) < engine_limit s)"

lemma engine_kind_AddFd: "AddFd eh fd s = Some (b, s') \<Longrightarrow> engine_kind (SE s') = engine_kind (SE s)"
  by (auto simp: AddFd_def engine_defs Let_def dest!: syscall_SE'
      split: if_splits prod.splits bind_splits engine_kind.splits)

lemma engine_kind_DelFd: "DelFd eh fd force s = Some (b, s') \<Longrightarrow> engine_kind (SE s') = engine_kind (SE s)"
  by (auto simp: DelFd_def engine_defs Let_def dest!: syscall_SE'
      split: if_splits prod.splits bind_splits engine_kind.splits)

lemma engine_kind_WantWrite: "WantWrite eh fd s = Some s' \<Longrightarrow> engine_kind (SE s') = engine_kind (SE s)"
  by (cases "engine_kind (SE s)") (auto simp: WantWrite_def engine_defs split: if_splits)

lemma AddFd_frame: "AddFd eh fd s = Some (b, s') \<Longrightarrow> io_frame s s'"
  by (auto simp: AddFd_def engine_defs Let_def dest!: syscall_frame simp: io_frame_def
      split: if_splits prod.splits bind_splits engine_kind.splits)

lemma DelFd_frame: "DelFd eh fd force s = Some (b, s') \<Longrightarrow> io_frame s s'"
  by (auto simp: DelFd_def engine_defs Let_def dest!: syscall_frame simp: io_frame_def
      split: if_splits prod.splits bind_splits engine_kind.splits)

lemma WantWrite_frame: "WantWrite eh fd s = Some s' \<Longrightarrow> io_frame s s'"
  by (auto simp: WantWrite_def engine_defs io_frame_def syscall_def Let_def
      split: if_splits engine_kind.splits)

interpretation se: socket_engine AddFd DelFd WantWrite io_ref io_size engine_limit
proof unfold_locales
  fix eh fd force and s s' :: "'a io_scheme"
  show "AddFd eh fd s = Some (True, s') \<Longrightarrow> io_ref s fd = None \<and> io_ref s' = (io_ref s)(fd := Some eh) \<and>
      io_size s' = io_size s + 1 \<and> io_size s + 1 < engine_limit s \<and> engine_limit s' = engine_limit s"
    using engine_kind_AddFd [of eh fd s True s'] epoll.add_True [of eh fd s s'] kqueue.add_True [of eh fd s s']
      ports.add_True [of eh fd s s'] select.add_True [of eh fd s s']
    by (cases "engine_kind (SE s)") (auto simp: AddFd_def engine_limit_def GetMaxFds_def)
  show "AddFd eh fd s = Some (False, s') \<Longrightarrow> io_ref s' = io_ref s \<and> io_size s' = io_size s \<and> engine_limit s' = engine_limit s"
    using engine_kind_AddFd [of eh fd s False s'] epoll.add_False [of eh fd s s'] kqueue.add_False [of eh fd s s']
      ports.add_False [of eh fd s s'] select.add_False [of eh fd s s']
    by (cases "engine_kind (SE s)") (auto simp: AddFd_def engine_limit_def GetMaxFds_def)
  show "DelFd eh fd force s = Some (True, s') \<Longrightarrow>
      io_ref s' = (io_ref s)(fd := None) \<and> io_size s' = io_size s - 1 \<and> engine_limit s' = engine_limit s"
    using engine_kind_DelFd [of eh fd force s True s'] epoll.del_True [of eh fd force s s']
      kqueue.del_True [of eh fd force s s'] ports.del_True [of eh fd force s s'] select.del_True [of eh fd force s s']
    by (cases "engine_kind (SE s)") (auto simp: DelFd_def engine_limit_def GetMaxFds_def)
  show "DelFd eh fd force s = Some (False, s') \<Longrightarrow>
      io_ref s' = io_ref s \<and> io_size s' = io_size s \<and> engine_limit s' = engine_limit s"
    using engine_kind_DelFd [of eh fd force s False s'] epoll.del_False [of eh fd force s s']
      kqueue.del_False [of eh fd force s s'] ports.del_False [of eh fd force s s'] select.del_False [of eh fd force s s']
    by (cases "engine_kind (SE s)") (auto simp: DelFd_def engine_limit_def GetMaxFds_def)
  show "WantWrite eh fd s = Some s' \<Longrightarrow> io_ref s' = io_ref s \<and> io_size s' = io_size s \<and> engine_limit s' = engine_limit s"
    using engine_kind_WantWrite [of eh fd s s'] epoll.want [of eh fd s s'] kqueue.want [of eh fd s s']
      ports.want [of eh fd s s'] select.want [of eh fd s s']
    by (cases "engine_kind (SE s)") (auto simp: WantWrite_def engine_limit_def GetMaxFds_def)
qed

lemma engine_counted_se: "engine_counted s \<longleftrightarrow> se.counted s"
  by (simp add: engine_counted_def se.counted_def)

text \<open>Calls on the engine, as the program makes them.\<close>

datatype engine_op = Op_Add handler int | Op_Del handler int bool | Op_Want handler int

definition engine_step :: "engine_op \<Rightarrow> 'a io_scheme \<Rightarrow> 'a io_scheme option" where
  "engine_step c s =
     (case c of
        Op_Add eh fd \<Rightarrow> map_option snd (AddFd eh fd s)
      | Op_Del eh fd force \<Rightarrow> map_option snd (DelFd eh fd force s)
      | Op_Want eh fd \<Rightarrow> WantWrite eh fd s)"

fun engine_run :: "engine_op list \<Rightarrow> 'a io_scheme \<Rightarrow> 'a io_scheme option" where
  "engine_run [] s = Some s"
| "engine_run (c # cs) s = do { s' \<leftarrow> engine_step c s; engine_run cs s' }"

text \<open>The removals among them that succeed for a descriptor that nothing is registered for: the
  engines do not look into the table before they take one off the count. A connection whose
  registration has failed makes one.\<close>

definition stray :: "engine_op \<Rightarrow> 'a io_scheme \<Rightarrow> nat" where
  "stray c s =
     (case c of
        Op_Del eh fd force \<Rightarrow>
          (case DelFd eh fd force s of Some (True, _) \<Rightarrow> if ref (SE s) fd = None then 1 else 0 | _ \<Rightarrow> 0)
      | _ \<Rightarrow> 0)"

fun strays :: "engine_op list \<Rightarrow> 'a io_scheme \<Rightarrow> nat" where
  "strays [] s = 0"
| "strays (c # cs) s = stray c s + (case engine_step c s of None \<Rightarrow> 0 | Some s' \<Rightarrow> strays cs s')"

lemma engine_step_drift:
  assumes "engine_step c s = Some s'" "se.drift n s"
  shows "se.drift (n + stray c s) s'"
proof (cases c)
  case (Op_Add eh fd)
  with assms obtain b where "AddFd eh fd s = Some (b, s')" by (auto simp: engine_step_def)
  from se.drift_add [OF assms(2) this] show ?thesis by (simp add: Op_Add stray_def)
next
  case (Op_Del eh fd force)
  with assms obtain b where d: "DelFd eh fd force s = Some (b, s')" by (auto simp: engine_step_def)
  from se.drift_del [OF assms(2) this] d show ?thesis by (cases b) (simp_all add: Op_Del stray_def)
next
  case (Op_Want eh fd)
  with assms have "WantWrite eh fd s = Some s'" by (simp add: engine_step_def)
  from se.drift_want [OF assms(2) this] show ?thesis by (simp add: Op_Want stray_def)
qed

lemma engine_run_drift:
  "engine_run cs s = Some s' \<Longrightarrow> se.drift n s \<Longrightarrow> se.drift (n + strays cs s) s'"
proof (induction cs arbitrary: s n)
  case (Cons c cs)
  from Cons.prems(1) obtain s1 where step: "engine_step c s = Some s1" and run: "engine_run cs s1 = Some s'"
    by (auto split: bind_splits)
  from Cons.IH [OF run engine_step_drift [OF step Cons.prems(2)]] step show ?case by (simp add: add.assoc)
qed simp

text \<open>Claim C9: in every engine and through any sequence of registrations, removals and write
  requests, successful or refused by the kernel, the count of descriptors is the number of entries of
  the table less the number of removals that succeeded for a descriptor nothing was registered for,
  and it stays below the limit; it is exact, then, if and only if there was no such removal.\<close>

theorem engine_counted_run:
  assumes "engine_counted s" and "engine_run cs s = Some s'"
  shows "CurrentSetSize (SE s') = int (card {fd. ref (SE s') fd \<noteq> None}) - int (strays cs s) \<and>
    finite {fd. ref (SE s') fd \<noteq> None} \<and>
    (CurrentSetSize (SE s') \<le> 0 \<or> CurrentSetSize (SE s') < engine_limit s') \<and>
    (engine_counted s' \<longleftrightarrow> strays cs s = 0)"
proof -
  have "se.drift 0 s" using assms(1) by (auto simp: se.drift_def engine_counted_def)
  from engine_run_drift [OF assms(2) this] show ?thesis by (auto simp: se.drift_def engine_counted_def)
qed

definition quiet_kernel :: "(syscall \<times> reply) list \<Rightarrow> syscall \<Rightarrow> reply" where
  "quiet_kernel tr c =
     \<lparr>r_ret = 0, r_errno = E_NONE, r_data = [], r_stat = \<lparr>st_kind = S_REG, st_size = 0, st_uid = 0\<rparr>,
      r_pair = (0, 0), r_events = [], r_sets = ([], [], [])\<rparr>"

definition io_new :: "engine_kind \<Rightarrow> io" where
  "io_new k = \<lparr>world = quiet_kernel, trace = [], errno = E_NONE, SE = engine_new k 8 8\<rparr>"

lemma io_new_counted [simp]: "engine_counted (io_new k)"
  by (simp add: engine_counted_def io_new_def engine_new_def)

definition io_script :: "engine_op list" where
  "io_script = [Op_Add (H_Conn 0) 5, Op_Want (H_Conn 0) 5, Op_Del (H_Conn 0) 5 False, Op_Del (H_Conn 1) 6 False]"

theorem engine_counted_run_witness:
  "\<not> engine_counted (the (engine_run io_script (io_new SelectEngine))) \<and>
   CurrentSetSize (SE (the (engine_run io_script (io_new SelectEngine)))) = - 1"
proof -
  have n: "strays io_script (io_new SelectEngine) = 1" by code_simp
  have z: "CurrentSetSize (SE (the (engine_run io_script (io_new SelectEngine)))) = - 1" by code_simp
  have "engine_run io_script (io_new SelectEngine) \<noteq> None" by code_simp
  then obtain s' where s': "engine_run io_script (io_new SelectEngine) = Some s'" by blast
  from engine_counted_run [OF io_new_counted s'] s' n z show ?thesis by simp
qed

text \<open>Registering succeeds only for a free descriptor and only while more than one slot
  is left, it then changes the table at that descriptor alone, and a failed registration changes
  neither the table nor the count; the same holds of removal.\<close>

theorem engine_table_contract:
  "(case AddFd eh fd s of None \<Rightarrow> True | Some (ok, s') \<Rightarrow>
      if ok then ref (SE s) fd = None \<and> ref (SE s') = (ref (SE s))(fd := Some eh) \<and> GetRemainingFds (SE s) > 1
      else ref (SE s') = ref (SE s) \<and> CurrentSetSize (SE s') = CurrentSetSize (SE s)) \<and>
   (case DelFd eh fd force s of None \<Rightarrow> True | Some (ok, s') \<Rightarrow>
      if ok then ref (SE s') = (ref (SE s))(fd := None)
      else ref (SE s') = ref (SE s) \<and> CurrentSetSize (SE s') = CurrentSetSize (SE s))"
proof (intro conjI)
  show "case AddFd eh fd s of None \<Rightarrow> True | Some (ok, s') \<Rightarrow>
      if ok then ref (SE s) fd = None \<and> ref (SE s') = (ref (SE s))(fd := Some eh) \<and> GetRemainingFds (SE s) > 1
      else ref (SE s') = ref (SE s) \<and> CurrentSetSize (SE s') = CurrentSetSize (SE s)"
  proof (cases "AddFd eh fd s")
    case (Some p)
    then show ?thesis using se.add_True [of eh fd s "snd p"] se.add_False [of eh fd s "snd p"]
      by (cases p; cases "fst p") (simp_all add: engine_limit_def GetRemainingFds_def)
  qed simp
  show "case DelFd eh fd force s of None \<Rightarrow> True | Some (ok, s') \<Rightarrow>
      if ok then ref (SE s') = (ref (SE s))(fd := None)
      else ref (SE s') = ref (SE s) \<and> CurrentSetSize (SE s') = CurrentSetSize (SE s)"
  proof (cases "DelFd eh fd force s")
    case (Some p)
    then show ?thesis using se.del_True [of eh fd force s "snd p"] se.del_False [of eh fd force s "snd p"]
      by (cases p; cases "fst p") simp_all
  qed simp
qed

text \<open>Claim C19: the bounds tests of the engines let the descriptor \<open>MAX_DESCRIPTORS\<close> itself
  through, one past the end of the table, and the call then reads outside of it.\<close>

theorem engine_bounds_off_by_one:
  assumes "fd = MAX_DESCRIPTORS (SE s)" and "0 \<le> fd"
  shows "BoundsCheckFd fd s \<and> HasFd fd s = None \<and> GetRef fd s = None \<and>
    (GetRemainingFds (SE s) > 1 \<longrightarrow> AddFd eh fd s = None)"
  using assms
  by (cases "engine_kind (SE s)")
    (auto simp: BoundsCheckFd_def HasFd_def GetRef_def ref_at_def AddFd_def engine_defs GetRemainingFds_def GetMaxFds_def)

theorem engine_bounds_off_by_one_witness:
  "HasFd 8 (io_new SelectEngine) = None \<and> AddFd (H_Conn 0) 8 (io_new SelectEngine) = None"
  using engine_bounds_off_by_one [of 8 "io_new SelectEngine" "H_Conn 0"]
  by (simp add: io_new_def engine_new_def GetRemainingFds_def GetMaxFds_def)

end
