(* ===== verification/Logger.thy ===== *)
theory Logger
  imports SocketEngines
begin

text \<open>
  The log file (\<open>src/filelogger.cpp\<close>): \<open>FileLogger\<close> writes through a buffer of its own and asks the
  socket engine to be called when the file can be written again. \<open>log_fd\<close> is \<open>None\<close> for a null
  pointer; the engine knows the file by its descriptor.
\<close>

record file_logger =
  log_fd :: "int option"
  log_buffer :: string
  writeops :: int

text \<open>The constructor: the file does not block.\<close>

definition FileLogger_new :: "int option \<Rightarrow> 'a io_scheme \<Rightarrow> file_logger \<times> 'a io_scheme" where
  "FileLogger_new logfile s =
     (\<lparr>log_fd = logfile, log_buffer = [], writeops = 0\<rparr>,
      (case logfile of None \<Rightarrow> s | Some sk \<Rightarrow> snd (NonBlocking sk s)))"

text \<open>\<open>fprintf\<close> of a C string; a negative result sets \<open>errno\<close>. \<open>if (writeops++ % 20)\<close> flushes in all
  rounds but every twentieth.\<close>

definition WriteLogLine :: "string \<Rightarrow> file_logger \<times> 'a io_scheme \<Rightarrow> (file_logger \<times> 'a io_scheme) option" where
  "WriteLogLine line st = (case st of (g, s) \<Rightarrow>
     let buf = log_buffer g @ line; g0 = g\<lparr>log_buffer := buf\<rparr> in
     (case log_fd g of
        None \<Rightarrow> Some (g0, s)
      | Some sk \<Rightarrow>
          (case syscall (Sys_fprintf (c_str buf)) s of (r, s1) \<Rightarrow> do {
             let written = r_ret r;
             (g1, s2) \<leftarrow>
               (if written \<ge> 0 \<and> written < int (length buf) then do {
                  (_, s2) \<leftarrow> AddFd H_Log sk s1;
                  Some (g0\<lparr>log_buffer := []\<rparr>, s2)
                } else if written = - 1 then
                  (if errno s1 = EAGAIN then do { (_, s2) \<leftarrow> AddFd H_Log sk s1; Some (g0, s2) } else Some (g0, s1))
                else Some (g0\<lparr>log_buffer := []\<rparr>, s1));
             let s3 = (if writeops g1 mod 20 \<noteq> 0 then snd (syscall Sys_fflush s2) else s2);
             Some (g1\<lparr>writeops := writeops g1 + 1\<rparr>, s3)
           })))"

text \<open>\<open>HandleEvent\<close>, the same for every event.\<close>

definition FileLogger_HandleEvent :: "file_logger \<times> 'a io_scheme \<Rightarrow> (file_logger \<times> 'a io_scheme) option" where
  "FileLogger_HandleEvent st = do {
     (g, s) \<leftarrow> WriteLogLine [] st;
     (case log_fd g of
        None \<Rightarrow> Some (g, s)
      | Some sk \<Rightarrow> do { (_, s1) \<leftarrow> DelFd H_Log sk False s; Some (g, s1) })
   }"

text \<open>\<open>Blocking\<close> takes the flag off only if it was set: it is an exclusive or.\<close>

definition Blocking :: "int \<Rightarrow> 'a io_scheme \<Rightarrow> int \<times> 'a io_scheme" where
  "Blocking sk s =
     (case syscall (Sys_getfl sk) s of (flags, s1) \<Rightarrow>
        case syscall (Sys_setfl_block sk (r_ret flags)) s1 of (r, s2) \<Rightarrow> (r_ret r, s2))"

text \<open>\<open>Close\<close>: the pointer to the file stays set, so that nothing stops a second call from using it.\<close>

definition FileLogger_Close :: "file_logger \<times> 'a io_scheme \<Rightarrow> (file_logger \<times> 'a io_scheme) option" where
  "FileLogger_Close st = (case st of (g, s) \<Rightarrow>
     (case log_fd g of
        None \<Rightarrow> Some (g\<lparr>log_buffer := []\<rparr>, s)
      | Some sk \<Rightarrow> do {
          let s1 = snd (Blocking sk s);
          let s2 = (if log_buffer g \<noteq> [] then snd (syscall (Sys_fprintf (c_str (log_buffer g))) s1) else s1);
          has \<leftarrow> HasFd sk s2;
          s3 \<leftarrow> (if has then do { (_, s3) \<leftarrow> DelFd H_Log sk False s2; Some s3 } else Some s2);
          let s4 = snd (syscall Sys_fflush s3);
          Some (g\<lparr>log_buffer := []\<rparr>, snd (syscall (Sys_fclose []) s4))
        }))"

section \<open>What is lost\<close>

text \<open>When the file takes only a part of what is printed, the rest of the line is thrown away.\<close>

lemma partial_write_loses:
  assumes "log_fd g = Some sk" and "syscall (Sys_fprintf (c_str (log_buffer g @ line))) s = (r, s1)"
    and "0 \<le> r_ret r" and "r_ret r < int (length (log_buffer g @ line))"
    and "WriteLogLine line (g, s) = Some (g', s')"
  shows "log_buffer g' = []"
  using assms by (auto simp: WriteLogLine_def Let_def split: bind_splits)

text \<open>A line that the file takes whole, or that it refuses for now, is not lost.\<close>

lemma full_write_keeps:
  assumes "log_fd g = Some sk" and "syscall (Sys_fprintf (c_str (log_buffer g @ line))) s = (r, s1)"
    and "WriteLogLine line (g, s) = Some (g', s')"
    and "r_ret r = - 1"
  shows "log_buffer g' = log_buffer g @ line"
  using assms by (auto simp: WriteLogLine_def Let_def split: bind_splits if_splits)

end
