(* ===== verification/Headers.thy ===== *)
theory Headers
  imports OrderedMap Hashcomp
begin

text \<open>
  \<open>HTTPHeaders\<close> (\<open>include/connections.h\<close>), the case-insensitive header map of a request or a
  response, and \<open>MimeManager\<close> (\<open>src/mimetypes.cpp\<close>), the content type of a file extension.
  Both are \<open>std::map\<close>s, so both rest on the laws of the locale \<open>dictionary\<close>.
\<close>

section \<open>HTTP headers\<close>

type_synonym headers = "(string \<times> string) list"

definition SetHeader :: "string \<Rightarrow> string \<Rightarrow> headers \<Rightarrow> headers" where
  "SetHeader name dat hs = om_insert StrCaseLess name dat hs"

definition IsSet :: "string \<Rightarrow> headers \<Rightarrow> bool" where
  "IsSet name hs = (om_find StrCaseLess name hs \<noteq> None)"

definition CreateHeader :: "string \<Rightarrow> string \<Rightarrow> headers \<Rightarrow> headers" where
  "CreateHeader name dat hs = (if \<not> IsSet name hs then SetHeader name dat hs else hs)"

definition RemoveHeader :: "string \<Rightarrow> headers \<Rightarrow> headers" where
  "RemoveHeader name hs = om_erase StrCaseLess name hs"

definition Headers_Clear :: "headers \<Rightarrow> headers" where
  "Headers_Clear hs = []"

definition GetHeader :: "string \<Rightarrow> headers \<Rightarrow> string" where
  "GetHeader name hs = (case om_find StrCaseLess name hs of None \<Rightarrow> [] | Some v \<Rightarrow> v)"

definition GetFormattedHeaders :: "headers \<Rightarrow> string" where
  "GetFormattedHeaders hs = foldl (\<lambda>re (k, v). re @ (k @ '': '' @ v @ CRLF)) [] hs"

text \<open>\<open>strcasecmp(a, b) == 0\<close>.\<close>

definition strcaseeq :: "string \<Rightarrow> string \<Rightarrow> bool" where
  "strcaseeq a b \<longleftrightarrow> map tolower_c a = map tolower_c b"

definition headers_ok :: "headers \<Rightarrow> bool" where
  "headers_ok = ci.om_inv"

lemma headers_ok_simps [simp]:
  "headers_ok []" "headers_ok hs \<Longrightarrow> headers_ok (SetHeader n d hs)"
  "headers_ok hs \<Longrightarrow> headers_ok (CreateHeader n d hs)" "headers_ok hs \<Longrightarrow> headers_ok (RemoveHeader n hs)"
  "headers_ok (Headers_Clear hs)"
  by (simp_all add: headers_ok_def SetHeader_def CreateHeader_def RemoveHeader_def Headers_Clear_def
      ci.om.inv_ins ci.om.inv_del)

lemma IsSet_SetHeader [simp]:
  "headers_ok hs \<Longrightarrow> IsSet n (SetHeader m d hs) \<longleftrightarrow> strcaseeq m n \<or> IsSet n hs"
  by (simp add: IsSet_def SetHeader_def headers_ok_def ci.om.fnd_ins ci_key_eq strcaseeq_def)

lemma GetHeader_SetHeader [simp]:
  "headers_ok hs \<Longrightarrow> GetHeader n (SetHeader m d hs) = (if strcaseeq m n then d else GetHeader n hs)"
  by (simp add: GetHeader_def SetHeader_def headers_ok_def ci.om.fnd_ins ci_key_eq strcaseeq_def)

lemma GetHeader_RemoveHeader [simp]:
  "headers_ok hs \<Longrightarrow> GetHeader n (RemoveHeader m hs) = (if strcaseeq m n then [] else GetHeader n hs)"
  by (simp add: GetHeader_def RemoveHeader_def headers_ok_def ci.om.fnd_del ci_key_eq strcaseeq_def)

lemma IsSet_RemoveHeader [simp]:
  "headers_ok hs \<Longrightarrow> IsSet n (RemoveHeader m hs) \<longleftrightarrow> \<not> strcaseeq m n \<and> IsSet n hs"
  by (simp add: IsSet_def RemoveHeader_def headers_ok_def ci.om.fnd_del ci_key_eq strcaseeq_def)

lemma GetFormattedHeaders_concat:
  "GetFormattedHeaders hs = concat (map (\<lambda>(k, v). k @ '': '' @ v @ CRLF) hs)"
proof -
  have "foldl (\<lambda>re (k, v). re @ (k @ '': '' @ v @ CRLF)) acc hs =
        acc @ concat (map (\<lambda>(k, v). k @ '': '' @ v @ CRLF) hs)" for acc
    by (induction hs arbitrary: acc) (auto simp: split_def)
  then show ?thesis by (simp add: GetFormattedHeaders_def)
qed

section \<open>The header block of a request, as \<open>CheckRequest\<close> reads one line of it\<close>

text \<open>One header line (without its line end) that is not the request line: the value starts two
  bytes after the colon. \<open>None\<close> is the answer 400.\<close>

definition header_line :: "string \<Rightarrow> headers \<Rightarrow> headers option" where
  "header_line cheader hs =
     (case find_char (CHR '':'') cheader of
        None \<Rightarrow> None
      | Some fieldsep \<Rightarrow>
          if fieldsep = 0 \<or> fieldsep = length cheader - 1 then None
          else Some (SetHeader (take fieldsep cheader) (drop (fieldsep + 2) cheader) hs))"

lemma header_line_ok [simp]: "header_line l hs = Some hs' \<Longrightarrow> headers_ok hs \<Longrightarrow> headers_ok hs'"
  by (auto simp: header_line_def split: option.splits if_splits)

lemma header_line_format:
  "k \<noteq> [] \<Longrightarrow> CHR '':'' \<notin> set k \<Longrightarrow> header_line (k @ '': '' @ v) hs = Some (SetHeader k v hs)"
  by (simp add: header_line_def find_char_append)

lemma om_insert_last:
  "headers_ok (hs @ [(k, v)]) \<Longrightarrow> SetHeader k v hs = hs @ [(k, v)]"
  by (induction hs) (auto simp: SetHeader_def headers_ok_def)

lemma headers_ok_prefix: "headers_ok (hs @ hs') \<Longrightarrow> headers_ok hs"
  by (simp add: headers_ok_def ci.om_inv_def sorted_wrt_append)

text \<open>Header names are matched without regard to case: the value read under any spelling
  of a name is the one last set under any spelling of it, removal hides it, and the creation of a
  default never overwrites a value that is present.\<close>

theorem headers_case_insensitive:
  assumes "headers_ok hs" and "strcaseeq n m"
  shows "GetHeader m (SetHeader n d hs) = d \<and> \<not> IsSet m (RemoveHeader n hs) \<and>
    GetHeader m (CreateHeader n d hs) = (if IsSet m hs then GetHeader m hs else d)"
proof -
  have "IsSet n hs = IsSet m hs"
    using assms(2) ci.om_find_cong [of n m hs] by (simp add: IsSet_def strcaseeq_def ci_key_eq)
  with assms show ?thesis by (simp add: CreateHeader_def)
qed

theorem headers_case_insensitive_witness:
  "GetHeader ''content-length'' (SetHeader ''Content-Length'' ''7'' [(''Host'', ''a'')]) = ''7''"
proof -
  have "headers_ok [(''Host'', ''a'')]" by (simp add: headers_ok_def)
  moreover have "strcaseeq ''Content-Length'' ''content-length''" by code_simp
  ultimately show ?thesis
    using headers_case_insensitive [of "[(''Host'', ''a'')]" "''Content-Length''" "''content-length''" "''7''"] by simp
qed

section \<open>Content types\<close>

type_synonym mimetypes = "(string \<times> string) list"

definition AddType :: "string \<Rightarrow> string \<Rightarrow> mimetypes \<Rightarrow> mimetypes" where
  "AddType ext type mt = om_insert str_less ext type mt"

definition GetType :: "string \<Rightarrow> mimetypes \<Rightarrow> string" where
  "GetType ext mt = (case om_find str_less ext mt of None \<Rightarrow> [] | Some t \<Rightarrow> t)"

text \<open>The table the constructor of \<open>InspIRCd\<close> fills in.\<close>

definition builtin_types :: mimetypes where
  "builtin_types =
     (AddType ''html'' ''text/html'' \<circ> AddType ''htm'' ''text/html'' \<circ> AddType ''php'' ''text/html'' \<circ>
      AddType ''css'' ''text/html'' \<circ> AddType ''gif'' ''image/gif'' \<circ> AddType ''jpg'' ''image/jpeg'') []"

lemma GetType_AddType:
  "st.om_inv mt \<Longrightarrow> GetType e (AddType e' t mt) = (if e = e' then t else GetType e mt)"
  by (simp add: GetType_def AddType_def st.om.fnd_ins eq_commute)

lemma AddType_inv [simp]: "st.om_inv mt \<Longrightarrow> st.om_inv (AddType e t mt)"
  by (simp add: AddType_def st.om.inv_ins)

text \<open>The built-in table answers for exactly six extensions, compared byte by byte
  (so in the case given), and it serves style sheets as HTML.\<close>

theorem builtin_types_table:
  "GetType e builtin_types =
     (if e = ''jpg'' then ''image/jpeg'' else if e = ''gif'' then ''image/gif''
      else if e \<in> {''css'', ''php'', ''htm'', ''html''} then ''text/html'' else [])"
  by (simp add: builtin_types_def GetType_AddType) (simp add: GetType_def)

end
