(* ===== verification/ModuleManager.thy ===== *)
theory ModuleManager
  imports OrderedMap Numeric Wildcard
begin

text \<open>
  \<open>ModuleManager\<close> (\<open>src/modules.cpp\<close>, \<open>include/modules.h\<close>): which modules hear of which event, their
  order, the features and interfaces they publish, loading and unloading. A module is a value of
  an arbitrary type, compared as the code compares pointers. What the dynamic linker does with a
  module file, the modules' constructors and their virtual functions are parameters.
\<close>

text \<open>\<open>enum Implementation\<close>, without its two markers.\<close>

datatype hook =
    I_OnConnectionConnect | I_OnConnectionDisconnect | I_OnGracefulShutdown
  | I_OnCleanup | I_OnLoadModule | I_OnUnloadModule
  | I_OnBackgroundTimer
  | I_OnEvent | I_OnRequest
  | I_OnRawSocketAccept | I_OnRawSocketClose | I_OnRawSocketWrite | I_OnRawSocketRead
  | I_OnRawSocketConnect | I_OnGarbageCollect | I_OnBufferFlushed
  | I_OnPreRequest

definition all_hooks :: "hook list" where
  "all_hooks = [I_OnConnectionConnect, I_OnConnectionDisconnect, I_OnGracefulShutdown,
     I_OnCleanup, I_OnLoadModule, I_OnUnloadModule, I_OnBackgroundTimer, I_OnEvent, I_OnRequest,
     I_OnRawSocketAccept, I_OnRawSocketClose, I_OnRawSocketWrite, I_OnRawSocketRead,
     I_OnRawSocketConnect, I_OnGarbageCollect, I_OnBufferFlushed, I_OnPreRequest]"

lemma all_hooks_set [simp]: "set all_hooks = UNIV"
  by (auto simp: all_hooks_def) (metis hook.exhaust)

record 'm module_manager =
  LastModuleError :: string
  Features :: "(string \<times> 'm) list"
  Interfaces :: "(string \<times> (int \<times> 'm list)) list"
  ModCount :: int
  Modules :: "(string \<times> 'm) list"
  EventHandlers :: "hook \<Rightarrow> 'm list"

definition ModuleManager_new :: "'m module_manager" where
  "ModuleManager_new = \<lparr>LastModuleError = [], Features = [], Interfaces = [], ModCount = 0, Modules = [], EventHandlers = (\<lambda>_. [])\<rparr>"

lemma ModuleManager_new_sel [simp]:
  "Features ModuleManager_new = []" "Interfaces ModuleManager_new = []" "Modules ModuleManager_new = []"
  "EventHandlers ModuleManager_new = (\<lambda>_. [])" "ModCount ModuleManager_new = 0"
  by (simp_all add: ModuleManager_new_def)

section \<open>Event handlers\<close>

definition Attach :: "hook \<Rightarrow> 'm \<Rightarrow> 'm module_manager \<Rightarrow> bool \<times> 'm module_manager" where
  "Attach i md mm =
     (if md \<in> set (EventHandlers mm i) then (False, mm)
      else (True, mm\<lparr>EventHandlers := (EventHandlers mm)(i := EventHandlers mm i @ [md])\<rparr>))"

definition Detach :: "hook \<Rightarrow> 'm \<Rightarrow> 'm module_manager \<Rightarrow> bool \<times> 'm module_manager" where
  "Detach i md mm =
     (if md \<in> set (EventHandlers mm i)
      then (True, mm\<lparr>EventHandlers := (EventHandlers mm)(i := remove1 md (EventHandlers mm i))\<rparr>)
      else (False, mm))"

definition AttachAll :: "hook list \<Rightarrow> 'm \<Rightarrow> 'm module_manager \<Rightarrow> 'm module_manager" where
  "AttachAll is md mm = fold (\<lambda>i mm. snd (Attach i md mm)) is mm"

definition DetachAll :: "'m \<Rightarrow> 'm module_manager \<Rightarrow> 'm module_manager" where
  "DetachAll md mm = fold (\<lambda>i mm. snd (Detach i md mm)) all_hooks mm"

section \<open>Priorities\<close>

datatype PriorityState = PRIO_DONTCARE | PRIO_FIRST | PRIO_LAST | PRIO_AFTER | PRIO_BEFORE

fun find_index :: "'a \<Rightarrow> 'a list \<Rightarrow> nat option" where
  "find_index a [] = None"
| "find_index a (x # xs) = (if x = a then Some 0 else map_option Suc (find_index a xs))"

text \<open>The inner loops of \<open>PRIO_AFTER\<close> and \<open>PRIO_BEFORE\<close>, over the array \<open>modules\<close>, whose entries may be
  null, at position \<open>x\<close> of the vector; the state is \<open>(swap_pos, swap)\<close>.\<close>

fun prio_after :: "nat \<Rightarrow> nat \<Rightarrow> 'm \<Rightarrow> 'm option list \<Rightarrow> nat \<times> bool \<Rightarrow> nat \<times> bool" where
  "prio_after src x h [] ps = ps"
| "prio_after src x h (m # ms) (swap_pos, swap) =
     prio_after src x h ms (if m = Some h \<and> x \<ge> swap_pos \<and> src \<le> swap_pos then (x, True) else (swap_pos, swap))"

fun prio_before :: "nat \<Rightarrow> nat \<Rightarrow> 'm \<Rightarrow> 'm option list \<Rightarrow> nat \<times> bool \<Rightarrow> nat \<times> bool" where
  "prio_before src x h [] ps = ps"
| "prio_before src x h (m # ms) (swap_pos, swap) =
     prio_before src x h ms (if m = Some h \<and> x \<le> swap_pos \<and> src \<ge> swap_pos then (x, True) else (swap_pos, swap))"

text \<open>The outer loops, from position \<open>x\<close> on.\<close>

fun prio_scan :: "(nat \<Rightarrow> 'm \<Rightarrow> nat \<times> bool \<Rightarrow> nat \<times> bool) \<Rightarrow> nat \<Rightarrow> 'm list \<Rightarrow> nat \<times> bool \<Rightarrow> nat \<times> bool" where
  "prio_scan f x [] ps = ps"
| "prio_scan f x (h # hs) ps = prio_scan f (x + 1) hs (f x h ps)"

definition list_swap :: "nat \<Rightarrow> nat \<Rightarrow> 'a list \<Rightarrow> 'a list" where
  "list_swap i j xs = xs[i := xs ! j, j := xs ! i]"

text \<open>\<open>modules\<close> is \<open>None\<close> for the null pointer that is the default argument, with one entry that must not
  be read; then \<open>PRIO_AFTER\<close> and \<open>PRIO_BEFORE\<close> are undefined.\<close>

definition prio_target :: "PriorityState \<Rightarrow> nat \<Rightarrow> 'm option list option \<Rightarrow> 'm list \<Rightarrow> (nat \<times> bool) option" where
  "prio_target st src modules hs =
     (case st of
        PRIO_DONTCARE \<Rightarrow> Some (0, False)
      | PRIO_FIRST \<Rightarrow> Some (0, True)
      | PRIO_LAST \<Rightarrow> Some (if hs = [] then 0 else length hs - 1, True)
      | PRIO_AFTER \<Rightarrow> map_option (\<lambda>ms. prio_scan (\<lambda>x h. prio_after src x h ms) 0 hs (0, False)) modules
      | PRIO_BEFORE \<Rightarrow> map_option (\<lambda>ms. prio_scan (\<lambda>x h. prio_before src x h ms) 0 hs (length hs - 1, False)) modules)"

definition SetPriority :: "'m \<Rightarrow> hook \<Rightarrow> PriorityState \<Rightarrow> 'm option list option \<Rightarrow> 'm module_manager \<Rightarrow>
  (bool \<times> 'm module_manager) option"
where
  "SetPriority md i st modules mm =
     (let hs = EventHandlers mm i in
      case find_index md hs of
        None \<Rightarrow> Some (False, mm)
      | Some src \<Rightarrow> do {
          (swap_pos, swap) \<leftarrow> prio_target st src modules hs;
          Some (True, if swap \<and> swap_pos \<noteq> src
                      then mm\<lparr>EventHandlers := (EventHandlers mm)(i := list_swap swap_pos src hs)\<rparr> else mm)
        })"

text \<open>The overload for all events; it returns true whatever happened.\<close>

fun set_priorities :: "'m \<Rightarrow> PriorityState \<Rightarrow> hook list \<Rightarrow> 'm module_manager \<Rightarrow> 'm module_manager option" where
  "set_priorities md st [] mm = Some mm"
| "set_priorities md st (i # is) mm = do { (_, mm') \<leftarrow> SetPriority md i st None mm; set_priorities md st is mm' }"

definition SetPriority_all :: "'m \<Rightarrow> PriorityState \<Rightarrow> 'm module_manager \<Rightarrow> (bool \<times> 'm module_manager) option" where
  "SetPriority_all md st mm = map_option (Pair True) (set_priorities md st all_hooks mm)"

section \<open>Features and interfaces\<close>

definition PublishFeature :: "string \<Rightarrow> 'm \<Rightarrow> 'm module_manager \<Rightarrow> bool \<times> 'm module_manager" where
  "PublishFeature name md mm =
     (case om_find str_less name (Features mm) of
        None \<Rightarrow> (True, mm\<lparr>Features := om_insert str_less name md (Features mm)\<rparr>)
      | Some _ \<Rightarrow> (False, mm))"

definition UnpublishFeature :: "string \<Rightarrow> 'm module_manager \<Rightarrow> bool \<times> 'm module_manager" where
  "UnpublishFeature name mm =
     (case om_find str_less name (Features mm) of
        None \<Rightarrow> (False, mm)
      | Some _ \<Rightarrow> (True, mm\<lparr>Features := om_erase str_less name (Features mm)\<rparr>))"

definition FindFeature :: "string \<Rightarrow> 'm module_manager \<Rightarrow> 'm option" where
  "FindFeature name mm = om_find str_less name (Features mm)"

definition PublishInterface :: "string \<Rightarrow> 'm \<Rightarrow> 'm module_manager \<Rightarrow> bool \<times> 'm module_manager" where
  "PublishInterface name md mm =
     (case om_find str_less name (Interfaces mm) of
        None \<Rightarrow> (True, mm\<lparr>Interfaces := om_insert str_less name (0, [md]) (Interfaces mm)\<rparr>)
      | Some (n, ml) \<Rightarrow> (True, mm\<lparr>Interfaces := om_insert str_less name (n, ml @ [md]) (Interfaces mm)\<rparr>))"

definition UnpublishInterface :: "string \<Rightarrow> 'm \<Rightarrow> 'm module_manager \<Rightarrow> bool \<times> 'm module_manager" where
  "UnpublishInterface name md mm =
     (case om_find str_less name (Interfaces mm) of
        None \<Rightarrow> (False, mm)
      | Some (n, ml) \<Rightarrow>
          if md \<in> set ml then
            let ml' = remove1 md ml in
            (True, mm\<lparr>Interfaces := (if ml' = [] then om_erase str_less name (Interfaces mm)
                                    else om_insert str_less name (n, ml') (Interfaces mm))\<rparr>)
          else (False, mm))"

definition FindInterface :: "string \<Rightarrow> 'm module_manager \<Rightarrow> 'm list option" where
  "FindInterface name mm = map_option snd (om_find str_less name (Interfaces mm))"

definition count_interface :: "int \<Rightarrow> string \<Rightarrow> 'm module_manager \<Rightarrow> 'm module_manager" where
  "count_interface d name mm =
     (case om_find str_less name (Interfaces mm) of
        None \<Rightarrow> mm
      | Some (n, ml) \<Rightarrow> mm\<lparr>Interfaces := om_insert str_less name (n + d, ml) (Interfaces mm)\<rparr>)"

definition UseInterface :: "string \<Rightarrow> 'm module_manager \<Rightarrow> 'm module_manager" where
  "UseInterface name mm = count_interface 1 name mm"

definition DoneWithInterface :: "string \<Rightarrow> 'm module_manager \<Rightarrow> 'm module_manager" where
  "DoneWithInterface name mm = count_interface (- 1) name mm"

text \<open>Only the first interface that the module implements is looked at.\<close>

definition GetInterfaceInstanceCount :: "'m \<Rightarrow> 'm module_manager \<Rightarrow> int \<times> string" where
  "GetInterfaceInstanceCount md mm =
     (case filter (\<lambda>(name, n, ml). md \<in> set ml) (Interfaces mm) of
        [] \<Rightarrow> (0, [])
      | (name, n, ml) # _ \<Rightarrow> (n, name))"

definition GetModuleName :: "'m \<Rightarrow> 'm module_manager \<Rightarrow> string" where
  "GetModuleName md mm = (case filter (\<lambda>(name, m). m = md) (Modules mm) of [] \<Rightarrow> [] | (name, m) # _ \<Rightarrow> name)"

definition Module_Find :: "string \<Rightarrow> 'm module_manager \<Rightarrow> 'm option" where
  "Module_Find name mm = om_find str_less name (Modules mm)"

section \<open>Loading\<close>

definition VF_STATIC :: "int" where "VF_STATIC = 1"
definition VF_VENDOR :: "int" where "VF_VENDOR = 2"

record module_version =
  v_flags :: int
  v_api :: int

text \<open>What \<open>new ircd_module\<close> and \<open>CallInit\<close> come to: a module, a null pointer, or one of the exceptions
  \<open>Load\<close> catches.\<close>

datatype 'm init_result = I_Module 'm | I_Null | I_LoadError string | I_SymbolError string | I_CoreError string

text \<open>The virtual functions of the modules that the manager calls, and their destructors. Each may call the
  manager back, so each transforms its state; an event has the module that is told and the module and
  file it is told of. An exception of an event handler is caught and logged by the loop, so what the
  handler did until then is the transformation.\<close>

record 'm module_code =
  version_of :: "'m \<Rightarrow> module_version"
  on_load :: "'m \<Rightarrow> 'm \<Rightarrow> string \<Rightarrow> 'm module_manager \<Rightarrow> 'm module_manager"
  on_unload :: "'m \<Rightarrow> 'm \<Rightarrow> string \<Rightarrow> 'm module_manager \<Rightarrow> 'm module_manager"
  prioritize :: "'m \<Rightarrow> 'm module_manager \<Rightarrow> 'm module_manager"
  destroy :: "'m \<Rightarrow> 'm module_manager \<Rightarrow> 'm module_manager"

text \<open>The world that \<open>Load\<close> works in: \<open>ModPath\<close>, the size of its buffers, the tests of \<open>ServerConfig\<close> on
  files, the entries of the module directory (\<open>None\<close> if it cannot be opened), and the modules. A
  constructor may call the module manager, so \<open>call_init\<close> transforms its state; \<open>new_object\<close> is the
  object that it constructs.\<close>

record 'm loader = "'m module_code" +
  ld_path :: string
  ld_maxbuf :: nat
  ld_api :: int
  dir_valid :: "string \<Rightarrow> bool"
  file_exists :: "string \<Rightarrow> bool"
  dir_entries :: "string list option"
  new_object :: "string \<Rightarrow> 'm module_manager \<Rightarrow> 'm"
  call_init :: "string \<Rightarrow> 'm module_manager \<Rightarrow> 'm init_result \<times> 'm module_manager"

text \<open>\<open>FOREACH_MOD_I\<close>. It walks a vector, so a handler that changes the vector under the loop is
  undefined behaviour, \<open>None\<close>.\<close>

fun foreach_vector :: "hook \<Rightarrow> ('m \<Rightarrow> 'm module_manager \<Rightarrow> 'm module_manager) \<Rightarrow> 'm list \<Rightarrow> 'm module_manager \<Rightarrow>
  'm module_manager option"
where
  "foreach_vector i f [] mm = Some mm"
| "foreach_vector i f (h # hs) mm =
     (if EventHandlers (f h mm) i = EventHandlers mm i then foreach_vector i f hs (f h mm) else None)"

text \<open>The loop over the loaded modules at the end of \<open>Load\<close>; a \<open>Prioritize\<close> that loads or unloads modules
  itself is \<open>None\<close>, too.\<close>

fun prioritize_all :: "('m, 'b) module_code_scheme \<Rightarrow> (string \<times> 'm) list \<Rightarrow> 'm module_manager \<Rightarrow> 'm module_manager option" where
  "prioritize_all mc [] mm = Some mm"
| "prioritize_all mc (n # ns) mm =
     (if Modules (prioritize mc (snd n) mm) = Modules mm then prioritize_all mc ns (prioritize mc (snd n) mm) else None)"

definition mod_error :: "string \<Rightarrow> 'm module_manager \<Rightarrow> bool \<times> 'm module_manager" where
  "mod_error e mm = (False, mm\<lparr>LastModuleError := e\<rparr>)"

definition module_file :: "'m loader \<Rightarrow> string \<Rightarrow> string" where
  "module_file ld fname = take (ld_maxbuf ld - 1) (ld_path ld @ ''/'' @ fname)"

text \<open>The tests before a file is opened.\<close>

definition load_refusal :: "'m loader \<Rightarrow> string \<Rightarrow> 'm module_manager \<Rightarrow> string option" where
  "load_refusal ld fname mm =
     (if \<not> dir_valid ld (module_file ld fname) then Some (''Module '' @ fname @ '' is not within the modules directory.'')
      else if \<not> file_exists ld (module_file ld fname) then Some (''Module file could not be found: '' @ fname)
      else if om_find str_less fname (Modules mm) \<noteq> None then
        Some (''Module '' @ fname @ '' is already loaded, cannot load a module twice!'')
      else None)"

text \<open>What follows a successful construction: the module is entered, the others are told, and every module
  gets a chance to change its priorities.\<close>

definition load_commit :: "'m loader \<Rightarrow> string \<Rightarrow> 'm \<Rightarrow> 'm module_manager \<Rightarrow> (bool \<times> 'm module_manager) option" where
  "load_commit ld fname md mm = do {
     let mm1 = mm\<lparr>Modules := om_insert str_less fname md (Modules mm), ModCount := ModCount mm + 1\<rparr>;
     mm2 \<leftarrow> foreach_vector I_OnLoadModule (\<lambda>h. on_load ld h md fname) (EventHandlers mm1 I_OnLoadModule) mm1;
     mm3 \<leftarrow> prioritize_all ld (Modules mm2) mm2;
     Some (True, mm3)
   }"

text \<open>\<open>Load\<close> of one file. The pointer \<open>newmod\<close> is still null when the constructor has thrown, so the
  handlers' call \<open>DetachAll(newmod)\<close> finds nothing to detach: whatever the constructor attached stays
  in the tables.\<close>

definition load_one :: "'m loader \<Rightarrow> string \<Rightarrow> 'm module_manager \<Rightarrow> (bool \<times> 'm module_manager) option" where
  "load_one ld fname mm =
     (case load_refusal ld fname mm of
        Some e \<Rightarrow> Some (mod_error e mm)
      | None \<Rightarrow>
        (case call_init ld (module_file ld fname) mm of
           (I_Module md, mm1) \<Rightarrow>
             if v_api (version_of ld md) \<noteq> ld_api ld then
               Some (mod_error (''Unable to load '' @ fname @ '': Incorrect module API version: '' @ ConvNumeric (v_api (version_of ld md)) @
                 '' (our version: '' @ ConvNumeric (ld_api ld) @ '')'') (destroy ld md (DetachAll md mm1)))
             else load_commit ld fname md mm1
         | (I_Null, mm1) \<Rightarrow>
             Some (mod_error (''Unable to load '' @ fname @
               '': Probably missing init_module() entrypoint, but dlsym() didn'' @ [CHR 0x27] @ ''t notice a problem'') mm1)
         | (I_LoadError r, mm1) \<Rightarrow> Some (mod_error (''Unable to load '' @ fname @ '': Error when loading: '' @ r) mm1)
         | (I_SymbolError r, mm1) \<Rightarrow> Some (mod_error (''Unable to load '' @ fname @ '': Error finding symbol: '' @ r) mm1)
         | (I_CoreError r, mm1) \<Rightarrow> Some (mod_error (''Unable to load '' @ fname @ '': '' @ r) mm1)))"

definition has_glob :: "string \<Rightarrow> bool" where
  "has_glob s \<longleftrightarrow> CHR ''*'' \<in> set s \<or> CHR ''?'' \<in> set s"

text \<open>The loop over a directory; \<open>n\<close> is \<open>n_match\<close>. The matcher cannot fail (\<open>match_ci_correct\<close>).\<close>

fun load_matching :: "(string \<Rightarrow> 'm module_manager \<Rightarrow> (bool \<times> 'm module_manager) option) \<Rightarrow> string \<Rightarrow> string list \<Rightarrow>
  nat \<Rightarrow> 'm module_manager \<Rightarrow> (nat \<times> 'm module_manager) option"
where
  "load_matching ldf pat [] n mm = Some (n, mm)"
| "load_matching ldf pat (e # es) n mm = do {
     hit \<leftarrow> match_ci e pat;
     if hit then do { (ok, mm') \<leftarrow> ldf e mm; load_matching ldf pat es (if ok then n else n + 1) mm' }
     else load_matching ldf pat es n mm
   }"

text \<open>A pattern loads every entry that matches, and an entry may be a pattern itself, so the recursion has
  fuel; a name without wild cards needs one unit.\<close>

fun Load :: "nat \<Rightarrow> 'm loader \<Rightarrow> string \<Rightarrow> 'm module_manager \<Rightarrow> (bool \<times> 'm module_manager) option" where
  "Load 0 ld fname mm = None"
| "Load (Suc k) ld fname mm =
     (if has_glob fname then
        (case dir_entries ld of
           None \<Rightarrow> Some (False, mm)
         | Some es \<Rightarrow> do { (n, mm') \<leftarrow> load_matching (Load k ld) fname es 0 mm; Some (n > 0, mm') })
      else load_one ld fname mm)"

definition Unload :: "('m, 'b) module_code_scheme \<Rightarrow> string \<Rightarrow> 'm module_manager \<Rightarrow> (bool \<times> 'm module_manager) option" where
  "Unload mc fname mm =
     (case om_find str_less fname (Modules mm) of
        None \<Rightarrow> Some (mod_error (''Module '' @ fname @ '' is not loaded, cannot unload it!'') mm)
      | Some md \<Rightarrow>
          if odd (v_flags (version_of mc md)) then
            Some (mod_error (''Module '' @ fname @ '' not unloadable (marked static)'') mm)
          else
            (case GetInterfaceInstanceCount md mm of (n, iface) \<Rightarrow>
               if n > 0 then
                 Some (mod_error (''Failed to unload module '' @ fname @ '', being used by '' @ ConvNumeric n @
                   '' other(s) via interface '' @ [CHR 0x27] @ iface @ [CHR 0x27]) mm)
               else do {
                 mm1 \<leftarrow> foreach_vector I_OnUnloadModule (\<lambda>h. on_unload mc h md fname) (EventHandlers mm I_OnUnloadModule) mm;
                 let mm2 = DetachAll md mm1;
                 let mm3 = destroy mc md mm2;
                 Some (True, mm3\<lparr>Modules := om_erase str_less fname (Modules mm3), ModCount := ModCount mm3 - 1\<rparr>)
               }))"

text \<open>\<open>GetAllModuleNames\<close>; the filter is a set of flags, 0 for all.\<close>

definition GetAllModuleNames :: "('m \<Rightarrow> module_version) \<Rightarrow> int \<Rightarrow> 'm module_manager \<Rightarrow> string list" where
  "GetAllModuleNames ver flt mm = map fst (filter (\<lambda>(name, md). flt = 0 \<or> and (v_flags (ver md)) flt \<noteq> 0) (Modules mm))"

text \<open>\<open>LoadAll\<close> over the names of the configuration; \<open>None\<close> is \<open>Exit(EXIT_STATUS_MODULE)\<close> or a pattern that
  recurses for ever.\<close>

fun load_names :: "nat \<Rightarrow> 'm loader \<Rightarrow> string list \<Rightarrow> 'm module_manager \<Rightarrow> 'm module_manager option" where
  "load_names k ld [] mm = Some mm"
| "load_names k ld (f # fs) mm = do { (ok, mm') \<leftarrow> Load k ld f mm; if ok then load_names k ld fs mm' else None }"

definition LoadAll :: "nat \<Rightarrow> 'm loader \<Rightarrow> string list \<Rightarrow> 'm module_manager \<Rightarrow> 'm module_manager option" where
  "LoadAll k ld names mm = load_names k ld names (mm\<lparr>ModCount := - 1\<rparr>)"

section \<open>The tables of handlers\<close>

lemma Attach_handlers: "EventHandlers (snd (Attach i md mm)) j =
    (if j = i \<and> md \<notin> set (EventHandlers mm i) then EventHandlers mm i @ [md] else EventHandlers mm j)"
  by (simp add: Attach_def)

lemma Detach_handlers: "EventHandlers (snd (Detach i md mm)) j =
    (if j = i then remove1 md (EventHandlers mm i) else EventHandlers mm j)"
  by (simp add: Detach_def remove1_idem)

lemma Detach_shape: "snd (Detach i md mm) = mm\<lparr>EventHandlers := EventHandlers (snd (Detach i md mm))\<rparr>"
  by (simp add: Detach_def)

lemma fold_Detach:
  "distinct is \<Longrightarrow> fold (\<lambda>i mm. snd (Detach i md mm)) is mm =
     mm\<lparr>EventHandlers := (\<lambda>j. if j \<in> set is then remove1 md (EventHandlers mm j) else EventHandlers mm j)\<rparr>"
proof (induction "is" arbitrary: mm)
  case (Cons i "is")
  have "fold (\<lambda>i mm. snd (Detach i md mm)) (i # is) mm =
      (snd (Detach i md mm))\<lparr>EventHandlers := (\<lambda>j. if j \<in> set is then remove1 md (EventHandlers (snd (Detach i md mm)) j)
        else EventHandlers (snd (Detach i md mm)) j)\<rparr>"
    using Cons by simp
  also have "\<dots> = mm\<lparr>EventHandlers := (\<lambda>j. if j \<in> set (i # is) then remove1 md (EventHandlers mm j) else EventHandlers mm j)\<rparr>"
    by (subst Detach_shape) (use Cons.prems in \<open>auto simp: Detach_handlers fun_eq_iff\<close>)
  finally show ?case .
qed simp

lemma DetachAll_eq: "DetachAll md mm = mm\<lparr>EventHandlers := (\<lambda>j. remove1 md (EventHandlers mm j))\<rparr>"
proof -
  have "distinct all_hooks" by (simp add: all_hooks_def)
  from fold_Detach [OF this, of md mm] show ?thesis by (simp add: DetachAll_def)
qed

lemma AttachAll_shape: "AttachAll is md mm = mm\<lparr>EventHandlers := EventHandlers (AttachAll is md mm)\<rparr>"
  unfolding AttachAll_def
proof (induction "is" arbitrary: mm)
  case (Cons i "is")
  have "snd (Attach i md mm) = mm\<lparr>EventHandlers := EventHandlers (snd (Attach i md mm))\<rparr>" by (simp add: Attach_def)
  with Cons [of "snd (Attach i md mm)"] show ?case
    by (metis (no_types, lifting) fold_simps(2) module_manager.surjective module_manager.update_convs(6))
qed simp

text \<open>A module hears, after \<open>AttachAll\<close>, of the events asked for, after everybody else, unless it did
  before.\<close>

lemma AttachAll_handlers:
  "EventHandlers (AttachAll is md mm) j = EventHandlers mm j @ (if j \<in> set is \<and> md \<notin> set (EventHandlers mm j) then [md] else [])"
  unfolding AttachAll_def by (induction "is" arbitrary: mm) (auto simp: Attach_handlers)

section \<open>What is relied on of the modules\<close>

text \<open>A handler of the two events may call the manager for itself and for other loaded modules, but does
  not load or unload; \<open>Prioritize\<close> changes priorities, which reorders handlers; a destructor may
  withdraw features and interfaces, but nobody else's handlers.\<close>

definition tells :: "'m module_manager \<Rightarrow> 'm module_manager \<Rightarrow> bool" where
  "tells mm mm' \<longleftrightarrow> Modules mm' = Modules mm \<and> ModCount mm' = ModCount mm \<and>
     (\<forall>j. (distinct (EventHandlers mm j) \<longrightarrow> distinct (EventHandlers mm' j)) \<and>
       set (EventHandlers mm' j) \<subseteq> set (EventHandlers mm j) \<union> snd ` set (Modules mm))"

definition reorders :: "'m module_manager \<Rightarrow> 'm module_manager \<Rightarrow> bool" where
  "reorders mm mm' \<longleftrightarrow> Modules mm' = Modules mm \<and> ModCount mm' = ModCount mm \<and>
     (\<forall>j. mset (EventHandlers mm' j) = mset (EventHandlers mm j))"

definition lawful_code :: "('m, 'b) module_code_scheme \<Rightarrow> bool" where
  "lawful_code mc \<longleftrightarrow>
     (\<forall>h md f mm. tells mm (on_load mc h md f mm) \<and> tells mm (on_unload mc h md f mm)) \<and>
     (\<forall>md mm. reorders mm (prioritize mc md mm)) \<and>
     (\<forall>md mm. Modules (destroy mc md mm) = Modules mm \<and> ModCount (destroy mc md mm) = ModCount mm \<and>
        (\<forall>j. md \<notin> set (EventHandlers mm j) \<longrightarrow> EventHandlers (destroy mc md mm) j = EventHandlers mm j))"

text \<open>A constructor may attach its own object to events, also when it goes on to throw, and may publish what
  it likes; it does not load modules. A new object is none of the loaded modules.\<close>

definition lawful_init :: "'m loader \<Rightarrow> bool" where
  "lawful_init ld \<longleftrightarrow> (\<forall>f mm. new_object ld f mm \<notin> snd ` set (Modules mm) \<and>
     (case call_init ld f mm of (r, mm') \<Rightarrow>
        Modules mm' = Modules mm \<and> ModCount mm' = ModCount mm \<and>
        (\<exists>is. EventHandlers mm' = EventHandlers (AttachAll is (new_object ld f mm) mm)) \<and>
        (\<forall>md. r = I_Module md \<longrightarrow> md = new_object ld f mm)))"

lemma lawful_initD:
  assumes "lawful_init ld" and "call_init ld f mm = (r, mm1)"
  shows "new_object ld f mm \<notin> snd ` set (Modules mm)" "Modules mm1 = Modules mm" "ModCount mm1 = ModCount mm"
    "\<exists>is. EventHandlers mm1 = EventHandlers (AttachAll is (new_object ld f mm) mm)"
    "r = I_Module md \<Longrightarrow> md = new_object ld f mm"
  using assms(1) [unfolded lawful_init_def, rule_format, of f mm] assms(2) by auto

lemma lawful_codeD:
  assumes "lawful_code mc"
  shows "tells mm (on_load mc h md f mm)" "tells mm (on_unload mc h md f mm)" "reorders mm (prioritize mc md mm)"
    "Modules (destroy mc md mm) = Modules mm" "ModCount (destroy mc md mm) = ModCount mm"
    "md \<notin> set (EventHandlers mm j) \<Longrightarrow> EventHandlers (destroy mc md mm) j = EventHandlers mm j"
  using assms by (simp_all add: lawful_code_def)

lemma tells_refl: "tells mm mm"
  by (simp add: tells_def)

lemma tells_trans: "tells a b \<Longrightarrow> tells b c \<Longrightarrow> tells a c"
proof -
  assume ab: "tells a b" and bc: "tells b c"
  have "set (EventHandlers c j) \<subseteq> set (EventHandlers a j) \<union> snd ` set (Modules a)" for j
    using ab bc by (fastforce simp: tells_def)
  with ab bc show ?thesis by (simp add: tells_def)
qed

lemma reorders_refl: "reorders mm mm" and reorders_trans: "reorders a b \<Longrightarrow> reorders b c \<Longrightarrow> reorders a c"
  by (simp_all add: reorders_def)

lemma foreach_vector_tells:
  "(\<And>h mm. tells mm (f h mm)) \<Longrightarrow> foreach_vector i f hs mm = Some mm' \<Longrightarrow> tells mm mm'"
  by (induction i f hs mm rule: foreach_vector.induct) (auto simp: tells_refl split: if_splits intro: tells_trans)

lemma prioritize_all_reorders:
  "lawful_code mc \<Longrightarrow> prioritize_all mc ns mm = Some mm' \<Longrightarrow> reorders mm mm'"
  by (induction mc ns mm rule: prioritize_all.induct)
    (auto simp: reorders_refl split: if_splits intro: reorders_trans [OF lawful_codeD(3)])

lemma foreach_vector_idle:
  "(\<And>h mm. f h mm = mm) \<Longrightarrow> foreach_vector i f hs mm = Some mm"
  by (induction hs) auto

section \<open>No handler outlives its module\<close>

text \<open>Handlers are registered once per event and belong to loaded modules, or to the objects of the set
  \<open>D\<close>.\<close>

definition mods_ok :: "'m set \<Rightarrow> 'm module_manager \<Rightarrow> bool" where
  "mods_ok D mm \<longleftrightarrow> (\<forall>j. distinct (EventHandlers mm j) \<and> set (EventHandlers mm j) \<subseteq> snd ` set (Modules mm) \<union> D) \<and>
     st.om_inv (Modules mm) \<and> distinct (map snd (Modules mm))"

lemma mods_okD:
  assumes "mods_ok D mm"
  shows "distinct (EventHandlers mm j)" "h \<in> set (EventHandlers mm j) \<Longrightarrow> h \<in> snd ` set (Modules mm) \<or> h \<in> D"
    "st.om_inv (Modules mm)" "distinct (map snd (Modules mm))"
  using assms by (auto simp: mods_ok_def)

lemma mods_ok_error [simp]: "mods_ok D (mm\<lparr>LastModuleError := e\<rparr>) \<longleftrightarrow> mods_ok D mm"
  by (simp add: mods_ok_def)

lemma mods_ok_mono: "mods_ok D mm \<Longrightarrow> D \<subseteq> D' \<Longrightarrow> mods_ok D' mm"
  by (fastforce simp: mods_ok_def)

lemma mods_ok_tells: "mods_ok D mm \<Longrightarrow> tells mm mm' \<Longrightarrow> mods_ok D mm'"
  unfolding mods_ok_def tells_def by (auto dest!: subsetD)

lemma mods_ok_reorders: "mods_ok D mm \<Longrightarrow> reorders mm mm' \<Longrightarrow> mods_ok D mm'"
  unfolding mods_ok_def reorders_def by (metis mset_eq_imp_distinct_iff mset_eq_setD)

text \<open>The objects that \<open>Load\<close> of a file leaves in the tables although they are gone: the one whose
  constructor attached itself and then failed.\<close>

definition leaves :: "'m loader \<Rightarrow> string \<Rightarrow> 'm module_manager \<Rightarrow> 'm set" where
  "leaves ld fname mm =
     (if load_refusal ld fname mm \<noteq> None then {}
      else (case call_init ld (module_file ld fname) mm of
          (I_Module md, mm1) \<Rightarrow> {}
        | (_, mm1) \<Rightarrow> {md. md = new_object ld (module_file ld fname) mm \<and> (\<exists>j. md \<in> set (EventHandlers mm1 j))}))"

lemma snd_om_insert:
  "om_find str_less k m = None \<Longrightarrow> st.om_inv m \<Longrightarrow> distinct (map snd m) \<Longrightarrow> v \<notin> snd ` set m \<Longrightarrow>
    distinct (map snd (om_insert str_less k v m)) \<and> set (om_insert str_less k v m) = insert (k, v) (set m)"
proof (induction m)
  case (Cons p m)
  obtain k' v' where p: "p = (k', v')" by (cases p)
  from Cons.prems p have ne: "map of_char k \<noteq> (map of_char k' :: nat list)" by (auto split: if_splits)
  show ?case using Cons p ne by (auto split: if_splits)
qed simp

lemma om_erase_insert_new:
  "om_find str_less k m = None \<Longrightarrow> st.om_inv m \<Longrightarrow> om_erase str_less k (om_insert str_less k v m) = m"
proof (induction m)
  case (Cons p m)
  obtain k' v' where p: "p = (k', v')" by (cases p)
  from Cons.prems p have ne: "map of_char k \<noteq> (map of_char k' :: nat list)" by (auto split: if_splits)
  show ?case using Cons p ne by (auto split: if_splits)
qed simp

lemma mods_ok_detached:
  assumes "mods_ok D mm"
  shows "mods_ok D (DetachAll md mm)" "md \<notin> set (EventHandlers (DetachAll md mm) j)"
  using assms by (auto simp: mods_ok_def DetachAll_eq dest: notin_set_remove1)

lemma mods_ok_destroy:
  assumes "lawful_code mc" "mods_ok D mm" "\<forall>j. md \<notin> set (EventHandlers mm j)"
  shows "mods_ok D (destroy mc md mm)"
  using assms(2,3) lawful_codeD(4-6) [OF assms(1), of md mm] by (auto simp: mods_ok_def)

text \<open>The state after a construction: \<open>D\<close> grows by the new object, unless it is entered into \<open>Modules\<close>.\<close>

lemma mods_ok_init:
  assumes law: "lawful_init ld" and ok: "mods_ok D mm" and c: "call_init ld f mm = (r, mm1)"
  shows "mods_ok (D \<union> {md. md = new_object ld f mm \<and> (\<exists>j. md \<in> set (EventHandlers mm1 j))}) mm1"
proof -
  from lawful_initD(4) [OF law c] obtain "is" where e: "EventHandlers mm1 = EventHandlers (AttachAll is (new_object ld f mm) mm)" by blast
  have "distinct (EventHandlers mm1 j)" for j using mods_okD(1) [OF ok, of j] by (auto simp: e AttachAll_handlers)
  moreover have "h \<in> snd ` set (Modules mm) \<or> h \<in> D \<or> (h = new_object ld f mm \<and> (\<exists>j. h \<in> set (EventHandlers mm1 j)))"
    if "h \<in> set (EventHandlers mm1 j)" for h j
  proof (cases "h = new_object ld f mm")
    case False
    with that have "h \<in> set (EventHandlers mm j)" by (auto simp: e AttachAll_handlers split: if_splits)
    with mods_okD(2) [OF ok] show ?thesis by blast
  qed (use that in blast)
  ultimately show ?thesis using mods_okD(3,4) [OF ok] lawful_initD(2) [OF law c] by (auto simp: mods_ok_def)
qed

lemma mods_ok_enter:
  assumes ok: "mods_ok (D \<union> {md. md = x \<and> P md}) mm" and new: "x \<notin> snd ` set (Modules mm)" "om_find str_less f (Modules mm) = None"
  shows "mods_ok D (mm\<lparr>Modules := om_insert str_less f x (Modules mm), ModCount := n\<rparr>)"
proof -
  from snd_om_insert [OF new(2) mods_okD(3,4) [OF ok] new(1)]
  have t: "distinct (map snd (om_insert str_less f x (Modules mm)))" "set (om_insert str_less f x (Modules mm)) = insert (f, x) (set (Modules mm))"
    by auto
  with ok show ?thesis by (auto simp: mods_ok_def st.om_inv_insert)
qed

lemma load_commit_True:
  assumes "lawful_code ld" and "load_commit ld f md mm1 = Some (b, mm')"
  shows "\<exists>mm2. b \<and> tells (mm1\<lparr>Modules := om_insert str_less f md (Modules mm1), ModCount := ModCount mm1 + 1\<rparr>) mm2 \<and> reorders mm2 mm' \<and>
    (EventHandlers mm' I_OnLoadModule = [] \<longrightarrow>
       mm2 = mm1\<lparr>Modules := om_insert str_less f md (Modules mm1), ModCount := ModCount mm1 + 1\<rparr>)"
proof -
  let ?mm = "mm1\<lparr>Modules := om_insert str_less f md (Modules mm1), ModCount := ModCount mm1 + 1\<rparr>"
  from assms(2) obtain mm2 where b: b and l: "foreach_vector I_OnLoadModule (\<lambda>h. on_load ld h md f) (EventHandlers ?mm I_OnLoadModule) ?mm = Some mm2"
    and p: "prioritize_all ld (Modules mm2) mm2 = Some mm'"
    by (auto simp: load_commit_def Let_def split: bind_splits)
  have kept: "foreach_vector i g hs m = Some m' \<Longrightarrow> EventHandlers m' i = EventHandlers m i" for i g hs and m m' :: "'a module_manager"
    by (induction i g hs m rule: foreach_vector.induct) (auto split: if_splits)
  have "tells ?mm mm2" by (rule foreach_vector_tells [OF _ l]) (rule lawful_codeD(1) [OF assms(1)])
  moreover have re: "reorders mm2 mm'" by (rule prioritize_all_reorders [OF assms(1) p])
  moreover have "mm2 = ?mm" if "EventHandlers mm' I_OnLoadModule = []"
  proof -
    have "mset (EventHandlers mm' I_OnLoadModule) = mset (EventHandlers mm2 I_OnLoadModule)" using re by (simp add: reorders_def)
    then have "EventHandlers mm2 I_OnLoadModule = []" using that by simp
    with kept [OF l] l show ?thesis by simp
  qed
  ultimately show ?thesis using b by blast
qed

lemma mods_ok_load_one:
  assumes law: "lawful_init ld" "lawful_code ld" and ok: "mods_ok D mm" and l: "load_one ld f mm = Some (b, mm')"
  shows "mods_ok (D \<union> leaves ld f mm) mm'"
proof (cases "load_refusal ld f mm")
  case (Some e)
  with l ok show ?thesis by (auto simp: load_one_def mod_error_def leaves_def)
next
  case None
  then have new: "om_find str_less f (Modules mm) = None" by (auto simp: load_refusal_def split: if_splits)
  obtain r mm1 where c: "call_init ld (module_file ld f) mm = (r, mm1)" by fastforce
  note init = mods_ok_init [OF law(1) ok c] and law1 = lawful_initD [OF law(1) c]
  show ?thesis
  proof (cases r)
    case (I_Module md)
    then have md: "md = new_object ld (module_file ld f) mm" by (rule law1(5))
    from None c I_Module have lv: "leaves ld f mm = {}" by (simp add: leaves_def)
    show ?thesis
    proof (cases "v_api (version_of ld md) = ld_api ld")
      case True
      with None c I_Module l have "load_commit ld f md mm1 = Some (b, mm')" by (simp add: load_one_def)
      from load_commit_True [OF law(2) this] obtain mm2 where
        t: "tells (mm1\<lparr>Modules := om_insert str_less f md (Modules mm1), ModCount := ModCount mm1 + 1\<rparr>) mm2" "reorders mm2 mm'" by blast
      have "mods_ok D (mm1\<lparr>Modules := om_insert str_less f md (Modules mm1), ModCount := ModCount mm1 + 1\<rparr>)"
        by (rule mods_ok_enter) (use init law1(1,2) new in \<open>simp_all add: md\<close>)
      from mods_ok_reorders [OF mods_ok_tells [OF this t(1)] t(2)] show ?thesis by (simp add: lv)
    next
      case False
      with None c I_Module l have mm': "mm' = (destroy ld md (DetachAll md mm1))\<lparr>LastModuleError := LastModuleError mm'\<rparr>"
        by (auto simp: load_one_def mod_error_def)
      let ?d = "destroy ld md (DetachAll md mm1)"
      note gone = mods_ok_detached(2) [OF init, of md]
      have "mods_ok (D \<union> {m. m = new_object ld (module_file ld f) mm \<and> (\<exists>j. m \<in> set (EventHandlers mm1 j))}) ?d"
        by (rule mods_ok_destroy [OF law(2) mods_ok_detached(1) [OF init]]) (simp add: gone)
      moreover have "md \<notin> set (EventHandlers ?d j)" for j
        using lawful_codeD(6) [OF law(2) gone] gone by simp
      ultimately have "mods_ok D ?d" unfolding mods_ok_def md [symmetric] by blast
      then have "mods_ok D mm'" by (subst mm') (simp only: mods_ok_error)
      then show ?thesis by (simp add: lv)
    qed
  qed (use None c l init in \<open>auto simp: load_one_def mod_error_def leaves_def\<close>)
qed

lemma om_erase_image: "st.om_inv m \<Longrightarrow> om_find str_less k m = Some v \<Longrightarrow> distinct (map snd m) \<Longrightarrow>
    snd ` set (om_erase str_less k m) = snd ` set m - {v} \<and> distinct (map snd (om_erase str_less k m))"
proof (induction m)
  case (Cons p m)
  obtain k' v' where p: "p = (k', v')" by (cases p)
  show ?case
  proof (cases "map of_char k = (map of_char k' :: nat list)")
    case True
    with Cons.prems p show ?thesis by auto
  next
    case False
    with Cons.prems p have f: "om_find str_less k m = Some v" and l: "map of_char k' < (map of_char k :: nat list)" by (auto split: if_splits)
    from Cons.IH [OF _ f] Cons.prems p have IH: "snd ` set (om_erase str_less k m) = snd ` set m - {v}" "distinct (map snd (om_erase str_less k m))"
      by auto
    have "v \<in> snd ` set m" using f by (induction m) (force split: if_splits)+
    with Cons.prems p have "v' \<noteq> v" by auto
    with IH l p Cons.prems show ?thesis by auto
  qed
qed simp

lemma Unload_True:
  assumes law: "lawful_code mc" and ok: "mods_ok D mm" and u: "Unload mc f mm = Some (True, mm')"
  obtains md mm1 where "om_find str_less f (Modules mm) = Some md" "tells mm mm1"
    "EventHandlers mm I_OnUnloadModule = [] \<Longrightarrow> mm1 = mm"
    "EventHandlers mm' = (\<lambda>j. remove1 md (EventHandlers mm1 j))" "\<And>j. md \<notin> set (EventHandlers mm' j)"
    "Modules mm' = om_erase str_less f (Modules mm)" "ModCount mm' = ModCount mm - 1"
proof -
  from u obtain md mm1 where f: "om_find str_less f (Modules mm) = Some md"
    and l: "foreach_vector I_OnUnloadModule (\<lambda>h. on_unload mc h md f) (EventHandlers mm I_OnUnloadModule) mm = Some mm1"
    and mm': "mm' = (destroy mc md (DetachAll md mm1))\<lparr>Modules := om_erase str_less f (Modules (destroy mc md (DetachAll md mm1))),
       ModCount := ModCount (destroy mc md (DetachAll md mm1)) - 1\<rparr>"
    by (auto simp: Unload_def mod_error_def Let_def split: option.splits if_splits prod.splits bind_splits)
  have t: "tells mm mm1" by (rule foreach_vector_tells [OF _ l]) (rule lawful_codeD(2) [OF law])
  note gone = mods_ok_detached(2) [OF mods_ok_tells [OF ok t], of md]
  have h: "EventHandlers mm' = (\<lambda>j. remove1 md (EventHandlers mm1 j))"
    using lawful_codeD(6) [OF law gone] by (simp add: mm' fun_eq_iff) (simp add: DetachAll_eq)
  have "md \<notin> set (EventHandlers mm' j)" for j using gone [of j] by (simp add: h DetachAll_eq)
  moreover have "Modules mm' = om_erase str_less f (Modules mm)" "ModCount mm' = ModCount mm - 1"
    using t lawful_codeD(4,5) [OF law, of md "DetachAll md mm1"] by (simp_all add: mm' DetachAll_eq tells_def)
  moreover have "EventHandlers mm I_OnUnloadModule = [] \<Longrightarrow> mm1 = mm" using l by simp
  ultimately show ?thesis using that [OF f t] h by blast
qed

lemma Unload_False: "Unload mc f mm = Some (False, mm') \<Longrightarrow> mm' = mm\<lparr>LastModuleError := LastModuleError mm'\<rparr>"
  by (auto simp: Unload_def mod_error_def Let_def split: option.splits if_splits prod.splits bind_splits)

lemma mods_ok_Unload:
  assumes law: "lawful_code mc" and ok: "mods_ok D mm" and u: "Unload mc f mm = Some (b, mm')"
  shows "mods_ok D mm'"
proof (cases b)
  case True
  with u have u': "Unload mc f mm = Some (True, mm')" by simp
  obtain md mm1 where r: "om_find str_less f (Modules mm) = Some md" "tells mm mm1"
    "EventHandlers mm' = (\<lambda>j. remove1 md (EventHandlers mm1 j))" "\<And>j. md \<notin> set (EventHandlers mm' j)"
    "Modules mm' = om_erase str_less f (Modules mm)"
    by (rule Unload_True [OF law ok u']) blast
  have ok1: "mods_ok D mm1" by (rule mods_ok_tells [OF ok r(2)])
  note m = mods_okD [OF ok] and m1 = mods_okD [OF ok1]
  have im: "snd ` set (Modules mm') = snd ` set (Modules mm) - {md}" "distinct (map snd (Modules mm'))"
    using om_erase_image [OF m(3) r(1) m(4)] by (simp_all add: r(5))
  have "h \<in> snd ` set (Modules mm') \<or> h \<in> D" if "h \<in> set (EventHandlers mm' j)" for h j
  proof -
    from that have "h \<in> set (EventHandlers mm1 j)" 
      using set_remove1_subset [of md "EventHandlers mm1 j"] by (auto simp: r(3))
    moreover have "h \<noteq> md" using that r(4) by metis
    ultimately show ?thesis using m1(2) [of h j] r(2) im(1) by (auto simp: tells_def)
  qed
  moreover have "distinct (EventHandlers mm' j)" for j using m1(1) [of j] by (simp add: r(3))
  moreover have "st.om_inv (Modules mm')" using m(3) by (simp add: r(5) st.om_inv_erase)
  ultimately show ?thesis using im(2) by (auto simp: mods_ok_def)
next
  case False
  with u Unload_False [of mc f mm mm'] ok show ?thesis by (metis mods_ok_error)
qed

lemma list_swap_props:
  assumes "i < length xs" and "j < length xs"
  shows "mset (list_swap i j xs) = mset xs" and "length (list_swap i j xs) = length xs"
    and "list_swap i j xs ! i = xs ! j" and "list_swap i j xs ! j = xs ! i"
    and "k \<noteq> i \<Longrightarrow> k \<noteq> j \<Longrightarrow> list_swap i j xs ! k = xs ! k"
  using assms by (auto simp: list_swap_def mset_swap nth_list_update)

lemma find_index_Some: "find_index a xs = Some i \<Longrightarrow> i < length xs \<and> xs ! i = a"
  by (induction xs arbitrary: i) (auto split: if_splits)

lemma find_index_None: "find_index a xs = None \<longleftrightarrow> a \<notin> set xs"
  by (induction xs) auto

text \<open>The scans stay inside the vector.\<close>

lemma prio_after_bound: "fst ps \<le> x \<Longrightarrow> fst (prio_after src x h ms ps) \<le> x"
  by (induction src x h ms ps rule: prio_after.induct) auto

lemma prio_before_bound: "fst (prio_before src x h ms ps) \<le> fst ps"
  by (induction src x h ms ps rule: prio_before.induct) auto

lemma scan_after_bound:
  "fst ps \<le> x \<Longrightarrow> fst (prio_scan (\<lambda>x h. prio_after src x h ms) x hs ps) \<le> x + length hs - (if hs = [] then 0 else 1)"
proof (induction hs arbitrary: x ps)
  case (Cons h hs)
  from prio_after_bound [OF Cons.prems, of src h ms] have "fst (prio_after src x h ms ps) \<le> x + 1" by simp
  from Cons.IH [OF this] prio_after_bound [OF Cons.prems, of src h ms] show ?case
    by (cases hs) auto
qed simp

lemma scan_before_bound: "fst (prio_scan (\<lambda>x h. prio_before src x h ms) x hs ps) \<le> fst ps"
proof (induction hs arbitrary: x ps)
  case (Cons h hs)
  from Cons.IH [of "x + 1" "prio_before src x h ms ps"] prio_before_bound [of src x h ms ps] show ?case by simp
qed simp

lemma prio_target_bound:
  assumes "hs \<noteq> []" and "prio_target st src modules hs = Some (pos, swap)"
  shows "pos < length hs"
proof (cases st)
  case PRIO_AFTER
  then obtain ms where "prio_scan (\<lambda>x h. prio_after src x h ms) 0 hs (0, False) = (pos, swap)"
    using assms(2) by (auto simp: prio_target_def)
  with scan_after_bound [of "(0, False)" 0 src ms hs] assms(1) show ?thesis by (cases hs) auto
next
  case PRIO_BEFORE
  then obtain ms where "prio_scan (\<lambda>x h. prio_before src x h ms) 0 hs (length hs - 1, False) = (pos, swap)"
    using assms(2) by (auto simp: prio_target_def)
  with scan_before_bound [of src ms 0 hs "(length hs - 1, False)"] assms(1) show ?thesis by (cases hs) auto
qed (use assms in \<open>auto simp: prio_target_def split: if_splits\<close>)

text \<open>So a change of priority only ever swaps two handlers of the one event.\<close>

lemma SetPriority_swaps:
  assumes "SetPriority md i st modules mm = Some (b, mm')"
  shows "(mm' = mm \<or> (\<exists>p q. p < length (EventHandlers mm i) \<and> q < length (EventHandlers mm i) \<and>
    mm' = mm\<lparr>EventHandlers := (EventHandlers mm)(i := list_swap p q (EventHandlers mm i))\<rparr>)) \<and>
    (b \<longleftrightarrow> md \<in> set (EventHandlers mm i))"
proof (cases "find_index md (EventHandlers mm i)")
  case None
  with assms find_index_None [of md "EventHandlers mm i"] show ?thesis by (simp add: SetPriority_def)
next
  case (Some src)
  from find_index_Some [OF Some] have src: "src < length (EventHandlers mm i)" "EventHandlers mm i ! src = md" by auto
  then have ne: "EventHandlers mm i \<noteq> []" and mem: "md \<in> set (EventHandlers mm i)" by (auto simp: in_set_conv_nth)
  from assms Some obtain pos swap where t: "prio_target st src modules (EventHandlers mm i) = Some (pos, swap)"
    by (auto simp: SetPriority_def Let_def split: bind_splits)
  from prio_target_bound [OF ne t] src mem assms Some t show ?thesis
    by (auto simp: SetPriority_def Let_def split: if_splits)
qed

lemma SetPriority_reorders:
  assumes "SetPriority md i st modules mm = Some (b, mm')"
  shows "reorders mm mm'"
proof -
  have "reorders mm (mm\<lparr>EventHandlers := (EventHandlers mm)(i := list_swap p q (EventHandlers mm i))\<rparr>)"
    if "p < length (EventHandlers mm i)" "q < length (EventHandlers mm i)" for p q
    using list_swap_props(1) [OF that] by (simp add: reorders_def)
  with SetPriority_swaps [OF assms] reorders_refl show ?thesis by blast
qed

section \<open>Properties\<close>

text \<open>The states a module manager can get into: module files are loaded, modules unloaded, prioritised and
  detach themselves, in any order. \<open>D\<close> collects the objects whose constructor attached them and then
  failed.\<close>

inductive mod_reach :: "'m loader \<Rightarrow> 'm set \<Rightarrow> 'm module_manager \<Rightarrow> bool" for ld where
  start: "mod_reach ld {} ModuleManager_new"
| load: "mod_reach ld D mm \<Longrightarrow> load_one ld f mm = Some (b, mm') \<Longrightarrow> mod_reach ld (D \<union> leaves ld f mm) mm'"
| unload: "mod_reach ld D mm \<Longrightarrow> Unload ld f mm = Some (b, mm') \<Longrightarrow> mod_reach ld D mm'"
| priority: "mod_reach ld D mm \<Longrightarrow> SetPriority md i st modules mm = Some (b, mm') \<Longrightarrow> mod_reach ld D mm'"
| detach: "mod_reach ld D mm \<Longrightarrow> mod_reach ld D (snd (Detach i md mm))"

lemma mods_ok_Detach: "mods_ok D mm \<Longrightarrow> mods_ok D (snd (Detach i md mm))"
  by (auto simp: mods_ok_def Detach_def dest: notin_set_remove1)

lemma mod_reach_ok:
  assumes "lawful_init ld" "lawful_code ld" and "mod_reach ld D mm"
  shows "mods_ok D mm"
  using assms(3)
proof induction
  case start
  then show ?case by (simp add: mods_ok_def ModuleManager_new_def)
qed (auto intro: mods_ok_load_one [OF assms(1,2)] mods_ok_Unload [OF assms(2)] mods_ok_reorders SetPriority_reorders mods_ok_Detach)

text \<open>\<open>Load\<close> of a pattern is a sequence of loads of files.\<close>

lemma mod_reach_matching:
  assumes "\<And>D e mm b mm'. mod_reach ld D mm \<Longrightarrow> ldf e mm = Some (b, mm') \<Longrightarrow> \<exists>D'. D \<subseteq> D' \<and> mod_reach ld D' mm'"
  shows "mod_reach ld D mm \<Longrightarrow> load_matching ldf pat es n mm = Some (n', mm') \<Longrightarrow> \<exists>D'. D \<subseteq> D' \<and> mod_reach ld D' mm'"
proof (induction es arbitrary: n mm D)
  case (Cons e es)
  obtain hit where h: "match_ci e pat = Some hit" using Cons.prems(2) by (cases "match_ci e pat") auto
  show ?case
  proof (cases hit)
    case True
    with h Cons.prems(2) obtain b mm1 n1 where l: "ldf e mm = Some (b, mm1)" "load_matching ldf pat es n1 mm1 = Some (n', mm')"
      by (cases "ldf e mm") auto
    from assms [OF Cons.prems(1) l(1)] obtain D1 where D1: "D \<subseteq> D1" "mod_reach ld D1 mm1" by blast
    from Cons.IH [OF D1(2) l(2)] D1(1) show ?thesis by blast
  qed (use h Cons in simp)
qed auto

lemma mod_reach_Load: "mod_reach ld D mm \<Longrightarrow> Load k ld f mm = Some (b, mm') \<Longrightarrow> \<exists>D'. D \<subseteq> D' \<and> mod_reach ld D' mm'"
proof (induction k arbitrary: f mm b mm' D)
  case (Suc k)
  show ?case
  proof (cases "has_glob f")
    case glob: True
    show ?thesis
    proof (cases "dir_entries ld")
      case (Some es)
      with glob Suc.prems obtain n where "load_matching (Load k ld) f es 0 mm = Some (n, mm')"
        by (auto split: bind_splits)
      show ?thesis by (rule mod_reach_matching [OF _ Suc.prems(1) \<open>load_matching (Load k ld) f es 0 mm = Some (n, mm')\<close>]) (rule Suc.IH)
    qed (use glob Suc.prems in auto)
  next
    case False
    with Suc.prems(2) have "load_one ld f mm = Some (b, mm')" by simp
    from mod_reach.load [OF Suc.prems(1) this] show ?thesis by blast
  qed
qed simp

text \<open>Claim C24: however modules come and go, every handler in the tables is registered once for its event
  and belongs to a module that is loaded or to an object whose constructor attached it and then threw
  (which \<open>Load\<close> cannot detach any more, as it does not have the pointer); no two loaded files
  share a module. So an event is never delivered to a module that has been unloaded or was refused for
  its version, and to none but loaded modules as long as no constructor has thrown after attaching. That
  includes the loads of whole patterns.\<close>

theorem module_tables_kept:
  assumes "lawful_init ld" and "lawful_code ld" and "mod_reach ld D mm"
  shows "mods_ok D mm \<and>
    (\<forall>k f b mm'. Load k ld f mm = Some (b, mm') \<longrightarrow> (\<exists>D'. D \<subseteq> D' \<and> mod_reach ld D' mm' \<and> mods_ok D' mm'))"
proof (intro conjI allI impI)
  show "mods_ok D mm" by (rule mod_reach_ok [OF assms])
  fix k f b mm' assume "Load k ld f mm = Some (b, mm')"
  from mod_reach_Load [OF assms(3) this] obtain D' where "D \<subseteq> D'" "mod_reach ld D' mm'" by (elim exE conjE)
  with mod_reach_ok [OF assms(1,2)] show "\<exists>D'. D \<subseteq> D' \<and> mod_reach ld D' mm' \<and> mods_ok D' mm'" by (intro exI conjI)
qed

text \<open>A linker that delivers a fresh module for every file, which wants \<open>OnPreRequest\<close> and to hear of
  garbage collections first, and publishes a feature; the constructor of one file throws after that.\<close>

definition demo_init :: "string \<Rightarrow> nat module_manager \<Rightarrow> nat init_result \<times> nat module_manager" where
  "demo_init f mm =
     (let md = Suc (sum_list (map snd (Modules mm))); mm1 = AttachAll [I_OnPreRequest, I_OnGarbageCollect] md mm in
      if f = ''/mods/bad.so'' then (I_CoreError ''no'', mm1)
      else (I_Module md, snd (PublishFeature f md mm1)))"

definition demo_loader :: "nat loader" where
  "demo_loader = \<lparr>version_of = (\<lambda>_. \<lparr>v_flags = 2, v_api = 10000\<rparr>), on_load = (\<lambda>_ _ _ mm. mm), on_unload = (\<lambda>_ _ _ mm. mm),
     prioritize = (\<lambda>md mm. (case SetPriority md I_OnGarbageCollect PRIO_FIRST None mm of Some (_, mm') \<Rightarrow> mm' | None \<Rightarrow> mm)),
     destroy = (\<lambda>_ mm. mm),
     ld_path = ''/mods'', ld_maxbuf = 514, ld_api = 10000, dir_valid = (\<lambda>_. True), file_exists = (\<lambda>_. True), dir_entries = None,
     new_object = (\<lambda>f mm. Suc (sum_list (map snd (Modules mm)))), call_init = demo_init\<rparr>"

lemma AttachAll_frame: "Modules (AttachAll is md mm) = Modules mm \<and> ModCount (AttachAll is md mm) = ModCount mm"
  by (subst (1 2) AttachAll_shape) simp

lemma PublishFeature_frame: "Modules (snd (PublishFeature n md mm)) = Modules mm" "ModCount (snd (PublishFeature n md mm)) = ModCount mm"
  "EventHandlers (snd (PublishFeature n md mm)) = EventHandlers mm"
  by (simp_all add: PublishFeature_def split: option.split)

lemma demo_lawful: "lawful_init demo_loader" "lawful_code demo_loader"
proof -
  have "Suc (sum_list (map snd (Modules mm))) \<notin> snd ` set (Modules mm)" for mm :: "nat module_manager"
    using member_le_sum_list [of _ "map snd (Modules mm)"] by force
  then show "lawful_init demo_loader"
    by (auto simp: lawful_init_def demo_loader_def demo_init_def Let_def AttachAll_frame PublishFeature_frame)
  have "reorders mm (case SetPriority md I_OnGarbageCollect PRIO_FIRST None mm of Some (_, mm') \<Rightarrow> mm' | None \<Rightarrow> mm)"
    for md and mm :: "nat module_manager"
    by (auto simp: reorders_refl intro: SetPriority_reorders split: option.split)
  then show "lawful_code demo_loader" by (simp add: lawful_code_def demo_loader_def tells_refl)
qed

definition demo_mods :: "nat module_manager" where
  "demo_mods = \<lparr>LastModuleError = [], Features = [(''/mods/m_a.so'', 1)], Interfaces = [], ModCount = 1,
     Modules = [(''m_a.so'', 1)], EventHandlers = (\<lambda>_. [])(I_OnPreRequest := [1], I_OnGarbageCollect := [1])\<rparr>"

lemmas demo_defs = load_one_def load_refusal_def load_commit_def module_file_def demo_loader_def demo_init_def Let_def
  ModuleManager_new_def AttachAll_def Attach_def PublishFeature_def SetPriority_def prio_target_def

lemma demo_load: "load_one demo_loader ''m_a.so'' ModuleManager_new = Some (True, demo_mods)"
  by (simp add: demo_defs demo_mods_def fun_eq_iff)

theorem module_tables_kept_witness:
  "\<exists>mm. mod_reach demo_loader {2} mm \<and> mods_ok {2} mm \<and> EventHandlers mm I_OnPreRequest = [1, 2] \<and> Modules mm = [(''m_a.so'', 1)]"
proof -
  have 1: "mod_reach demo_loader {} demo_mods"
    using mod_reach.load [OF mod_reach.start demo_load] by (simp add: leaves_def demo_defs)
  obtain mm where 2: "load_one demo_loader ''bad.so'' demo_mods = Some (False, mm)"
    "EventHandlers mm I_OnPreRequest = [1, 2]" "Modules mm = [(''m_a.so'', 1)]"
    by (simp add: demo_defs demo_mods_def mod_error_def)
  have "load_refusal demo_loader ''bad.so'' demo_mods = None" "module_file demo_loader ''bad.so'' = ''/mods/bad.so''"
    by (simp_all add: load_refusal_def module_file_def demo_loader_def demo_mods_def)
  moreover have "call_init demo_loader ''/mods/bad.so'' demo_mods = (I_CoreError ''no'', AttachAll [I_OnPreRequest, I_OnGarbageCollect] 2 demo_mods)"
    by (simp add: demo_loader_def demo_init_def demo_mods_def numeral_2_eq_2)
  moreover have "new_object demo_loader ''/mods/bad.so'' demo_mods = 2" by (simp add: demo_loader_def demo_mods_def)
  moreover have "2 \<in> set (EventHandlers (AttachAll [I_OnPreRequest, I_OnGarbageCollect] 2 demo_mods) I_OnPreRequest)"
    by (simp add: AttachAll_handlers)
  ultimately have "leaves demo_loader ''bad.so'' demo_mods = {2}" unfolding leaves_def by auto
  with mod_reach.load [OF 1 2(1)] have r: "mod_reach demo_loader {2} mm" by simp
  from module_tables_kept [OF demo_lawful r] have "mods_ok {2} mm" by (rule conjunct1)
  with r 2(2,3) show ?thesis by (intro exI conjI)
qed

text \<open>Claim C25: unloading undoes loading: when a file has been loaded and is then unloaded, the list and the
  number of modules are what they were before, and no event has the module among its handlers. When
  moreover no module listens to the two events of loading and unloading, every event has exactly the
  handlers it had before, though the priorities asked for meanwhile may have left them in another
  order. What a module has published it has to withdraw itself.\<close>

theorem load_unload:
  assumes "lawful_init ld" and "lawful_code ld" and "mods_ok D mm"
    and "load_one ld f mm = Some (True, mm1)" and "Unload ld f mm1 = Some (True, mm2)"
  shows "Modules mm2 = Modules mm \<and> ModCount mm2 = ModCount mm \<and>
    (\<exists>md. om_find str_less f (Modules mm1) = Some md \<and> (\<forall>j. md \<notin> set (EventHandlers mm2 j)) \<and>
      (EventHandlers mm1 I_OnLoadModule = [] \<and> EventHandlers mm1 I_OnUnloadModule = [] \<longrightarrow>
        (\<forall>j. mset (EventHandlers mm2 j) = mset (EventHandlers mm j) - {#md#})))"
proof -
  from assms(4) have ref: "load_refusal ld f mm = None" by (auto simp: load_one_def mod_error_def split: option.splits)
  then have new: "om_find str_less f (Modules mm) = None" by (auto simp: load_refusal_def split: if_splits)
  from assms(4) ref obtain md mma where c: "call_init ld (module_file ld f) mm = (I_Module md, mma)"
    and l: "load_commit ld f md mma = Some (True, mm1)"
    by (auto simp: load_one_def mod_error_def split: if_splits prod.splits init_result.splits)
  note law1 = lawful_initD [OF assms(1) c]
  let ?e = "mma\<lparr>Modules := om_insert str_less f md (Modules mma), ModCount := ModCount mma + 1\<rparr>"
  from load_commit_True [OF assms(2) l] obtain mmb where t: "tells ?e mmb" "reorders mmb mm1"
    "EventHandlers mm1 I_OnLoadModule = [] \<longrightarrow> mmb = ?e" by blast
  have m1: "Modules mm1 = om_insert str_less f md (Modules mm)" "ModCount mm1 = ModCount mm + 1"
    using t(1,2) law1(2,3) by (simp_all add: tells_def reorders_def)
  have inv: "st.om_inv (Modules mm)" by (rule mods_okD(3) [OF assms(3)])
  then have f: "om_find str_less f (Modules mm1) = Some md" by (simp add: m1 st.om_find_insert)
  obtain md' mmc where u: "om_find str_less f (Modules mm1) = Some md'" "EventHandlers mm1 I_OnUnloadModule = [] \<Longrightarrow> mmc = mm1"
    "EventHandlers mm2 = (\<lambda>j. remove1 md' (EventHandlers mmc j))" "\<And>j. md' \<notin> set (EventHandlers mm2 j)"
    "Modules mm2 = om_erase str_less f (Modules mm1)" "ModCount mm2 = ModCount mm1 - 1"
    using Unload_True [OF assms(2) mods_ok_load_one [OF assms(1-3) assms(4)] assms(5)] by metis
  from f u(1) have md': "md' = md" by simp
  from law1(4) law1(5) [of md] obtain "is" where e: "EventHandlers mma = EventHandlers (AttachAll is md mm)" by auto
  have "mset (EventHandlers mm2 j) = mset (EventHandlers mm j) - {#md#}"
    if "EventHandlers mm1 I_OnLoadModule = []" "EventHandlers mm1 I_OnUnloadModule = []" for j
  proof -
    have "mset (EventHandlers mm1 j) = mset (EventHandlers mma j)" using t that by (simp add: reorders_def)
    then have "mset (EventHandlers mm2 j) = mset (EventHandlers (AttachAll is md mm) j) - {#md#}"
      using u(2) [OF that(2)] by (simp add: u(3) md' e)
    also have "\<dots> = mset (EventHandlers mm j) - {#md#}"
      by (auto simp: AttachAll_handlers diff_single_trivial)
    finally show ?thesis .
  qed
  moreover have "Modules mm2 = Modules mm" by (simp add: u(5) m1 om_erase_insert_new [OF new inv])
  ultimately show ?thesis using f u(4,6) m1(2) by (simp add: md')
qed

theorem load_unload_witness:
  "\<exists>mm1 mm2. load_one demo_loader ''m_b.so'' demo_mods = Some (True, mm1) \<and> Unload demo_loader ''m_b.so'' mm1 = Some (True, mm2) \<and>
     EventHandlers mm1 I_OnGarbageCollect = [2, 1] \<and> EventHandlers mm2 I_OnPreRequest = [1] \<and> Modules mm2 = Modules demo_mods"
proof -
  have ok: "mods_ok {} demo_mods" by (simp add: mods_ok_def demo_mods_def)
  obtain mm1 where l: "load_one demo_loader ''m_b.so'' demo_mods = Some (True, mm1)" and h: "EventHandlers mm1 I_OnGarbageCollect = [2, 1]"
    "EventHandlers mm1 I_OnLoadModule = []" "EventHandlers mm1 I_OnUnloadModule = []"
    and m: "om_find str_less ''m_b.so'' (Modules mm1) = Some 2" "Interfaces mm1 = []"
    by (simp add: demo_defs demo_mods_def list_swap_def)
  have "version_of demo_loader = (\<lambda>_. \<lparr>v_flags = 2, v_api = 10000\<rparr>)" by (simp add: demo_loader_def)
  then obtain mm2 where u: "Unload demo_loader ''m_b.so'' mm1 = Some (True, mm2)"
    using h m by (simp add: Unload_def GetInterfaceInstanceCount_def Let_def)
  from load_unload [OF demo_lawful ok l u] h obtain md where r: "Modules mm2 = Modules demo_mods"
    "mset (EventHandlers mm2 I_OnPreRequest) = mset [1] - {#md#}" "\<forall>j. md \<notin> set (EventHandlers mm2 j)"
    "om_find str_less ''m_b.so'' (Modules mm1) = Some md"
    by (auto simp: demo_mods_def)
  have "md = 2" using r(4) m by simp
  then have "EventHandlers mm2 I_OnPreRequest = [1]" using r(2) by simp
  with l u h r(1) show ?thesis by blast
qed

lemma prio_before_last:
  "p \<le> src \<Longrightarrow> prio_before src x h ms (p, b) = (if Some h \<in> set ms \<and> x \<le> p then (x, True) else (p, b))"
  by (induction ms arbitrary: p b) auto

lemma scan_before_last:
  assumes "p \<le> src"
  shows "prio_scan (\<lambda>x h. prio_before src x h ms) x hs (p, b) =
    (case find_index True (map (\<lambda>h. Some h \<in> set ms) hs) of
       None \<Rightarrow> (p, b) | Some k \<Rightarrow> if x + k \<le> p then (x + k, True) else (p, b))"
  using assms
proof (induction hs arbitrary: x p b)
  case (Cons h hs)
  show ?case
  proof (cases "Some h \<in> set ms \<and> x \<le> p")
    case True
    with Cons.prems Cons.IH [of x "Suc x" True] show ?thesis
      by (simp add: prio_before_last split: option.split)
  next
    case False
    with Cons show ?thesis by (auto simp: prio_before_last split: option.split)
  qed
qed simp

text \<open>A module that is last among the handlers of an event, as one that has just been loaded is,
  and asks for \<open>PRIO_BEFORE\<close> a set of modules, is called before every one of them.\<close>

theorem SetPriority_before:
  assumes "EventHandlers mm i = hs @ [md]" and "distinct (hs @ [md])"
    and "SetPriority md i PRIO_BEFORE (Some ms) mm = Some (b, mm')"
    and "Some other \<in> set ms" and "other \<in> set hs"
  shows "\<exists>p q. p < q \<and> q < length (EventHandlers mm' i) \<and> EventHandlers mm' i ! p = md \<and> EventHandlers mm' i ! q = other"
proof -
  let ?hs = "hs @ [md]" and ?n = "length hs"
  have idx: "find_index md ?hs = Some ?n" using assms(2) by (induction hs) auto
  obtain o1 where o1: "o1 < ?n" "hs ! o1 = other" using assms(5) by (auto simp: in_set_conv_nth)
  let ?hit = "map (\<lambda>h. Some h \<in> set ms) ?hs"
  have "True \<in> set ?hit" using assms(4,5) by auto
  then obtain k where k: "find_index True ?hit = Some k" using find_index_None [of True ?hit] by auto
  have first: "find_index True bs = Some k \<Longrightarrow> j < length bs \<Longrightarrow> bs ! j \<Longrightarrow> k \<le> j" for bs k j
    by (induction bs arbitrary: k j) (auto split: if_splits simp: nth_Cons split: nat.splits)
  have "k \<le> o1" using first [OF k, of o1] o1 assms(4) by (simp add: nth_append)
  then have kn: "k < ?n" using o1 by simp
  have "prio_target PRIO_BEFORE ?n (Some ms) ?hs = Some (k, True)"
    using scan_before_last [of ?n ?n ms 0 ?hs False] k kn by (simp add: prio_target_def)
  then have mm': "EventHandlers mm' i = list_swap k ?n ?hs"
    using assms(1,3) idx kn by (auto simp: SetPriority_def)
  have at: "list_swap k ?n ?hs ! k = md" "list_swap k ?n ?hs ! ?n = hs ! k" "length (list_swap k ?n ?hs) = Suc ?n"
    using kn by (simp_all add: list_swap_def nth_append nth_list_update)
  show ?thesis
  proof (cases "o1 = k")
    case True
    with at o1 kn show ?thesis unfolding mm' by (intro exI [of _ k] exI [of _ ?n]) auto
  next
    case False
    with \<open>k \<le> o1\<close> have "k < o1" by simp
    moreover have "list_swap k ?n ?hs ! o1 = other"
      using False o1 kn by (simp add: list_swap_def nth_append nth_list_update)
    ultimately show ?thesis using at o1 unfolding mm' by (intro exI [of _ k] exI [of _ o1]) auto
  qed
qed

theorem SetPriority_before_witness:
  "\<exists>b mm'. SetPriority (3::nat) I_OnPreRequest PRIO_BEFORE (Some [Some 2, Some 1])
      (ModuleManager_new\<lparr>EventHandlers := (\<lambda>_. [1, 2, 3])\<rparr>) = Some (b, mm') \<and>
    (\<exists>p q. p < q \<and> q < length (EventHandlers mm' I_OnPreRequest) \<and> EventHandlers mm' I_OnPreRequest ! p = 3 \<and>
      EventHandlers mm' I_OnPreRequest ! q = 2)"
proof -
  let ?mm = "ModuleManager_new\<lparr>EventHandlers := (\<lambda>_. [1, 2, 3 :: nat])\<rparr>"
  have "\<exists>b mm'. SetPriority (3::nat) I_OnPreRequest PRIO_BEFORE (Some [Some 2, Some 1]) ?mm = Some (b, mm')"
    by (auto simp: SetPriority_def prio_target_def Let_def)
  then obtain b mm' where s: "SetPriority (3::nat) I_OnPreRequest PRIO_BEFORE (Some [Some 2, Some 1]) ?mm = Some (b, mm')" by blast
  have "\<exists>p q. p < q \<and> q < length (EventHandlers mm' I_OnPreRequest) \<and> EventHandlers mm' I_OnPreRequest ! p = 3 \<and>
      EventHandlers mm' I_OnPreRequest ! q = 2"
    by (rule SetPriority_before [OF _ _ s, of "[1, 2]" 2]) simp_all
  with s show ?thesis by blast
qed

text \<open>Claim C26: \<open>PRIO_AFTER\<close> is ignored for every module that is not the first handler already: the scan
  starts from position 0 and demands that the module stands at or before it, so the call reports
  success and moves nothing.\<close>

theorem SetPriority_after_ignored:
  assumes "EventHandlers mm i = h # hs" and "md \<in> set hs" and "md \<noteq> h"
  shows "SetPriority md i PRIO_AFTER (Some ms) mm = Some (True, mm)"
proof -
  obtain src where src: "find_index md (h # hs) = Some (Suc src)"
    using assms(2,3) find_index_None [of md hs] by auto
  have one: "prio_after (Suc src) x h' ms (0, False) = (0, False)" for x h'
    by (induction ms) auto
  have "prio_scan (\<lambda>x h. prio_after (Suc src) x h ms) x xs (0, False) = (0, False)" for x xs
    by (induction xs arbitrary: x) (auto simp: one)
  then show ?thesis using src assms(1) by (simp add: SetPriority_def prio_target_def del: prio_scan.simps)
qed

theorem SetPriority_after_ignored_witness:
  "SetPriority (2::nat) I_OnPreRequest PRIO_AFTER (Some [Some 3]) (ModuleManager_new\<lparr>EventHandlers := (\<lambda>_. [1, 2, 3])\<rparr>) =
   Some (True, ModuleManager_new\<lparr>EventHandlers := (\<lambda>_. [1, 2, 3])\<rparr>)"
  by (rule SetPriority_after_ignored [of _ _ 1 "[2, 3]"]) simp_all

end
