(* ===== verification/ConfigParse.thy ===== *)
theory ConfigParse
  imports OrderedMap
begin

text \<open>
  The parser of configuration files, \<open>ServerConfig::LoadConf\<close> (\<open>src/configreader.cpp\<close>): one pass over
  the characters of each line with the flags \<open>in_word\<close>, \<open>in_quote\<close> and \<open>in_ml_comment\<close>, which carry over
  from line to line. The result is a multimap from section names to lists of items. The file's
  contents are an argument, \<open>None\<close> when the file cannot be opened; messages keep the texts of the source.
\<close>

type_synonym KeyValList = "(string \<times> string) list"
type_synonym ConfigDataHash = "(string \<times> KeyValList) list"

record conf_state =
  wordbuffer :: string
  sect :: string
  itemname :: string
  in_word :: bool
  in_quote :: bool
  in_ml_comment :: bool
  sectiondata :: KeyValList
  target :: ConfigDataHash

definition conf_init :: "ConfigDataHash \<Rightarrow> conf_state" where
  "conf_init t = \<lparr>wordbuffer = [], sect = [], itemname = [], in_word = False, in_quote = False,
     in_ml_comment = False, sectiondata = [], target = t\<rparr>"

text \<open>What one character does: go on, go on after skipping the next character, leave the line, or
  give up with a message.\<close>

datatype conf_step = C_Next conf_state | C_Skip conf_state | C_Break conf_state | C_Fail string

definition conf_quote :: "conf_state \<Rightarrow> conf_step" where
  "conf_quote st =
     (if sect st = [] \<or> itemname st = [] then C_Fail ''Unexpected quoted string''
      else if in_word st \<or> wordbuffer st \<noteq> [] then C_Fail ''Unexpected quoted string (prior unhandled words)''
      else C_Next (st\<lparr>in_quote := True, in_word := True\<rparr>))"

definition conf_equals :: "conf_state \<Rightarrow> conf_step" where
  "conf_equals st =
     (if sect st = [] then C_Fail ''Config item outside of section (or stray '=')''
      else if itemname st \<noteq> [] then C_Fail ''Stray '=' sign or item without value''
      else C_Next (st\<lparr>in_word := False, itemname := wordbuffer st, wordbuffer := []\<rparr>))"

definition conf_open :: "conf_state \<Rightarrow> conf_step" where
  "conf_open st =
     (if sect st \<noteq> [] then C_Fail ''Section inside another section''
      else if wordbuffer st = [] then C_Fail (''Section without a name or unexpected '{'' @ [CHR 0x27])
      else C_Next (st\<lparr>in_word := False, sect := wordbuffer st, wordbuffer := []\<rparr>))"

definition conf_close :: "conf_state \<Rightarrow> conf_step" where
  "conf_close st =
     (if sect st = [] then C_Fail (''Stray '}'' @ [CHR 0x27])
      else if wordbuffer st \<noteq> [] \<or> itemname st \<noteq> [] then C_Fail ''Unexpected end of section''
      else C_Next (st\<lparr>target := mm_insert (sect st) (sectiondata st) (target st), sect := [], sectiondata := []\<rparr>))"

definition conf_plain :: "char \<Rightarrow> conf_state \<Rightarrow> conf_step" where
  "conf_plain ch st =
     (if \<not> in_word st \<and> wordbuffer st \<noteq> [] then C_Fail ''Unexpected word''
      else C_Next (st\<lparr>wordbuffer := wordbuffer st @ [ch], in_word := True\<rparr>))"

definition conf_char :: "char \<Rightarrow> string \<Rightarrow> conf_state \<Rightarrow> conf_step" where
  "conf_char ch rest st =
     (let followed = (\<lambda>d. case rest of [] \<Rightarrow> False | e # _ \<Rightarrow> e = d) in
      if in_quote st then
        if ch = CHR 0x22 then C_Next (st\<lparr>in_quote := False, in_word := False\<rparr>)
        else C_Next (st\<lparr>wordbuffer := wordbuffer st @ [ch]\<rparr>)
      else if in_ml_comment st then
        if ch = CHR ''*'' \<and> followed (CHR ''/'') then C_Skip (st\<lparr>in_ml_comment := False\<rparr>) else C_Next st
      else if ch = CHR ''#'' \<or> (ch = CHR ''/'' \<and> followed (CHR ''/'')) then C_Break st
      else if ch = CHR ''/'' \<and> followed (CHR ''*'') then C_Skip (st\<lparr>in_ml_comment := True\<rparr>)
      else if ch = CHR 0x22 then conf_quote st
      else if ch = CHR ''='' then conf_equals st
      else if ch = CHR ''{'' then conf_open st
      else if ch = CHR ''}'' then conf_close st
      else if ch = CHR '';'' \<or> ch = CR then C_Next st
      else if ch = CHR '' '' \<or> ch = CHR 0x09 then C_Next (st\<lparr>in_word := False\<rparr>)
      else conf_plain ch st)"

fun conf_chars :: "string \<Rightarrow> conf_state \<Rightarrow> string + conf_state" where
  "conf_chars [] st = Inr st"
| "conf_chars (ch # rest) st =
     (case conf_char ch rest st of
        C_Next st' \<Rightarrow> conf_chars rest st'
      | C_Skip st' \<Rightarrow> conf_chars (tl rest) st'
      | C_Break st' \<Rightarrow> Inr st'
      | C_Fail msg \<Rightarrow> Inl msg)"

text \<open>The end of a line: a value that is complete is stored.\<close>

definition conf_eol :: "conf_state \<Rightarrow> string + conf_state" where
  "conf_eol st =
     (if in_quote st then Inr (st\<lparr>wordbuffer := wordbuffer st @ [LF]\<rparr>)
      else
        let st1 = st\<lparr>in_word := False\<rparr> in
        if itemname st1 \<noteq> [] then
          if wordbuffer st1 = [] then Inl ''Item without value''
          else Inr (st1\<lparr>sectiondata := sectiondata st1 @ [(itemname st1, wordbuffer st1)], wordbuffer := [], itemname := []\<rparr>)
        else Inr st1)"

text \<open>The lines; a message gets the number of the line it belongs to.\<close>

fun conf_lines :: "nat \<Rightarrow> string list \<Rightarrow> conf_state \<Rightarrow> (string \<times> nat) + conf_state" where
  "conf_lines n [] st = Inr st"
| "conf_lines n (l # ls) st =
     (case conf_chars l st of
        Inl msg \<Rightarrow> Inl (msg, n + 1)
      | Inr st1 \<Rightarrow>
          (case conf_eol st1 of Inl msg \<Rightarrow> Inl (msg, n + 1) | Inr st2 \<Rightarrow> conf_lines (n + 1) ls st2))"

definition conf_eof :: "conf_state \<Rightarrow> string option" where
  "conf_eof st =
     (if in_ml_comment st then Some ''Unterminated multiline comment at end of file''
      else if in_quote st then Some ''Unterminated quote at end of file''
      else if itemname st \<noteq> [] \<or> wordbuffer st \<noteq> [] then Some ''Unexpected garbage at end of file''
      else if sect st \<noteq> [] then Some ''Unterminated section at end of file''
      else None)"

text \<open>\<open>std::getline\<close>: a last line without an end is a line if it is not empty.\<close>

fun getlines :: "string \<Rightarrow> string list" where
  "getlines [] = []"
| "getlines (c # cs) =
     (if c = LF then [] # getlines cs
      else case getlines cs of [] \<Rightarrow> [[c]] | l # ls \<Rightarrow> (c # l) # ls)"

datatype conf_error = CE_Open | CE_Line string nat | CE_End string

text \<open>What the caller gets back: the error, or the entries. \<open>LoadConf_left\<close> below gives what is left in
  \<open>target\<close> either way.\<close>

definition LoadConf :: "ConfigDataHash \<Rightarrow> string option \<Rightarrow> conf_error + ConfigDataHash" where
  "LoadConf t contents =
     (case contents of
        None \<Rightarrow> Inl CE_Open
      | Some src \<Rightarrow>
          (case conf_lines 0 (getlines src) (conf_init t) of
             Inl (msg, n) \<Rightarrow> Inl (CE_Line msg n)
           | Inr st \<Rightarrow> (case conf_eof st of Some msg \<Rightarrow> Inl (CE_End msg) | None \<Rightarrow> Inr (target st))))"

text \<open>The entries made before an error stay in \<open>target\<close>.\<close>

fun conf_chars_left :: "string \<Rightarrow> conf_state \<Rightarrow> ConfigDataHash" where
  "conf_chars_left [] st = target st"
| "conf_chars_left (ch # rest) st =
     (case conf_char ch rest st of
        C_Next st' \<Rightarrow> conf_chars_left rest st'
      | C_Skip st' \<Rightarrow> conf_chars_left (tl rest) st'
      | C_Break st' \<Rightarrow> target st'
      | C_Fail msg \<Rightarrow> target st)"

fun conf_lines_left :: "string list \<Rightarrow> conf_state \<Rightarrow> ConfigDataHash" where
  "conf_lines_left [] st = target st"
| "conf_lines_left (l # ls) st =
     (case conf_chars l st of
        Inl msg \<Rightarrow> conf_chars_left l st
      | Inr st1 \<Rightarrow> (case conf_eol st1 of Inl msg \<Rightarrow> target st1 | Inr st2 \<Rightarrow> conf_lines_left ls st2))"

definition LoadConf_left :: "ConfigDataHash \<Rightarrow> string option \<Rightarrow> ConfigDataHash" where
  "LoadConf_left t contents =
     (case contents of None \<Rightarrow> t | Some src \<Rightarrow> conf_lines_left (getlines src) (conf_init t))"

lemma conf_lines_left_ok: "conf_lines n ls st = Inr st' \<Longrightarrow> conf_lines_left ls st = target st'"
  by (induction n ls st rule: conf_lines.induct) (auto split: sum.splits)

lemma LoadConf_left_ok: "LoadConf t contents = Inr m \<Longrightarrow> LoadConf_left t contents = m"
  by (auto simp: LoadConf_def LoadConf_left_def conf_lines_left_ok split: option.splits sum.splits)

lemma getlines_example: "getlines (''ab'' @ [LF, LF] @ ''c'') = [''ab'', '''', ''c'']"
  by simp

section \<open>What a successful parse delivers\<close>

definition items_ok :: "KeyValList \<Rightarrow> bool" where
  "items_ok kvs \<longleftrightarrow> (\<forall>(k, v)\<in>set kvs. k \<noteq> [] \<and> v \<noteq> [])"

definition conf_inv :: "conf_state \<Rightarrow> bool" where
  "conf_inv st \<longleftrightarrow> mm_sorted (target st) \<and> (\<forall>(n, kvs)\<in>set (target st). n \<noteq> [] \<and> items_ok kvs) \<and> items_ok (sectiondata st)"

lemma items_ok_simps [simp]: "items_ok []" "items_ok (kvs @ [(k, v)]) \<longleftrightarrow> items_ok kvs \<and> k \<noteq> [] \<and> v \<noteq> []"
  by (auto simp: items_ok_def)

lemmas conf_step_defs = conf_quote_def conf_equals_def conf_open_def conf_close_def conf_plain_def

lemma conf_char_inv:
  assumes "conf_inv st"
  shows "case conf_char ch rest st of C_Next st' \<Rightarrow> conf_inv st' | C_Skip st' \<Rightarrow> conf_inv st'
    | C_Break st' \<Rightarrow> conf_inv st' | C_Fail _ \<Rightarrow> True"
  using assms
  by (auto simp: conf_char_def conf_step_defs Let_def conf_inv_def mm_sorted_insert set_mm_insert)

lemma conf_chars_inv: "conf_inv st \<Longrightarrow> conf_chars l st = Inr st' \<Longrightarrow> conf_inv st'"
proof (induction l st rule: conf_chars.induct)
  case (2 ch rest st)
  from conf_char_inv [OF "2.prems"(1), of ch rest] 2 show ?case
    by (cases "conf_char ch rest st") auto
qed simp

lemma conf_eol_inv: "conf_inv st \<Longrightarrow> conf_eol st = Inr st' \<Longrightarrow> conf_inv st'"
  by (auto simp: conf_eol_def conf_inv_def Let_def split: if_splits)

lemma conf_lines_inv: "conf_inv st \<Longrightarrow> conf_lines n ls st = Inr st' \<Longrightarrow> conf_inv st'"
proof (induction n ls st rule: conf_lines.induct)
  case (2 n l ls st)
  then obtain st1 st2 where "conf_chars l st = Inr st1" "conf_eol st1 = Inr st2" "conf_lines (n + 1) ls st2 = Inr st'"
    by (auto split: sum.splits)
  with 2 show ?case using conf_chars_inv conf_eol_inv by blast
qed simp

text \<open>Claim C23: a configuration that parses is a multimap in key order whose sections all have a name and
  whose items all have a name and a value.\<close>

theorem LoadConf_wellformed:
  assumes "LoadConf [] contents = Inr m"
  shows "mm_sorted m \<and> (\<forall>(n, kvs)\<in>set m. n \<noteq> [] \<and> (\<forall>(k, v)\<in>set kvs. k \<noteq> [] \<and> v \<noteq> []))"
proof -
  from assms obtain src st where run: "conf_lines 0 (getlines src) (conf_init []) = Inr st" and m: "m = target st"
    by (auto simp: LoadConf_def split: option.splits sum.splits)
  have "conf_inv (conf_init [])" by (simp add: conf_inv_def conf_init_def mm_sorted_def)
  from conf_lines_inv [OF this run] show ?thesis unfolding conf_inv_def items_ok_def m by fast
qed

theorem LoadConf_wellformed_witness:
  "\<exists>m. LoadConf [] (Some (''a {'' @ [LF] @ '' k = v // c'' @ [LF] @ ''}'')) = Inr m \<and> mm_sorted m \<and> m \<noteq> []"
proof -
  have "LoadConf [] (Some (''a {'' @ [LF] @ '' k = v // c'' @ [LF] @ ''}'')) = Inr [(''a'', [(''k'', ''v'')])]"
    by (simp add: LoadConf_def conf_init_def conf_char_def conf_step_defs conf_eol_def conf_eof_def)
  with LoadConf_wellformed [OF this] show ?thesis by blast
qed

section \<open>Printing and reading back\<close>

definition print_item :: "string \<times> string \<Rightarrow> string" where
  "print_item kv = fst kv @ '' = '' @ [CHR 0x22] @ snd kv @ [CHR 0x22, LF]"

definition print_section :: "string \<times> KeyValList \<Rightarrow> string" where
  "print_section p = fst p @ '' {'' @ [LF] @ concat (map print_item (snd p)) @ ''}'' @ [LF]"

definition print_conf :: "ConfigDataHash \<Rightarrow> string" where
  "print_conf secs = concat (map print_section secs)"

text \<open>A word that needs no quotes; a value that can stand between quotes.\<close>

definition plain_char :: "char \<Rightarrow> bool" where
  "plain_char ch \<longleftrightarrow> ch \<notin> {CHR ''#'', CHR ''/'', CHR 0x22, CHR ''='', CHR ''{'', CHR ''}'', CHR '';'', CR, LF, CHR '' '', CHR 0x09}"

definition plain_word :: "string \<Rightarrow> bool" where
  "plain_word w \<longleftrightarrow> w \<noteq> [] \<and> (\<forall>ch\<in>set w. plain_char ch)"

definition quotable :: "string \<Rightarrow> bool" where
  "quotable v \<longleftrightarrow> v \<noteq> [] \<and> CHR 0x22 \<notin> set v"

definition printable :: "string \<times> KeyValList \<Rightarrow> bool" where
  "printable p \<longleftrightarrow> plain_word (fst p) \<and> (\<forall>(k, v)\<in>set (snd p). plain_word k \<and> quotable v)"

text \<open>The rest of a file from somewhere in a line.\<close>

definition conf_rest :: "nat \<Rightarrow> string \<Rightarrow> conf_state \<Rightarrow> (string \<times> nat) + conf_state" where
  "conf_rest n src st =
     (case conf_chars (takeWhile (\<lambda>c. c \<noteq> LF) src) st of
        Inl msg \<Rightarrow> Inl (msg, n + 1)
      | Inr st1 \<Rightarrow>
          (case conf_eol st1 of Inl msg \<Rightarrow> Inl (msg, n + 1)
           | Inr st2 \<Rightarrow> conf_lines (n + 1) (getlines (tl (dropWhile (\<lambda>c. c \<noteq> LF) src))) st2))"

lemma getlines_first:
  "src \<noteq> [] \<Longrightarrow> getlines src = takeWhile (\<lambda>c. c \<noteq> LF) src # getlines (tl (dropWhile (\<lambda>c. c \<noteq> LF) src))"
proof (induction src)
  case (Cons c cs)
  show ?case
  proof (cases "c = LF \<or> cs = []")
    case False
    with Cons.IH show ?thesis by simp
  qed auto
qed simp

lemma conf_lines_rest: "src \<noteq> [] \<Longrightarrow> conf_lines n (getlines src) st = conf_rest n src st"
  by (subst getlines_first) (auto simp: conf_rest_def split: sum.split)

lemma conf_rest_LF:
  assumes "conf_eol st = Inr st'"
  shows "conf_rest n (LF # src) st = conf_lines (n + 1) (getlines src) st'"
  using assms by (simp add: conf_rest_def)

lemma conf_rest_next:
  assumes "c \<noteq> LF" and "conf_char c (takeWhile (\<lambda>c. c \<noteq> LF) src) st = C_Next st'"
  shows "conf_rest n (c # src) st = conf_rest n src st'"
proof -
  have eqs: "takeWhile (\<lambda>c. c \<noteq> LF) (c # src) = c # takeWhile (\<lambda>c. c \<noteq> LF) src"
    "dropWhile (\<lambda>c. c \<noteq> LF) (c # src) = dropWhile (\<lambda>c. c \<noteq> LF) src" using assms(1) by simp_all
  show ?thesis unfolding conf_rest_def eqs by (simp add: assms(2))
qed

lemma conf_rest_word:
  assumes "\<forall>ch\<in>set w. plain_char ch" and "\<not> in_quote st" "\<not> in_ml_comment st" "in_word st \<or> wordbuffer st = []"
  shows "conf_rest n (w @ src) st =
    conf_rest n src (if w = [] then st else st\<lparr>wordbuffer := wordbuffer st @ w, in_word := True\<rparr>)"
  using assms
proof (induction w arbitrary: st)
  case (Cons c w)
  let ?st = "st\<lparr>wordbuffer := wordbuffer st @ [c], in_word := True\<rparr>"
  have "conf_rest n (c # w @ src) st = conf_rest n (w @ src) ?st"
    by (rule conf_rest_next) (use Cons.prems in \<open>auto simp: conf_char_def conf_plain_def plain_char_def\<close>)
  also have "\<dots> = conf_rest n src (if w = [] then ?st else ?st\<lparr>wordbuffer := wordbuffer ?st @ w, in_word := True\<rparr>)"
    by (rule Cons.IH) (use Cons.prems in simp_all)
  finally show ?case by (auto split: if_splits)
qed simp

lemma conf_rest_quoted:
  assumes "CHR 0x22 \<notin> set v" and "in_quote st"
  shows "\<exists>n'. conf_rest n (v @ CHR 0x22 # src) st =
    conf_rest n' src (st\<lparr>wordbuffer := wordbuffer st @ v, in_quote := False, in_word := False\<rparr>)"
  using assms
proof (induction v arbitrary: n st)
  case Nil
  then show ?case by (auto simp: conf_char_def intro!: exI [of _ n] conf_rest_next)
next
  case (Cons c v)
  let ?st = "st\<lparr>wordbuffer := wordbuffer st @ [c]\<rparr>"
  have step: "\<exists>n'. conf_rest n (c # v @ CHR 0x22 # src) st = conf_rest n' (v @ CHR 0x22 # src) ?st"
  proof (cases "c = LF")
    case True
    with Cons.prems have "conf_eol st = Inr ?st" by (simp add: conf_eol_def)
    from conf_rest_LF [OF this, of n "v @ CHR 0x22 # src"] True show ?thesis
      by (auto simp: conf_lines_rest)
  next
    case False
    with Cons.prems show ?thesis by (intro exI [of _ n] conf_rest_next) (auto simp: conf_char_def)
  qed
  then obtain n' where "conf_rest n (c # v @ CHR 0x22 # src) st = conf_rest n' (v @ CHR 0x22 # src) ?st" by blast
  with Cons.IH [of ?st n'] Cons.prems show ?case by simp
qed

text \<open>The state between two items, and between two sections.\<close>

definition at_item :: "string \<Rightarrow> KeyValList \<Rightarrow> ConfigDataHash \<Rightarrow> conf_state" where
  "at_item n kvs t = (conf_init t)\<lparr>sect := n, sectiondata := kvs\<rparr>"

lemmas at_defs = at_item_def conf_init_def

lemma conf_rest_item:
  assumes k: "plain_word k" and v: "quotable v" and n: "n \<noteq> []"
  shows "\<exists>m'. conf_rest m (print_item (k, v) @ src) (at_item n kvs t) = conf_lines m' (getlines src) (at_item n (kvs @ [(k, v)]) t)"
proof -
  let ?s0 = "at_item n kvs t"
  have "conf_rest m (k @ '' = '' @ [CHR 0x22] @ v @ [CHR 0x22, LF] @ src) ?s0 =
      conf_rest m ('' = '' @ [CHR 0x22] @ v @ [CHR 0x22, LF] @ src) (?s0\<lparr>wordbuffer := k, in_word := True\<rparr>)"
    using k by (subst conf_rest_word) (auto simp: plain_word_def at_defs)
  also have "\<dots> = conf_rest m (''= '' @ [CHR 0x22] @ v @ [CHR 0x22, LF] @ src) (?s0\<lparr>wordbuffer := k\<rparr>)"
    by (simp, rule conf_rest_next) (auto simp: conf_char_def at_defs)
  also have "\<dots> = conf_rest m ('' '' @ [CHR 0x22] @ v @ [CHR 0x22, LF] @ src) (?s0\<lparr>itemname := k\<rparr>)"
    using n by (simp, intro conf_rest_next) (auto simp: conf_char_def conf_equals_def at_defs)
  also have "\<dots> = conf_rest m ([CHR 0x22] @ v @ [CHR 0x22, LF] @ src) (?s0\<lparr>itemname := k\<rparr>)"
    by (simp, rule conf_rest_next) (auto simp: conf_char_def at_defs)
  also have "\<dots> = conf_rest m (v @ [CHR 0x22, LF] @ src) (?s0\<lparr>itemname := k, in_quote := True, in_word := True\<rparr>)"
    using n k by (simp, intro conf_rest_next) (auto simp: conf_char_def conf_quote_def at_defs plain_word_def)
  finally have 1: "conf_rest m (print_item (k, v) @ src) ?s0 =
      conf_rest m (v @ CHR 0x22 # LF # src) (?s0\<lparr>itemname := k, in_quote := True, in_word := True\<rparr>)"
    by (simp add: print_item_def)
  obtain m' where 2: "conf_rest m (v @ CHR 0x22 # LF # src) (?s0\<lparr>itemname := k, in_quote := True, in_word := True\<rparr>) =
      conf_rest m' (LF # src) (?s0\<lparr>itemname := k, wordbuffer := v\<rparr>)"
    using conf_rest_quoted [of v "?s0\<lparr>itemname := k, in_quote := True, in_word := True\<rparr>" m "LF # src"] v
    by (auto simp: quotable_def at_defs)
  have "conf_eol (?s0\<lparr>itemname := k, wordbuffer := v\<rparr>) = Inr (at_item n (kvs @ [(k, v)]) t)"
    using k v by (auto simp: conf_eol_def at_defs plain_word_def quotable_def)
  from conf_rest_LF [OF this, of m' src] 1 2 show ?thesis by auto
qed

lemma conf_lines_items:
  assumes "\<forall>(k, v)\<in>set kvs'. plain_word k \<and> quotable v" and n: "n \<noteq> []" and src: "src \<noteq> []"
  shows "\<exists>m'. conf_lines m (getlines (concat (map print_item kvs') @ src)) (at_item n kvs t) =
    conf_lines m' (getlines src) (at_item n (kvs @ kvs') t)"
  using assms(1)
proof (induction kvs' arbitrary: kvs m)
  case (Cons kv kvs')
  obtain k v where kv: "kv = (k, v)" by (cases kv)
  let ?rest = "concat (map print_item kvs') @ src"
  from Cons.prems kv have ok: "plain_word k" "quotable v" "\<forall>(k, v)\<in>set kvs'. plain_word k \<and> quotable v" by auto
  obtain m1 where "conf_rest m (print_item (k, v) @ ?rest) (at_item n kvs t) =
      conf_lines m1 (getlines ?rest) (at_item n (kvs @ [(k, v)]) t)"
    using conf_rest_item [OF ok(1,2) n] by blast
  moreover obtain m2 where "conf_lines m1 (getlines ?rest) (at_item n (kvs @ [(k, v)]) t) =
      conf_lines m2 (getlines src) (at_item n ((kvs @ [(k, v)]) @ kvs') t)"
    using Cons.IH [OF ok(3)] by blast
  moreover have "print_item (k, v) \<noteq> []" by (simp add: print_item_def)
  ultimately show ?case by (auto simp: kv conf_lines_rest)
qed auto

lemma conf_lines_section:
  assumes p: "printable (n, kvs)"
  shows "\<exists>m'. conf_lines m (getlines (print_section (n, kvs) @ src)) (conf_init t) =
    conf_lines m' (getlines src) (conf_init (mm_insert n kvs t))"
proof -
  from p have n: "plain_word n" "n \<noteq> []" and kvs: "\<forall>(k, v)\<in>set kvs. plain_word k \<and> quotable v"
    by (auto simp: printable_def plain_word_def)
  let ?items = "concat (map print_item kvs) @ ''}'' @ [LF] @ src"
  have "conf_lines m (getlines (print_section (n, kvs) @ src)) (conf_init t) = conf_rest m (n @ '' {'' @ [LF] @ ?items) (conf_init t)"
    using n by (simp add: conf_lines_rest print_section_def)
  also have "\<dots> = conf_rest m ('' {'' @ [LF] @ ?items) ((conf_init t)\<lparr>wordbuffer := n, in_word := True\<rparr>)"
    using n by (subst conf_rest_word) (auto simp: plain_word_def conf_init_def)
  also have "\<dots> = conf_rest m (''{'' @ [LF] @ ?items) ((conf_init t)\<lparr>wordbuffer := n\<rparr>)"
    by (simp, rule conf_rest_next) (auto simp: conf_char_def conf_init_def)
  also have "\<dots> = conf_rest m ([LF] @ ?items) (at_item n [] t)"
    using n by (simp, intro conf_rest_next) (auto simp: conf_char_def conf_open_def at_defs)
  also have "\<dots> = conf_lines (m + 1) (getlines ?items) (at_item n [] t)"
    by (simp, subst conf_rest_LF [of _ "at_item n [] t"]) (auto simp: conf_eol_def at_defs)
  finally have 1: "conf_lines m (getlines (print_section (n, kvs) @ src)) (conf_init t) =
      conf_lines (m + 1) (getlines ?items) (at_item n [] t)" .
  obtain m' where 2: "conf_lines (m + 1) (getlines ?items) (at_item n [] t) =
      conf_lines m' (getlines (''}'' @ [LF] @ src)) (at_item n kvs t)"
    using conf_lines_items [OF kvs n(2), of "''}'' @ [LF] @ src" "m + 1" "[]" t] by auto
  have "conf_lines m' (getlines (''}'' @ [LF] @ src)) (at_item n kvs t) =
      conf_rest m' ([LF] @ src) (conf_init (mm_insert n kvs t))"
    unfolding append.simps using n
    by (subst conf_lines_rest, simp, intro conf_rest_next) (auto simp: conf_char_def conf_close_def at_defs)
  also have "\<dots> = conf_lines (m' + 1) (getlines src) (conf_init (mm_insert n kvs t))"
    by (simp, subst conf_rest_LF [of _ "conf_init (mm_insert n kvs t)"]) (auto simp: conf_eol_def conf_init_def)
  finally show ?thesis using 1 2 by auto
qed

lemma conf_lines_printed:
  assumes "\<forall>p\<in>set secs. printable p"
  shows "\<exists>st. conf_lines m (getlines (print_conf secs)) (conf_init t) = Inr st \<and>
    st = conf_init (fold (\<lambda>(n, kvs). mm_insert n kvs) secs t)"
  using assms
proof (induction secs arbitrary: m t)
  case (Cons p secs)
  obtain n kvs where p: "p = (n, kvs)" by (cases p)
  obtain m' where "conf_lines m (getlines (print_section (n, kvs) @ print_conf secs)) (conf_init t) =
      conf_lines m' (getlines (print_conf secs)) (conf_init (mm_insert n kvs t))"
    using conf_lines_section Cons.prems p by (metis list.set_intros(1))
  with Cons p show ?case by (simp add: print_conf_def)
qed (simp add: print_conf_def)

text \<open>Claim C22: printing sections with names of plain characters and quoted, non-empty values, line ends
  included, and loading the text gives back exactly these sections, in the order of the multimap.\<close>

theorem LoadConf_print:
  assumes "\<forall>p\<in>set secs. printable p"
  shows "LoadConf t (Some (print_conf secs)) = Inr (fold (\<lambda>(n, kvs). mm_insert n kvs) secs t)"
  using conf_lines_printed [OF assms, of 0 t] by (auto simp: LoadConf_def conf_eof_def conf_init_def)

theorem LoadConf_print_witness:
  "LoadConf [] (Some (print_conf [(''module'', [(''name'', ''m_cgi.so'')]), (''bind'', [(''port'', ''80'' @ [LF] @ ''81'')])])) =
   Inr [(''bind'', [(''port'', ''80'' @ [LF] @ ''81'')]), (''module'', [(''name'', ''m_cgi.so'')])]"
  using LoadConf_print [of "[(''module'', [(''name'', ''m_cgi.so'')]), (''bind'', [(''port'', ''80'' @ [LF] @ ''81'')])]" "[]"]
  by (simp add: printable_def plain_word_def plain_char_def quotable_def st.lt_key)

end
