(* ===== verification/ServerState.thy ===== *)
theory ServerState
  imports Logger Headers Numeric ModuleManager ConfigParse
begin

text \<open>
  The state of the daemon: \<open>ServerConfig\<close> (\<open>include/configreader.h\<close>), \<open>Connection\<close>
  (\<open>include/connections.h\<close>), the objects of the CGI module (\<open>src/modules/m_cgi.cpp\<close>) and
  \<open>InspIRCd\<close> (\<open>include/inspircd.h\<close>), each as a record. Objects that the code reaches through
  pointers live in a heap, a map from addresses; a list of pointers is a list of addresses.
\<close>

section \<open>Configuration\<close>

text \<open>The values of \<open>LogLevel\<close>, in order of importance.\<close>

datatype log_level = DEBUG | VERBOSE | DEFAULT | SPARSE | NONE

text \<open>\<open>ports\<close> points at the listeners; \<open>log_file\<close> is whether the file is open.\<close>

record server_config =
  config_data :: ConfigDataHash
  ModPath :: string
  MyExecutable :: string
  log_file :: bool
  nofork :: bool
  forcedebug :: bool
  writelog :: bool
  NetBufferSize :: int
  MaxConn :: int
  SoftLimit :: nat
  MaximumDynamicProcesses :: int
  debugging :: bool
  LogLevel :: log_level
  PID :: string
  ports :: "nat list"
  logpath :: string
  CustomVersion :: string
  MyDir :: string
  DocRoot :: string
  ChRoot :: string
  MaxPostBody :: int
  StatCacheDuration :: int
  TimeoutCullFrequency :: int
  TimeoutTotalLifetime :: int
  TimeoutIdleLifetime :: int
  SetUser :: string
  SetGroup :: string
  FollowSymLinks :: bool
  NoAtime :: bool
  KeepAliveMax :: int
  prog_argv :: "string list"

section \<open>Listeners\<close>

record listen_socket =
  ls_fd :: int
  ls_v6 :: bool
  bind_addr :: string
  bind_port :: int

section \<open>Connections\<close>

datatype HttpState = HTTP_WAIT_REQUEST | HTTP_RECV_REQBODY | HTTP_SEND_HEADERS | HTTP_SEND_DATA | HTTP_FINISHED
datatype http_version = HTTP_UNSPECIFIED | HTTP_1_0 | HTTP_1_1

text \<open>\<open>this_ptr\<close> is the address of the object; \<open>ResponseBackend\<close> is whether the pointer is set
  (it then points at the one \<open>WriteBackend\<close>); \<open>privip\<close> is family, address and port.\<close>

record conn =
  this_ptr :: nat
  fd :: int
  age :: int
  State :: HttpState
  ip :: string
  sendq :: string
  requestbuf :: string
  LastSocketEvent :: int
  RequestsCompleted :: int
  conn_headers :: headers
  http_method :: string
  uri :: string
  uriquery :: string
  upath :: string
  http_version :: http_version
  keepalive :: bool
  RequestBodyLength :: nat
  RequestBody :: string
  ResponseBufferDone :: bool
  ResponseBackend :: bool
  filefd :: int
  rfilesize :: int
  rfilesent :: int
  quitting :: bool
  privip :: "(bool \<times> string \<times> int) option"

section \<open>CGI requests\<close>

record cgi_request =
  cgi_fd :: int
  cgi_conn :: nat
  cgi_rbuf :: string
  cgi_done :: bool

text \<open>The two modules of the sources, and any other one as the base class \<open>Module\<close> behaves.\<close>

datatype hmodule = M_CGI | M_Test | M_Base nat

section \<open>The server\<close>

text \<open>\<open>StatCacheItem\<close> of \<open>include/filesystem.h\<close>.\<close>

record stat_item =
  si_created :: int
  si_value :: stat
  si_result :: int
  si_error :: errcode

record server = io +
  Config :: server_config
  ConfigFileName :: string
  IPV6 :: bool
  MAXCLIENTS :: nat
  TIME :: int
  OLDTIME :: int
  s_signal :: int
  listeners :: "nat \<Rightarrow> listen_socket option"
  conns :: "nat \<Rightarrow> conn option"
  next_addr :: nat
  local_connections :: "nat list"
  culls :: "nat list"
  StatCache :: "(string \<times> stat_item) list"
  LinkStatCache :: "(string \<times> stat_item) list"
  MimeTypes :: mimetypes
  ModMgr :: "hmodule module_manager"
  CGITypes :: "(string \<times> string) list"
  CGIRequests :: "(nat \<times> nat) list"
  cgis :: "nat \<Rightarrow> cgi_request option"
  total_cgi_processes :: int
  ShuttingDown :: bool
  LogFile :: "file_logger option"

abbreviation event_handlers :: "server \<Rightarrow> hook \<Rightarrow> hmodule list" where
  "event_handlers s \<equiv> EventHandlers (ModMgr s)"

text \<open>Operations of the socket engine on the server's state, and their frame.\<close>

abbreviation srv_io :: "server \<Rightarrow> server \<Rightarrow> bool" where "srv_io s s' \<equiv> io_frame s s'"

lemma srv_io_fields:
  assumes "srv_io s s'"
  shows "Config s' = Config s" "MAXCLIENTS s' = MAXCLIENTS s" "TIME s' = TIME s" "conns s' = conns s"
    "next_addr s' = next_addr s" "local_connections s' = local_connections s" "culls s' = culls s"
    "StatCache s' = StatCache s" "LinkStatCache s' = LinkStatCache s" "MimeTypes s' = MimeTypes s"
    "ModMgr s' = ModMgr s" "event_handlers s' = event_handlers s" "CGITypes s' = CGITypes s" "CGIRequests s' = CGIRequests s"
    "cgis s' = cgis s" "total_cgi_processes s' = total_cgi_processes s" "ShuttingDown s' = ShuttingDown s"
    "world s' = world s" "listeners s' = listeners s" "IPV6 s' = IPV6 s" "OLDTIME s' = OLDTIME s"
    "s_signal s' = s_signal s" "ConfigFileName s' = ConfigFileName s" "LogFile s' = LogFile s"
proof -
  from assms have "s' = s\<lparr>trace := trace s', errno := errno s', SE := SE s'\<rparr>"
    by (rule io_frame_shape)
  then show "Config s' = Config s" "MAXCLIENTS s' = MAXCLIENTS s" "TIME s' = TIME s" "conns s' = conns s"
    "next_addr s' = next_addr s" "local_connections s' = local_connections s" "culls s' = culls s"
    "StatCache s' = StatCache s" "LinkStatCache s' = LinkStatCache s" "MimeTypes s' = MimeTypes s"
    "ModMgr s' = ModMgr s" "event_handlers s' = event_handlers s" "CGITypes s' = CGITypes s" "CGIRequests s' = CGIRequests s"
    "cgis s' = cgis s" "total_cgi_processes s' = total_cgi_processes s" "ShuttingDown s' = ShuttingDown s"
    "world s' = world s" "listeners s' = listeners s" "IPV6 s' = IPV6 s" "OLDTIME s' = OLDTIME s"
    "s_signal s' = s_signal s" "ConfigFileName s' = ConfigFileName s" "LogFile s' = LogFile s"
    by (cases s; cases s'; simp)+
qed

section \<open>\<open>asctime(gmtime(&t))\<close>, without the line end that the sources cut off\<close>

text \<open>The civil date of a day number (day 0 is 1 January 1970), on the 400-year cycle of the
  Gregorian calendar counted from 1 March.\<close>

definition civil_from_days :: "int \<Rightarrow> int \<times> int \<times> int" where
  "civil_from_days d =
     (let z = d + 719468; era = z div 146097; doe = z mod 146097;
          yoe = (doe - doe div 1460 + doe div 36524 - doe div 146096) div 365;
          doy = doe - (365 * yoe + yoe div 4 - yoe div 100);
          mp = (5 * doy + 2) div 153;
          day = doy - (153 * mp + 2) div 5 + 1;
          month = (if mp < 10 then mp + 3 else mp - 9)
      in (yoe + era * 400 + (if month \<le> 2 then 1 else 0), month, day))"

definition two_digits :: "int \<Rightarrow> string" where
  "two_digits n = (if n < 10 then ''0'' else []) @ ConvNumeric n"

definition three_wide :: "int \<Rightarrow> string" where
  "three_wide n = (if n < 10 then ''  '' else '' '') @ ConvNumeric n"

definition asctime_gmt :: "int \<Rightarrow> string" where
  "asctime_gmt t =
     (let days = t div 86400; secs = t mod 86400 in
      case civil_from_days days of (y, m, d) \<Rightarrow>
        [''Sun'', ''Mon'', ''Tue'', ''Wed'', ''Thu'', ''Fri'', ''Sat''] ! nat ((days + 4) mod 7) @ '' '' @
        [''Jan'', ''Feb'', ''Mar'', ''Apr'', ''May'', ''Jun'', ''Jul'', ''Aug'', ''Sep'', ''Oct'', ''Nov'', ''Dec'']
          ! nat (m - 1) @
        three_wide d @ '' '' @ two_digits (secs div 3600) @ '':'' @ two_digits (secs div 60 mod 60) @ '':'' @
        two_digits (secs mod 60) @ '' '' @ ConvNumeric y)"

lemma asctime_gmt_example: "asctime_gmt 1199145600 = ''Tue Jan  1 00:00:00 2008''"
  by code_simp

end
