(* ===== verification/FileSystem.thy ===== *)
theory FileSystem
  imports ServerState
begin

text \<open>
  \<open>FileSystem\<close> (\<open>src/filesystem.cpp\<close>): the cache of \<open>stat\<close> results and the walk down a path
  that decides what file a request names. \<open>fst\<close>, a pointer to the result, is the result itself:
  the code reads through it only before the next \<open>Stat\<close>.
\<close>

section \<open>The cache\<close>

definition stat_sys :: "bool \<Rightarrow> string \<Rightarrow> syscall" where
  "stat_sys followlink path = (if followlink then Sys_stat path else Sys_lstat path)"

definition stat_cache :: "bool \<Rightarrow> server \<Rightarrow> (string \<times> stat_item) list" where
  "stat_cache followlink s = (if followlink then StatCache s else LinkStatCache s)"

definition set_stat_cache :: "bool \<Rightarrow> (string \<times> stat_item) list \<Rightarrow> server \<Rightarrow> server" where
  "set_stat_cache followlink m s = (if followlink then s\<lparr>StatCache := m\<rparr> else s\<lparr>LinkStatCache := m\<rparr>)"

definition stat_expire :: "stat_item \<Rightarrow> server \<Rightarrow> int" where
  "stat_expire v s =
     to_int32 (if si_result v < 0 then si_created v + 1 else si_created v + StatCacheDuration (Config s))"

definition stat_fresh :: "string \<Rightarrow> bool \<Rightarrow> server \<Rightarrow> int \<times> stat \<times> server" where
  "stat_fresh path followlink s =
     (case syscall (stat_sys followlink path) s of (r, s1) \<Rightarrow>
        let result = \<lparr>si_created = TIME s, si_value = r_stat r, si_result = r_ret r,
                      si_error = (if r_ret r < 0 then errno s1 else E_NONE)\<rparr>
        in (si_result result, si_value result,
            set_stat_cache followlink (om_insert str_less path result (stat_cache followlink s1)) s1))"

definition FileSystem_Stat :: "string \<Rightarrow> bool \<Rightarrow> bool \<Rightarrow> server \<Rightarrow> int \<times> stat \<times> server" where
  "FileSystem_Stat path followlink fromcache s =
     (if StatCacheDuration (Config s) < 1 then
        (case syscall (stat_sys followlink path) s of (r, s1) \<Rightarrow> (r_ret r, r_stat r, s1))
      else
        (case om_find str_less path (stat_cache followlink s) of
           None \<Rightarrow> stat_fresh path followlink s
         | Some v \<Rightarrow>
             if fromcache \<and> stat_expire v s > TIME s then
               (si_result v, si_value v, if si_result v < 0 then s\<lparr>errno := si_error v\<rparr> else s)
             else
               stat_fresh path followlink
                 (set_stat_cache followlink (om_erase str_less path (stat_cache followlink s)) s)))"

text \<open>Every entry of a cache is a recorded answer of the kernel to the same question.\<close>

definition answers :: "syscall \<Rightarrow> int \<Rightarrow> stat \<Rightarrow> (syscall \<times> reply) list \<Rightarrow> bool" where
  "answers c ret st tr \<longleftrightarrow> (\<exists>r. (c, r) \<in> set tr \<and> r_ret r = ret \<and> r_stat r = st)"

definition cache_ok :: "server \<Rightarrow> bool" where
  "cache_ok s \<longleftrightarrow> (\<forall>fl. st.om_inv (stat_cache fl s) \<and>
     (\<forall>(path, v)\<in>set (stat_cache fl s). answers (stat_sys fl path) (si_result v) (si_value v) (trace s)))"

lemma stat_cache_set [simp]:
  "stat_cache fl (set_stat_cache fl' m s) = (if fl = fl' then m else stat_cache fl s)"
  "trace (set_stat_cache fl' m s) = trace s" "TIME (set_stat_cache fl' m s) = TIME s"
  "Config (set_stat_cache fl' m s) = Config s" "errno (set_stat_cache fl' m s) = errno s"
  by (auto simp: stat_cache_def set_stat_cache_def)

lemma stat_cache_io: "srv_io s s' \<Longrightarrow> stat_cache fl s' = stat_cache fl s"
  by (simp add: stat_cache_def srv_io_fields)

lemma answers_append: "answers c r st tr \<Longrightarrow> answers c r st (tr @ tr')"
  by (auto simp: answers_def)

lemma om_insert_mem: "p \<in> set (om_insert str_less k v m) \<Longrightarrow> p = (k, v) \<or> p \<in> set m \<or> (fst p = k \<and> snd p = v)"
  by (induction m) (auto split: if_splits)

lemma stat_fresh_ok:
  assumes ok: "cache_ok s" and step: "stat_fresh path fl s = (ret, st, s')"
  shows "cache_ok s'" and "answers (stat_sys fl path) ret st (trace s')"
    and "\<exists>r. trace s' = trace s @ [(stat_sys fl path, r)]"
proof -
  obtain r s1 where call: "syscall (stat_sys fl path) s = (r, s1)" by fastforce
  note tr = syscall_trace [OF call] and fr = syscall_frame [OF call]
  define v where "v = \<lparr>si_created = TIME s, si_value = r_stat r, si_result = r_ret r,
    si_error = (if r_ret r < 0 then errno s1 else E_NONE)\<rparr>"
  from step call have s': "s' = set_stat_cache fl (om_insert str_less path v (stat_cache fl s)) s1"
    and rs: "ret = r_ret r" "st = r_stat r"
    by (auto simp: stat_fresh_def Let_def v_def stat_cache_io [OF fr])
  show tr': "\<exists>r. trace s' = trace s @ [(stat_sys fl path, r)]" by (simp add: s' tr)
  show "answers (stat_sys fl path) ret st (trace s')" by (auto simp: answers_def s' tr rs)
  have "answers (stat_sys fl p) (si_result w) (si_value w) (trace s')"
    if "(p, w) \<in> set (om_insert str_less path v (stat_cache fl s))" for p w
  proof -
    from om_insert_mem [OF that] show ?thesis
    proof (elim disjE)
      assume "(p, w) \<in> set (stat_cache fl s)"
      with ok have "answers (stat_sys fl p) (si_result w) (si_value w) (trace s)" by (auto simp: cache_ok_def)
      then show ?thesis by (simp add: s' tr answers_append)
    qed (auto simp: answers_def s' tr v_def)
  qed
  moreover have "answers (stat_sys f p) (si_result w) (si_value w) (trace s')"
    if "(p, w) \<in> set (stat_cache f s)" for f p w
    using that ok by (auto simp: cache_ok_def s' tr intro!: answers_append)
  ultimately show "cache_ok s'"
    using ok by (auto simp: cache_ok_def s' stat_cache_io [OF fr] st.om_inv_insert)
qed

lemma cache_ok_erase: "cache_ok s \<Longrightarrow> cache_ok (set_stat_cache fl (om_erase str_less p (stat_cache fl s)) s)"
  using st.set_om_erase [of p] st.om_inv_erase by (fastforce simp: cache_ok_def)

lemma Stat_faithful:
  assumes "cache_ok s" and "FileSystem_Stat path fl fromcache s = (ret, st, s')"
  shows "cache_ok s' \<and> answers (stat_sys fl path) ret st (trace s') \<and>
    (if trace s' = trace s then fromcache \<and> StatCacheDuration (Config s) \<ge> 1 \<and>
       (\<exists>v. om_find str_less path (stat_cache fl s) = Some v \<and> stat_expire v s > TIME s)
     else \<exists>r. trace s' = trace s @ [(stat_sys fl path, r)])"
proof (cases "StatCacheDuration (Config s) < 1")
  case True
  with assms(2) obtain r where call: "syscall (stat_sys fl path) s = (r, s')" and rs: "ret = r_ret r" "st = r_stat r"
    by (auto simp: FileSystem_Stat_def split: prod.splits)
  note tr = syscall_trace [OF call]
  have "cache_ok s'"
    using assms(1) by (auto simp: cache_ok_def stat_cache_io [OF syscall_frame [OF call]] tr intro!: answers_append)
  with tr rs show ?thesis by (auto simp: answers_def)
next
  case on: False
  show ?thesis
  proof (cases "om_find str_less path (stat_cache fl s)")
    case None
    with on assms(2) have "stat_fresh path fl s = (ret, st, s')" by (simp add: FileSystem_Stat_def)
    from stat_fresh_ok [OF assms(1) this] show ?thesis by auto
  next
    case (Some v)
    show ?thesis
    proof (cases "fromcache \<and> stat_expire v s > TIME s")
      case True
      with on Some assms(2) have r: "ret = si_result v" "st = si_value v" "trace s' = trace s"
        "\<And>f. stat_cache f s' = stat_cache f s"
        by (auto simp: FileSystem_Stat_def stat_cache_def)
      from st.om_find_Some_mem [OF Some] have "(path, v) \<in> set (stat_cache fl s)" by simp
      with assms(1) r True on Some show ?thesis by (auto simp: cache_ok_def)
    next
      case False
      let ?s = "set_stat_cache fl (om_erase str_less path (stat_cache fl s)) s"
      from False on Some assms(2) have "stat_fresh path fl ?s = (ret, st, s')"
        by (auto simp: FileSystem_Stat_def)
      from stat_fresh_ok [OF cache_ok_erase [OF assms(1)] this] show ?thesis by auto
    qed
  qed
qed

definition fs_demo :: server where
  "fs_demo =
     \<lparr>world = (\<lambda>tr c. (quiet_kernel tr c)\<lparr>r_stat := \<lparr>st_kind = S_REG, st_size = 3, st_uid = 0\<rparr>\<rparr>),
      trace = [], errno = E_NONE, SE = engine_new EPollEngine 64 64,
      Config = \<lparr>config_data = [], ModPath = ''/mods'', MyExecutable = ''hottpd'', log_file = True, nofork = False,
        forcedebug = False, writelog = True, NetBufferSize = 10240, MaxConn = 5, SoftLimit = 10,
        MaximumDynamicProcesses = 2, debugging = False, LogLevel = DEFAULT, PID = [], ports = [], logpath = [],
        CustomVersion = [], MyDir = ''/srv'', DocRoot = ''/srv/'', ChRoot = [], MaxPostBody = 1000, StatCacheDuration = 60,
        TimeoutCullFrequency = 3, TimeoutTotalLifetime = 600, TimeoutIdleLifetime = 60, SetUser = [], SetGroup = [],
        FollowSymLinks = True, NoAtime = False, KeepAliveMax = 100, prog_argv = [''hottpd'']\<rparr>,
      ConfigFileName = ''/etc/hottpd.conf'', IPV6 = False,
      MAXCLIENTS = 32, TIME = 1000, OLDTIME = 999, s_signal = 0, listeners = (\<lambda>_. None), conns = (\<lambda>_. None), next_addr = 1, local_connections = [], culls = [],
      StatCache = [], LinkStatCache = [], MimeTypes = builtin_types, ModMgr = ModuleManager_new,
      CGITypes = [], CGIRequests = [], cgis = (\<lambda>_. None), total_cgi_processes = 0, ShuttingDown = False, LogFile = None\<rparr>"

lemma fs_demo_cache [simp]: "cache_ok fs_demo"
  by (simp add: cache_ok_def stat_cache_def fs_demo_def)

text \<open>What one call does to the caches: a cached answer is the entry's, and is given before the
  entry expires; a fresh one is stored under the path with the time of the call and nothing else
  changes.\<close>

lemma stat_fresh_stores:
  assumes ok: "cache_ok s" and step: "stat_fresh path fl s = (ret, st, s')"
  shows "\<exists>r. trace s' = trace s @ [(stat_sys fl path, r)] \<and> ret = r_ret r \<and> st = r_stat r"
    and "\<exists>v. om_find str_less path (stat_cache fl s') = Some v \<and> si_created v = TIME s \<and>
      si_result v = ret \<and> si_value v = st \<and> (ret < 0 \<longrightarrow> si_error v = errno s')"
    and "p \<noteq> path \<Longrightarrow> om_find str_less p (stat_cache fl s') = om_find str_less p (stat_cache fl s)"
    and "stat_cache (\<not> fl) s' = stat_cache (\<not> fl) s"
proof -
  obtain r s1 where call: "syscall (stat_sys fl path) s = (r, s1)" by fastforce
  note tr = syscall_trace [OF call] and fr = syscall_frame [OF call]
  define v where "v = \<lparr>si_created = TIME s, si_value = r_stat r, si_result = r_ret r,
    si_error = (if r_ret r < 0 then errno s1 else E_NONE)\<rparr>"
  from step call have s': "s' = set_stat_cache fl (om_insert str_less path v (stat_cache fl s)) s1"
    and rs: "ret = r_ret r" "st = r_stat r"
    by (auto simp: stat_fresh_def Let_def v_def stat_cache_io [OF fr])
  have inv: "st.om_inv (stat_cache fl s)" using ok by (simp add: cache_ok_def)
  show "\<exists>r. trace s' = trace s @ [(stat_sys fl path, r)] \<and> ret = r_ret r \<and> st = r_stat r"
    by (simp add: s' tr rs)
  show "\<exists>v. om_find str_less path (stat_cache fl s') = Some v \<and> si_created v = TIME s \<and>
      si_result v = ret \<and> si_value v = st \<and> (ret < 0 \<longrightarrow> si_error v = errno s')"
    by (rule exI [of _ v]) (simp add: s' rs v_def st.om_find_insert [OF inv])
  show "p \<noteq> path \<Longrightarrow> om_find str_less p (stat_cache fl s') = om_find str_less p (stat_cache fl s)"
    by (simp add: s' st.om_find_insert [OF inv])
  show "stat_cache (\<not> fl) s' = stat_cache (\<not> fl) s"
    by (simp add: s' stat_cache_io [OF fr])
qed

lemma Stat_cached:
  assumes ok: "cache_ok s" and step: "FileSystem_Stat path fl fromcache s = (ret, st, s')" and on: "\<not> StatCacheDuration (Config s) < 1"
  shows "if trace s' = trace s then
      fromcache \<and> (\<forall>f. stat_cache f s' = stat_cache f s) \<and>
      (\<exists>v. om_find str_less path (stat_cache fl s) = Some v \<and> ret = si_result v \<and> st = si_value v \<and>
         (ret < 0 \<longrightarrow> errno s' = si_error v) \<and>
         TIME s < to_int32 (si_created v + (if ret < 0 then 1 else StatCacheDuration (Config s))))
    else
      (\<exists>r. trace s' = trace s @ [(stat_sys fl path, r)] \<and> ret = r_ret r \<and> st = r_stat r) \<and>
      (\<exists>v. om_find str_less path (stat_cache fl s') = Some v \<and> si_created v = TIME s \<and>
         si_result v = ret \<and> si_value v = st \<and> (ret < 0 \<longrightarrow> si_error v = errno s')) \<and>
      (\<forall>p. p \<noteq> path \<longrightarrow> om_find str_less p (stat_cache fl s') = om_find str_less p (stat_cache fl s)) \<and>
      stat_cache (\<not> fl) s' = stat_cache (\<not> fl) s"
proof (cases "om_find str_less path (stat_cache fl s)")
  case None
  with on step have e: "stat_fresh path fl s = (ret, st, s')" by (simp add: FileSystem_Stat_def)
  note r = stat_fresh_stores [OF ok e]
  from r(1) have "trace s' \<noteq> trace s" by auto
  with r show ?thesis by simp
next
  case (Some v)
  show ?thesis
  proof (cases "fromcache \<and> stat_expire v s > TIME s")
    case True
    with on Some step have "ret = si_result v" "st = si_value v" "trace s' = trace s"
      "\<And>f. stat_cache f s' = stat_cache f s" "ret < 0 \<longrightarrow> errno s' = si_error v"
      by (auto simp: FileSystem_Stat_def stat_cache_def)
    moreover from this True have "TIME s < to_int32 (si_created v + (if ret < 0 then 1 else StatCacheDuration (Config s)))"
      by (simp add: stat_expire_def split: if_splits)
    ultimately show ?thesis using True Some by simp
  next
    case False
    let ?s = "set_stat_cache fl (om_erase str_less path (stat_cache fl s)) s"
    from False on Some step have e: "stat_fresh path fl ?s = (ret, st, s')"
      by (auto simp: FileSystem_Stat_def)
    note r = stat_fresh_stores [OF cache_ok_erase [OF ok] e]
    have inv: "st.om_inv (stat_cache fl s)" using ok by (simp add: cache_ok_def)
    from r(1) have "trace s' \<noteq> trace s" by auto
    with r st.om_find_erase [OF inv] show ?thesis by simp
  qed
qed

text \<open>Claim C8: the answer of \<open>Stat\<close> is always one the kernel has given for that very path and
  kind of query, never one for another path. An answer without a call is the value, the result and
  the error of the entry stored under the path, with \<open>fromcache\<close> on, less than
  \<open>StatCacheDuration\<close> seconds (one second for a failure) after the time the entry bears;
  otherwise there is exactly one call, its reply is the answer, and when the cache is on it is stored
  under the path with the time of the call, no other entry of either cache changing. The caches keep
  their invariant.\<close>

theorem stat_cache_faithful:
  assumes "cache_ok s" and "FileSystem_Stat path fl fromcache s = (ret, st, s')"
  shows "cache_ok s' \<and> answers (stat_sys fl path) ret st (trace s') \<and>
    (if trace s' = trace s then
       fromcache \<and> StatCacheDuration (Config s) \<ge> 1 \<and> (\<forall>f. stat_cache f s' = stat_cache f s) \<and>
       (\<exists>v. om_find str_less path (stat_cache fl s) = Some v \<and> ret = si_result v \<and> st = si_value v \<and>
          (ret < 0 \<longrightarrow> errno s' = si_error v) \<and>
          TIME s < to_int32 (si_created v + (if ret < 0 then 1 else StatCacheDuration (Config s))))
     else
       (\<exists>r. trace s' = trace s @ [(stat_sys fl path, r)] \<and> ret = r_ret r \<and> st = r_stat r) \<and>
       (if StatCacheDuration (Config s) < 1 then \<forall>f. stat_cache f s' = stat_cache f s
        else
          (\<exists>v. om_find str_less path (stat_cache fl s') = Some v \<and> si_created v = TIME s \<and>
             si_result v = ret \<and> si_value v = st \<and> (ret < 0 \<longrightarrow> si_error v = errno s')) \<and>
          (\<forall>p. p \<noteq> path \<longrightarrow> om_find str_less p (stat_cache fl s') = om_find str_less p (stat_cache fl s)) \<and>
          stat_cache (\<not> fl) s' = stat_cache (\<not> fl) s))"
proof (cases "StatCacheDuration (Config s) < 1")
  case True
  with assms(2) obtain r where call: "syscall (stat_sys fl path) s = (r, s')" and rs: "ret = r_ret r" "st = r_stat r"
    by (auto simp: FileSystem_Stat_def split: prod.splits)
  with Stat_faithful [OF assms] True syscall_trace [OF call] stat_cache_io [OF syscall_frame [OF call]]
  show ?thesis by simp
next
  case False
  with Stat_faithful [OF assms] Stat_cached [OF assms False] show ?thesis by (simp split: if_splits)
qed

theorem stat_cache_faithful_witness:
  "case FileSystem_Stat ''/srv/x'' True True fs_demo of (ret, st, s') \<Rightarrow>
     answers (Sys_stat ''/srv/x'') 0 st (trace s') \<and> st_size st = 3 \<and>
     (case FileSystem_Stat ''/srv/x'' True True s' of (ret2, st2, s2) \<Rightarrow> trace s2 = trace s' \<and> st2 = st) \<and>
     (case FileSystem_Stat ''/srv/x'' True True (s'\<lparr>TIME := 1060\<rparr>) of (ret2, st2, s2) \<Rightarrow> trace s2 \<noteq> trace s')"
proof -
  obtain ret st s' where e: "FileSystem_Stat ''/srv/x'' True True fs_demo = (ret, st, s')" by (cases rule: prod_cases3)
  then have r: "ret = 0 \<and> st_size st = 3"
    by (auto simp: FileSystem_Stat_def stat_fresh_def stat_cache_def syscall_def stat_sys_def fs_demo_def
        quiet_kernel_def Let_def set_stat_cache_def)
  have config: "StatCacheDuration (Config s') = 60" "TIME s' = 1000" "trace s' \<noteq> trace fs_demo"
    using e by (auto simp: FileSystem_Stat_def stat_fresh_def stat_cache_def syscall_def stat_sys_def fs_demo_def
        quiet_kernel_def Let_def set_stat_cache_def)
  note first = stat_cache_faithful [OF fs_demo_cache e]
  then have ok: "cache_ok s'" by simp
  from first config(3) obtain v where v: "om_find str_less ''/srv/x'' (stat_cache True s') = Some v"
    "si_created v = 1000" "si_value v = st" "si_result v = 0"
    using r by (auto simp: fs_demo_def)
  obtain ret2 st2 s2 where e2: "FileSystem_Stat ''/srv/x'' True True s' = (ret2, st2, s2)" by (cases rule: prod_cases3)
  then have "trace s2 = trace s' \<and> st2 = st"
    using v config by (auto simp: FileSystem_Stat_def stat_expire_def to_int32_def)
  moreover obtain ret3 st3 s3 where e3: "FileSystem_Stat ''/srv/x'' True True (s'\<lparr>TIME := 1060\<rparr>) = (ret3, st3, s3)"
    by (cases rule: prod_cases3)
  have "cache_ok (s'\<lparr>TIME := 1060\<rparr>) = cache_ok s'" by (simp add: cache_ok_def stat_cache_def)
  with ok have "cache_ok (s'\<lparr>TIME := 1060\<rparr>)" by simp
  from stat_cache_faithful [OF this e3] v config have "trace s3 \<noteq> trace s'"
    by (auto simp: stat_cache_def to_int32_def split: if_splits)
  ultimately show ?thesis using first r e e2 e3 by (simp add: stat_sys_def)
qed

section \<open>The walk down a path\<close>

text \<open>\<open>pre\<close> is the path up to the iterator, the list the rest of it.\<close>

fun check_walk :: "string \<Rightarrow> string \<Rightarrow> server \<Rightarrow> string \<times> stat option \<times> server" where
  "check_walk pre [] s =
     (case FileSystem_Stat (c_str pre) (FollowSymLinks (Config s)) True s of (ret, st, s1) \<Rightarrow>
        if ret < 0 then ([], None, s1)
        else if st_kind st \<noteq> S_REG then ([], Some st, s1\<lparr>errno := EACCES\<rparr>)
        else (pre, Some st, s1))"
| "check_walk pre (c # cs) s =
     (if c = CHR ''/'' then
        (case FileSystem_Stat (c_str pre) (FollowSymLinks (Config s)) True s of (ret, st, s1) \<Rightarrow>
           if ret < 0 then ([], None, s1)
           else if st_kind st \<noteq> S_DIR then
             if st_kind st = S_REG then (pre, Some st, s1)
             else ([], Some st, s1\<lparr>errno := EACCES\<rparr>)
           else check_walk (pre @ [c]) cs s1)
      else check_walk (pre @ [c]) cs s)"

text \<open>\<open>None\<close> where the code indexes an empty \<open>basedir\<close> or steps past the end of an empty \<open>path\<close>.\<close>

definition CheckFilePath :: "string \<Rightarrow> string \<Rightarrow> server \<Rightarrow> (string \<times> stat option \<times> server) option" where
  "CheckFilePath basedir path s =
     (if basedir = [] \<or> path = [] then None
      else
        let fullpath = (if last basedir = CHR ''/'' then butlast basedir else basedir)
        in Some (check_walk (fullpath @ [hd path]) (tl path) s))"

lemma Stat_frame:
  assumes "FileSystem_Stat path fl fc s = (ret, st, s')"
  shows "Config s' = Config s \<and> TIME s' = TIME s \<and> SE s' = SE s \<and> local_connections s' = local_connections s \<and>
    culls s' = culls s \<and> conns s' = conns s \<and> MimeTypes s' = MimeTypes s \<and> world s' = world s \<and>
    ModMgr s' = ModMgr s \<and> CGIRequests s' = CGIRequests s \<and> cgis s' = cgis s \<and>
    next_addr s' = next_addr s \<and> total_cgi_processes s' = total_cgi_processes s \<and> CGITypes s' = CGITypes s \<and>
    MAXCLIENTS s' = MAXCLIENTS s \<and> ShuttingDown s' = ShuttingDown s \<and> listeners s' = listeners s \<and> IPV6 s' = IPV6 s \<and>
    OLDTIME s' = OLDTIME s \<and> s_signal s' = s_signal s \<and> ConfigFileName s' = ConfigFileName s"
  using assms
  by (auto simp: FileSystem_Stat_def stat_fresh_def Let_def set_stat_cache_def syscall_def
      split: if_splits option.splits prod.splits)

text \<open>What has been established of a path: the kernel said of the path itself that it is a regular
  file, and of every part of it before a slash, from position \<open>n\<close> on, that it is a directory.\<close>

definition vetted :: "bool \<Rightarrow> nat \<Rightarrow> string \<Rightarrow> stat \<Rightarrow> (syscall \<times> reply) list \<Rightarrow> bool" where
  "vetted fl n p st tr \<longleftrightarrow>
     (\<exists>ret\<ge>0. answers (stat_sys fl (c_str p)) ret st tr) \<and> st_kind st = S_REG \<and>
     (\<forall>i. n \<le> i \<and> i < length p \<and> p ! i = CHR ''/'' \<longrightarrow>
        (\<exists>ret\<ge>0. \<exists>d. answers (stat_sys fl (c_str (take i p))) ret d tr \<and> st_kind d = S_DIR))"

lemma Stat_step:
  assumes "cache_ok s" and "FileSystem_Stat path fl True s = (ret, st, s')"
  shows "cache_ok s'" "answers (stat_sys fl path) ret st (trace s')" "Config s' = Config s"
    "\<exists>new. trace s' = trace s @ new"
  using Stat_faithful [OF assms] Stat_frame [OF assms(2)] by (auto split: if_splits)

lemma cache_ok_errno [simp]: "cache_ok (s\<lparr>errno := e\<rparr>) = cache_ok s"
  by (simp add: cache_ok_def stat_cache_def)

lemma check_walk_ok:
  assumes "cache_ok s" and "check_walk pre rest s = (p, fst', s')"
  shows "cache_ok s' \<and> Config s' = Config s \<and> (\<exists>new. trace s' = trace s @ new) \<and>
    (pre \<noteq> [] \<longrightarrow> p \<noteq> [] \<longrightarrow>
      (\<exists>suf st. pre @ rest = p @ suf \<and> length pre \<le> length p \<and> (suf = [] \<or> hd suf = CHR ''/'') \<and> fst' = Some st \<and>
         vetted (FollowSymLinks (Config s)) (length pre) p st (trace s')))"
  using assms
proof (induction pre rest s rule: check_walk.induct)
  case (1 pre s)
  obtain ret st s1 where e: "FileSystem_Stat (c_str pre) (FollowSymLinks (Config s)) True s = (ret, st, s1)"
    by (cases rule: prod_cases3)
  note st = Stat_step [OF "1.prems"(1) e]
  from st(2) have "\<not> ret < 0 \<Longrightarrow> \<exists>ret\<ge>0. answers (stat_sys (FollowSymLinks (Config s)) (c_str pre)) ret st (trace s1)"
    by (meson not_less)
  with "1.prems" st e show ?case
    by (auto simp: vetted_def split: if_splits)
next
  case (2 pre c cs s)
  show ?case
  proof (cases "c = CHR ''/''")
    case False
    with "2.prems" "2.IH"(2) have IH: "cache_ok s' \<and> Config s' = Config s \<and> (\<exists>new. trace s' = trace s @ new) \<and>
      (p \<noteq> [] \<longrightarrow> (\<exists>suf st. pre @ c # cs = p @ suf \<and> Suc (length pre) \<le> length p \<and> (suf = [] \<or> hd suf = CHR ''/'') \<and>
         fst' = Some st \<and> vetted (FollowSymLinks (Config s)) (Suc (length pre)) p st (trace s')))" by auto
    have "vetted fl (length pre) p st tr"
      if v: "vetted fl (Suc (length pre)) p st tr" and eq: "pre @ c # cs = p @ suf" for fl suf st tr
    proof -
      have "p ! i \<noteq> CHR ''/''" if "i = length pre" "i < length p" for i
        using that eq False by (metis nth_append nth_append_length)
      with v show ?thesis unfolding vetted_def by (metis Suc_leI le_neq_implies_less)
    qed
    note v = this
    show ?thesis
    proof (intro conjI impI)
      assume "p \<noteq> []"
      with IH obtain suf st where r: "pre @ c # cs = p @ suf" "Suc (length pre) \<le> length p" "suf = [] \<or> hd suf = CHR ''/''"
        "fst' = Some st" "vetted (FollowSymLinks (Config s)) (Suc (length pre)) p st (trace s')" by blast
      from r v [OF r(5,1)] show "\<exists>suf st. pre @ c # cs = p @ suf \<and> length pre \<le> length p \<and> (suf = [] \<or> hd suf = CHR ''/'') \<and>
        fst' = Some st \<and> vetted (FollowSymLinks (Config s)) (length pre) p st (trace s')"
        by (intro exI [of _ suf] exI [of _ st]) simp
    qed (use IH in auto)
  next
    case True
    obtain ret st1 s1 where e: "FileSystem_Stat (c_str pre) (FollowSymLinks (Config s)) True s = (ret, st1, s1)"
      by (cases rule: prod_cases3)
    note st = Stat_step [OF "2.prems"(1) e]
    show ?thesis
    proof (cases "ret \<ge> 0 \<and> st_kind st1 = S_DIR")
      case False
      from st(2) have "\<not> ret < 0 \<Longrightarrow>
          \<exists>ret\<ge>0. answers (stat_sys (FollowSymLinks (Config s)) (c_str pre)) ret st1 (trace s1)"
        by (meson not_less)
      with False True e "2.prems" st show ?thesis by (auto simp: vetted_def split: if_splits)
    next
      case dir: True
      with True e "2.prems" have w: "check_walk (pre @ [c]) cs s1 = (p, fst', s')" by simp
      have IH: "cache_ok s' \<and> Config s' = Config s1 \<and> (\<exists>new. trace s' = trace s1 @ new) \<and>
        (p \<noteq> [] \<longrightarrow> (\<exists>suf st. pre @ c # cs = p @ suf \<and> Suc (length pre) \<le> length p \<and> (suf = [] \<or> hd suf = CHR ''/'') \<and>
         fst' = Some st \<and> vetted (FollowSymLinks (Config s1)) (Suc (length pre)) p st (trace s')))"
        using "2.IH"(1) [OF True e [symmetric] refl _ _ st(1) w] dir by auto
      then obtain new where tr: "trace s' = trace s1 @ new" by blast
      have "vetted (FollowSymLinks (Config s)) (length pre) p st (trace s')"
        if v: "vetted (FollowSymLinks (Config s)) (Suc (length pre)) p st (trace s')"
          and eq: "pre @ c # cs = p @ suf" and len: "Suc (length pre) \<le> length p" for suf st
      proof -
        have "take (length pre) p = pre"
          using arg_cong [OF eq, of "take (length pre)"] len by simp
        with st(2) dir have "\<exists>ret\<ge>0. \<exists>d. answers (stat_sys (FollowSymLinks (Config s)) (c_str (take (length pre) p))) ret d
            (trace s') \<and> st_kind d = S_DIR"
          by (auto simp: tr intro!: answers_append)
        with v show ?thesis unfolding vetted_def by (metis Suc_leI le_neq_implies_less)
      qed
      note v = this
      show ?thesis
      proof (intro conjI impI)
        assume "p \<noteq> []"
        with IH st(3) obtain suf st where r: "pre @ c # cs = p @ suf" "Suc (length pre) \<le> length p" "suf = [] \<or> hd suf = CHR ''/''"
          "fst' = Some st" "vetted (FollowSymLinks (Config s)) (Suc (length pre)) p st (trace s')" by auto
        from r v [OF r(5,1,2)] show "\<exists>suf st. pre @ c # cs = p @ suf \<and> length pre \<le> length p \<and> (suf = [] \<or> hd suf = CHR ''/'') \<and>
          fst' = Some st \<and> vetted (FollowSymLinks (Config s)) (length pre) p st (trace s')"
          by (intro exI [of _ suf] exI [of _ st]) simp
      qed (use IH st in auto)
    qed
  qed
qed

text \<open>Claim C4: a path that \<open>CheckFilePath\<close> answers with is a prefix of the document root followed by
  the requested path, cut only in front of a slash; the kernel has called it a regular file and every
  part of it below the document root a directory, with \<open>lstat\<close> when \<open>followsymlinks\<close> is off, so
  that no component of it is then a symbolic link.\<close>

theorem CheckFilePath_vetted:
  assumes "cache_ok s" and "CheckFilePath basedir path s = Some (p, fst', s')" and "p \<noteq> []"
  shows "\<exists>suf st n. (if last basedir = CHR ''/'' then butlast basedir else basedir) @ path = p @ suf \<and>
    (suf = [] \<or> hd suf = CHR ''/'') \<and> n \<le> length basedir + 1 \<and> n \<le> length p \<and> fst' = Some st \<and>
    vetted (FollowSymLinks (Config s)) n p st (trace s')"
proof -
  define base where "base = (if last basedir = CHR ''/'' then butlast basedir else basedir)"
  have ne: "path = hd path # tl path" and w: "check_walk (base @ [hd path]) (tl path) s = (p, fst', s')"
    using assms(2) by (auto simp: CheckFilePath_def base_def Let_def split: if_splits)
  from check_walk_ok [OF assms(1) w] assms(3) obtain suf st where
    r: "(base @ [hd path]) @ tl path = p @ suf" "length (base @ [hd path]) \<le> length p" "suf = [] \<or> hd suf = CHR ''/''"
      "fst' = Some st" "vetted (FollowSymLinks (Config s)) (length (base @ [hd path])) p st (trace s')"
    by auto
  have "base @ path = p @ suf" using r(1) ne by (metis append.assoc append_Cons append_Nil)
  moreover have "length (base @ [hd path]) \<le> length basedir + 1" by (simp add: base_def)
  ultimately show ?thesis using r unfolding base_def by blast
qed

theorem CheckFilePath_vetted_witness:
  "\<exists>st s' n. CheckFilePath ''/srv/'' ''/a.txt/info'' fs_demo = Some (''/srv/a.txt'', Some st, s') \<and>
     vetted True n ''/srv/a.txt'' st (trace s')"
proof -
  obtain st s' where e: "CheckFilePath ''/srv/'' ''/a.txt/info'' fs_demo = Some (''/srv/a.txt'', Some st, s')"
    by (simp add: CheckFilePath_def Let_def c_str_def FileSystem_Stat_def stat_fresh_def stat_cache_def syscall_def
        stat_sys_def fs_demo_def quiet_kernel_def set_stat_cache_def)
  moreover have "FollowSymLinks (Config fs_demo)" by (simp add: fs_demo_def)
  ultimately show ?thesis using CheckFilePath_vetted [OF fs_demo_cache e] by auto
qed

end
