(* ===== verification/UriPath.thy ===== *)
theory UriPath
  imports Hashcomp
begin

text \<open>
  \<open>Connection::HandleURI\<close> (\<open>src/request.cpp\<close>): decoding and cleaning of the path of a request.
  The loop is modelled with its two accumulators; \<open>segments\<close> and \<open>resolve\<close> say what it computes:
  the path is cut at slashes, decoded ones included, and the segments work a stack.
\<close>

text \<open>The branch taken at the end of a part of the path; \<open>sepd\<close> is whether a separator ended it.\<close>

definition path_end :: "bool \<Rightarrow> string \<Rightarrow> string \<Rightarrow> string" where
  "path_end sepd pathpart sanepath =
     (if pathpart = [] \<or> pathpart = ''.'' then sanepath
      else if pathpart = ''..'' then
        (case (if length sanepath < 2 then rfind_char (CHR ''/'') sanepath
               else rfind_upto (CHR ''/'') sanepath (length sanepath - 2)) of
           Some sloc \<Rightarrow> take (sloc + 1) sanepath
         | None \<Rightarrow> [])
      else sanepath @ pathpart @ (if sepd then ''/'' else []))"

fun uri_loop :: "string \<Rightarrow> string \<Rightarrow> string \<Rightarrow> string \<Rightarrow> string \<times> string" where
  "uri_loop [] pathpart sanepath query = (path_end False pathpart sanepath, query)"
| "uri_loop (c # cs) pathpart sanepath query =
     (if c = CHR ''%'' then
        (case cs of
           h1 # h2 # rest \<Rightarrow>
             (case unhexchar h1 h2 of
                None \<Rightarrow> uri_loop rest pathpart sanepath query
              | Some v \<Rightarrow>
                  if schar v < 32 \<or> schar v = 127 then uri_loop rest pathpart sanepath query
                  else if v \<noteq> CHR ''/'' then uri_loop rest (pathpart @ [v]) sanepath query
                  else uri_loop rest [] (path_end True pathpart sanepath) query)
         | _ \<Rightarrow> (path_end False pathpart sanepath, query))
      else if ord c = 0 then (path_end False pathpart sanepath, query)
      else if c = CHR ''/'' then uri_loop cs [] (path_end True pathpart sanepath) query
      else if c = CHR ''?'' then (path_end False pathpart sanepath, cs)
      else if c = CHR ''#'' then (path_end False pathpart sanepath, query)
      else uri_loop cs (pathpart @ [c]) sanepath query)"

text \<open>The new \<open>uri\<close> and \<open>uriquery\<close>.\<close>

definition HandleURI :: "string \<Rightarrow> string \<Rightarrow> string \<times> string" where
  "HandleURI uri uriquery =
     (case uri of
        c # cs \<Rightarrow>
          if c \<noteq> CHR ''/'' then (uri, uriquery)
          else (case uri_loop cs [] [] uriquery of (sanepath, query) \<Rightarrow>
                  ((if sanepath = [] \<or> hd sanepath \<noteq> CHR ''/'' then ''/'' else []) @ sanepath, query))
      | [] \<Rightarrow> (uri, uriquery))"

section \<open>What the loop computes\<close>

text \<open>The decoded segments of a path; the last one is the part not followed by a slash.\<close>

fun segments :: "string \<Rightarrow> string \<Rightarrow> string list" where
  "segments [] p = [p]"
| "segments (c # cs) p =
     (if c = CHR ''%'' then
        (case cs of
           h1 # h2 # rest \<Rightarrow>
             (case unhexchar h1 h2 of
                None \<Rightarrow> segments rest p
              | Some v \<Rightarrow>
                  if schar v < 32 \<or> schar v = 127 then segments rest p
                  else if v = CHR ''/'' then p # segments rest []
                  else segments rest (p @ [v]))
         | _ \<Rightarrow> [p])
      else if ord c = 0 \<or> c = CHR ''?'' \<or> c = CHR ''#'' then [p]
      else if c = CHR ''/'' then p # segments cs []
      else segments cs (p @ [c]))"

definition push_segment :: "string list \<Rightarrow> string \<Rightarrow> string list" where
  "push_segment stk p = (if p = [] \<or> p = ''.'' then stk else if p = ''..'' then butlast stk else stk @ [p])"

definition render_dirs :: "string list \<Rightarrow> string" where
  "render_dirs stk = concat (map (\<lambda>p. p @ ''/'') stk)"

definition is_name :: "string \<Rightarrow> bool" where
  "is_name p \<longleftrightarrow> p \<noteq> [] \<and> p \<noteq> ''.'' \<and> p \<noteq> ''..'' \<and> CHR ''/'' \<notin> set p"

definition resolve :: "string list \<Rightarrow> string" where
  "resolve ps =
     (let stk = foldl push_segment [] (butlast ps); p = last ps in
      if p = [] \<or> p = ''.'' \<or> p = ''..'' then render_dirs (push_segment stk p) else render_dirs stk @ p)"

lemma render_dirs_simps [simp]:
  "render_dirs [] = []" "render_dirs (stk @ [p]) = render_dirs stk @ p @ ''/''"
  by (simp_all add: render_dirs_def)

lemma path_end_push:
  assumes "\<forall>p\<in>set stk. is_name p" and "CHR ''/'' \<notin> set p"
  shows "path_end True p (render_dirs stk) = render_dirs (push_segment stk p)"
proof (cases "p = ''..''")
  case False
  then show ?thesis by (simp add: path_end_def push_segment_def)
next
  case True
  show ?thesis
  proof (cases stk rule: rev_cases)
    case Nil
    with True show ?thesis by (simp add: path_end_def push_segment_def)
  next
    case (snoc ds d)
    with assms have d: "d \<noteq> []" "CHR ''/'' \<notin> set d" by (auto simp: is_name_def)
    define s where "s = render_dirs stk"
    have s: "s = render_dirs ds @ d @ ''/''" by (simp add: s_def snoc)
    then have len: "length s - 1 = length (render_dirs ds @ d)" "\<not> length s < 2" using d by (cases d; simp)+
    then have "Suc (length s - 2) = length (render_dirs ds @ d)" by simp
    then have cut: "take (Suc (length s - 2)) s = render_dirs ds @ d" by (simp add: s)
    have lhs: "path_end True p s =
      (case rfind_char (CHR ''/'') (render_dirs ds @ d) of Some i \<Rightarrow> take (i + 1) s | None \<Rightarrow> [])"
      using len(2) True by (simp add: path_end_def rfind_upto_def cut)
    have "path_end True p s = render_dirs ds"
    proof (cases ds rule: rev_cases)
      case Nil
      with d show ?thesis by (simp add: lhs)
    next
      case (snoc es e)
      have "rfind_char (CHR ''/'') ((render_dirs es @ e) @ CHR ''/'' # d) = Some (length (render_dirs es @ e))"
        using d by (intro rfind_char_append)
      with snoc have "rfind_char (CHR ''/'') (render_dirs ds @ d) = Some (length (render_dirs es @ e))" by simp
      then show ?thesis unfolding lhs by (simp add: s snoc)
    qed
    with True snoc show ?thesis by (simp add: s_def push_segment_def)
  qed
qed

lemma push_segment_names:
  "\<forall>p\<in>set stk. is_name p \<Longrightarrow> CHR ''/'' \<notin> set p \<Longrightarrow> \<forall>p\<in>set (push_segment stk p). is_name p"
  by (auto simp: push_segment_def is_name_def dest: in_set_butlastD)

lemma path_end_last:
  assumes "\<forall>p\<in>set stk. is_name p" and "CHR ''/'' \<notin> set p"
  shows "path_end False p (render_dirs stk) =
    (if p = [] \<or> p = ''.'' \<or> p = ''..'' then render_dirs (push_segment stk p) else render_dirs stk @ p)"
proof (cases "p = [] \<or> p = ''.'' \<or> p = ''..''")
  case True
  then have "path_end False p (render_dirs stk) = path_end True p (render_dirs stk)"
    by (auto simp: path_end_def)
  with True path_end_push [OF assms] show ?thesis by simp
qed (simp add: path_end_def)

lemma segments_ne [simp]: "segments cs p \<noteq> []"
  by (induction cs p rule: segments.induct) (auto split: list.splits option.splits)

lemma segments_no_slash:
  "CHR ''/'' \<notin> set p \<Longrightarrow> \<forall>q\<in>set (segments cs p). CHR ''/'' \<notin> set q"
  by (induction cs p rule: segments.induct) (auto split: list.splits option.splits if_splits)

definition resolve_from :: "string list \<Rightarrow> string list \<Rightarrow> string" where
  "resolve_from stk ps =
     (let stk' = foldl push_segment stk (butlast ps); p = last ps in
      if p = [] \<or> p = ''.'' \<or> p = ''..'' then render_dirs (push_segment stk' p) else render_dirs stk' @ p)"

lemma resolve_from_Cons [simp]: "ps \<noteq> [] \<Longrightarrow> resolve_from stk (p # ps) = resolve_from (push_segment stk p) ps"
  by (simp add: resolve_from_def)

lemma uri_loop_resolve:
  assumes "\<forall>p\<in>set stk. is_name p" and "CHR ''/'' \<notin> set p"
  shows "fst (uri_loop cs p (render_dirs stk) q) = resolve_from stk (segments cs p)"
  using assms
proof (induction cs p arbitrary: stk rule: segments.induct)
  case (1 p)
  then show ?case by (simp add: path_end_last resolve_from_def)
next
  case (2 c cs p)
  note stop = path_end_last [OF "2.prems"] and push = path_end_push [OF "2.prems"]
  show ?case
  proof (cases "c = CHR ''%''")
    case True
    show ?thesis
    proof (cases "\<exists>h1 h2 rest. cs = h1 # h2 # rest")
      case True
      then obtain h1 h2 rest where cs: "cs = h1 # h2 # rest" by blast
      show ?thesis
        using \<open>c = CHR ''%''\<close> cs "2.prems" "2.IH"(1,2,3,4) [OF \<open>c = CHR ''%''\<close> cs refl] push
        by (auto simp: push_segment_names split: option.splits)
    next
      case False
      with \<open>c = CHR ''%''\<close> stop show ?thesis by (auto simp: resolve_from_def split: list.splits)
    qed
  next
    case False
    with stop push "2.prems" "2.IH"(5,6) show ?thesis
      by (auto simp: push_segment_names resolve_from_def [of _ "[p]"])
  qed
qed

lemma resolve_from_shape:
  assumes "\<forall>p\<in>set stk. is_name p" and "\<forall>p\<in>set ps. CHR ''/'' \<notin> set p" and "ps \<noteq> []"
  shows "\<exists>ds p. resolve_from stk ps = render_dirs ds @ p \<and> (\<forall>d\<in>set ds. is_name d) \<and> (p = [] \<or> is_name p)"
  using assms
proof (induction ps arbitrary: stk)
  case (Cons p ps)
  show ?case
  proof (cases "ps = []")
    case True
    show ?thesis
    proof (cases "p = [] \<or> p = ''.'' \<or> p = ''..''")
      case True
      with \<open>ps = []\<close> have "resolve_from stk (p # ps) = render_dirs (push_segment stk p) @ []"
        by (auto simp: resolve_from_def)
      with push_segment_names [of stk p] Cons.prems show ?thesis by (metis list.set_intros(1))
    next
      case False
      with \<open>ps = []\<close> Cons.prems show ?thesis by (auto simp: resolve_from_def is_name_def)
    qed
  next
    case False
    with Cons.IH [of "push_segment stk p"] push_segment_names [of stk p] Cons.prems show ?thesis by simp
  qed
qed simp

text \<open>The components of a path, cut at its slashes.\<close>

fun split_slash :: "string \<Rightarrow> string \<Rightarrow> string list" where
  "split_slash [] p = [p]"
| "split_slash (c # cs) p = (if c = CHR ''/'' then p # split_slash cs [] else split_slash cs (p @ [c]))"

lemma split_slash_plain: "CHR ''/'' \<notin> set p \<Longrightarrow> split_slash p acc = [acc @ p]"
  by (induction p arbitrary: acc) auto

lemma split_slash_dir: "CHR ''/'' \<notin> set d \<Longrightarrow> split_slash (d @ CHR ''/'' # s) acc = (acc @ d) # split_slash s []"
  by (induction d arbitrary: acc) auto

lemma split_slash_render:
  "\<forall>d\<in>set ds. is_name d \<Longrightarrow> CHR ''/'' \<notin> set p \<Longrightarrow> split_slash (render_dirs ds @ p) [] = ds @ [p]"
  by (induction ds) (auto simp: render_dirs_def split_slash_plain split_slash_dir is_name_def)

lemma render_hd: "\<forall>d\<in>set ds. is_name d \<Longrightarrow> p = [] \<or> is_name p \<Longrightarrow>
    render_dirs ds @ p = [] \<or> hd (render_dirs ds @ p) \<noteq> CHR ''/''"
  by (cases ds; cases p; cases "hd ds") (auto simp: render_dirs_def is_name_def)

lemma HandleURI_shape:
  "\<exists>ds p. fst (HandleURI (CHR ''/'' # cs) q) = CHR ''/'' # render_dirs ds @ p \<and>
     render_dirs ds @ p = resolve (segments cs []) \<and> (\<forall>d\<in>set ds. is_name d) \<and> (p = [] \<or> is_name p)"
proof -
  have sp: "fst (uri_loop cs [] [] q) = resolve_from [] (segments cs [])"
    using uri_loop_resolve [of "[]" "[]" cs q] by simp
  obtain ds p where dp: "resolve_from [] (segments cs []) = render_dirs ds @ p"
    and names: "\<forall>d\<in>set ds. is_name d" "p = [] \<or> is_name p"
    using resolve_from_shape [of "[]" "segments cs []"] segments_no_slash [of "[]" cs] by auto
  have "fst (HandleURI (CHR ''/'' # cs) q) = CHR ''/'' # render_dirs ds @ p"
    using sp dp render_hd [OF names] by (auto simp: HandleURI_def split: prod.splits)
  with dp names show ?thesis by (auto simp: resolve_def resolve_from_def)
qed

text \<open>Claim C3: the cleaned path of a request is the stack machine's answer on its decoded
  segments: empty and \<open>.\<close> segments vanish, \<open>..\<close> removes the segment before it and never climbs
  above the root, and an encoded slash cuts like a plain one.\<close>

theorem HandleURI_resolves:
  "fst (HandleURI (CHR ''/'' # cs) q) = CHR ''/'' # resolve (segments cs [])"
  using HandleURI_shape [of cs q] by auto

text \<open>Claim C2: whatever a client asks for, a path that starts with a slash comes out with no way
  up: it starts with a slash, and none of its components is empty, \<open>.\<close> or \<open>..\<close>, except that the
  last may be empty (the path of a directory).\<close>

theorem HandleURI_safe:
  "case HandleURI (CHR ''/'' # cs) q of (uri', _) \<Rightarrow>
     hd uri' = CHR ''/'' \<and> (\<forall>d\<in>set (butlast (split_slash (tl uri') [])). is_name d) \<and>
     (last (split_slash (tl uri') []) = [] \<or> is_name (last (split_slash (tl uri') [])))"
proof -
  obtain ds p where u: "fst (HandleURI (CHR ''/'' # cs) q) = CHR ''/'' # render_dirs ds @ p"
    and names: "\<forall>d\<in>set ds. is_name d" "p = [] \<or> is_name p"
    using HandleURI_shape [of cs q] by blast
  from names(2) have "split_slash (render_dirs ds @ p) [] = ds @ [p]"
    by (intro split_slash_render [OF names(1)]) (auto simp: is_name_def)
  with u names show ?thesis by (simp add: case_prod_beta)
qed

theorem HandleURI_safe_witness:
  "fst (HandleURI ''/a/%2e%2e/../../etc/./passwd'' []) = ''/etc/passwd''"
proof -
  have "is_name ''etc''" "is_name ''passwd''" by (simp_all add: is_name_def)
  have "fst (HandleURI ''/a/%2e%2e/../../etc/./passwd'' []) = ''/etc/passwd''" by code_simp
  with HandleURI_safe [of "''a/%2e%2e/../../etc/./passwd''" "[]"] show ?thesis by blast
qed

text \<open>A request target that does not start with a slash is not cleaned: it keeps its parent components.\<close>

theorem HandleURI_unclean:
  assumes "uri = [] \<or> hd uri \<noteq> CHR ''/''"
  shows "HandleURI uri q = (uri, q)"
  using assms by (cases uri) (simp_all add: HandleURI_def)

theorem HandleURI_unclean_witness: "HandleURI ''-private/../../x'' [] = (''-private/../../x'', [])"
  using HandleURI_unclean [of "''-private/../../x''" "[]"] by simp

end
