(* ===== verification/Connection.thy ===== *)
theory Connection
  imports FileSystem UriPath
begin

text \<open>
  A connection at work: \<open>src/buffer.cpp\<close>, \<open>src/request.cpp\<close>, \<open>src/connections.cpp\<close>,
  \<open>src/backend_write.cpp\<close>, \<open>ConnectionManager::Delete\<close> and the hooks of the two modules
  that they call. An operation takes the connection it is called on and the rest of the server;
  \<open>None\<close> is undefined behaviour or an exception nobody catches.

  \<open>EndRequest\<close> calls \<open>CheckRequest(0)\<close>, which calls everything else again, so each operation
  takes that call as its first argument \<open>chk\<close>; \<open>CheckRequest\<close> ties the knot with fuel at the
  end of the next theory.
\<close>

type_synonym cstate = "conn \<times> server"
type_synonym check = "cstate \<Rightarrow> cstate option"

definition FD_MAGIC_NUMBER :: int where "FD_MAGIC_NUMBER = - 42"

text \<open>\<open>born\<close> is what \<open>time(NULL)\<close> gave the base class, \<open>classbase\<close>.\<close>

definition Connection_new :: "nat \<Rightarrow> int \<Rightarrow> server \<Rightarrow> conn" where
  "Connection_new p born s =
     \<lparr>this_ptr = p, fd = - 1, age = born, State = HTTP_WAIT_REQUEST, ip = [], sendq = [], requestbuf = [],
      LastSocketEvent = TIME s, RequestsCompleted = 0, conn_headers = [], http_method = [], uri = [], uriquery = [],
      upath = [], http_version = HTTP_UNSPECIFIED, keepalive = True, RequestBodyLength = 0, RequestBody = [],
      ResponseBufferDone = False, ResponseBackend = False, filefd = - 1, rfilesize = 0, rfilesent = 0,
      quitting = False, privip = None\<rparr>"

section \<open>Going away\<close>

definition AddItem :: "cstate \<Rightarrow> cstate" where
  "AddItem st = (case st of (c, s) \<Rightarrow>
     if quitting c then (c, s) else (c\<lparr>quitting := True\<rparr>, s\<lparr>culls := culls s @ [this_ptr c]\<rparr>))"

definition Delete :: "cstate \<Rightarrow> cstate" where
  "Delete st = (case AddItem st of (c, s) \<Rightarrow> (c\<lparr>quitting := True, State := HTTP_FINISHED\<rparr>, s))"

section \<open>Writing\<close>

definition AddWriteBuf :: "string \<Rightarrow> conn \<Rightarrow> conn" where
  "AddWriteBuf dat c = c\<lparr>sendq := sendq c @ dat\<rparr>"

definition conn_WantWrite :: "cstate \<Rightarrow> cstate option" where
  "conn_WantWrite st = (case st of (c, s) \<Rightarrow> do { s' \<leftarrow> WantWrite (H_Conn (this_ptr c)) (fd c) s; Some (c, s') })"

definition Write :: "string \<Rightarrow> cstate \<Rightarrow> cstate option" where
  "Write txt st = (case st of (c, s) \<Rightarrow>
     if \<not> BoundsCheckFd (fd c) s then Some (c, s) else conn_WantWrite (AddWriteBuf txt c, s))"

section \<open>The CGI module's part in it\<close>

abbreviation (input) nat_less :: "nat \<Rightarrow> nat \<Rightarrow> bool" where "nat_less \<equiv> (\<lambda>a b. a < b)"

text \<open>\<open>CGIRequest::Close\<close> up to the response; the first result is whether the socket was open.\<close>

definition CGI_Close_socket :: "nat \<Rightarrow> server \<Rightarrow> (bool \<times> server) option" where
  "CGI_Close_socket n s = do {
     r \<leftarrow> cgis s n;
     if cgi_fd r > - 1 then do {
       (_, s1) \<leftarrow> DelFd (H_Cgi n) (cgi_fd r) False s;
       let (_, s2) = SE_Close (cgi_fd r) s1;
       let (_, s3) = SE_Shutdown (cgi_fd r) 1 s2;
       Some (True, s3\<lparr>cgis := (cgis s3)(n \<mapsto> r\<lparr>cgi_fd := - 1, cgi_done := True\<rparr>)\<rparr>)
     } else Some (False, s)
   }"

text \<open>\<open>delete\<close> of a \<open>CGIRequest\<close>.\<close>

definition CGI_destroy :: "nat \<Rightarrow> server \<Rightarrow> server option" where
  "CGI_destroy n s = do {
     (_, s1) \<leftarrow> CGI_Close_socket n s;
     Some (s1\<lparr>total_cgi_processes := total_cgi_processes s1 - 1, cgis := (cgis s1)(n := None)\<rparr>)
   }"

text \<open>\<open>OnBufferFlushed\<close> and \<open>OnConnectionDisconnect\<close> of the module, which do the same.\<close>

definition CGI_forget :: "nat \<Rightarrow> server \<Rightarrow> server option" where
  "CGI_forget p s =
     (case om_find nat_less p (CGIRequests s) of
        None \<Rightarrow> Some s
      | Some n \<Rightarrow> do {
          s1 \<leftarrow> CGI_destroy n s;
          Some (s1\<lparr>CGIRequests := om_erase nat_less p (CGIRequests s1)\<rparr>)
        })"

definition OnBufferFlushed :: "hmodule \<Rightarrow> nat \<Rightarrow> server \<Rightarrow> server option" where
  "OnBufferFlushed m p s = (case m of M_CGI \<Rightarrow> CGI_forget p s | _ \<Rightarrow> Some s)"

definition OnConnectionDisconnect :: "hmodule \<Rightarrow> nat \<Rightarrow> server \<Rightarrow> server option" where
  "OnConnectionDisconnect m p s = (case m of M_CGI \<Rightarrow> CGI_forget p s | _ \<Rightarrow> Some s)"

text \<open>\<open>FOREACH_MOD\<close>.\<close>

fun foreach_mod :: "(hmodule \<Rightarrow> 's \<Rightarrow> 's option) \<Rightarrow> hmodule list \<Rightarrow> 's \<Rightarrow> 's option" where
  "foreach_mod f [] s = Some s"
| "foreach_mod f (m # ms) s = do { s' \<leftarrow> f m s; foreach_mod f ms s' }"

section \<open>The end of a request\<close>

definition EndRequest :: "check \<Rightarrow> cstate \<Rightarrow> cstate option" where
  "EndRequest chk st = (case st of (c0, s) \<Rightarrow>
     let c = c0\<lparr>RequestsCompleted := RequestsCompleted c0 + 1\<rparr> in
     if \<not> keepalive c then Some (Delete (c\<lparr>State := HTTP_FINISHED\<rparr>, s))
     else
       let c1 = c\<lparr>conn_headers := Headers_Clear (conn_headers c), http_method := [], uri := [], uriquery := [],
                 upath := [], RequestBody := [], http_version := HTTP_UNSPECIFIED, RequestBodyLength := 0,
                 State := HTTP_WAIT_REQUEST, ResponseBackend := False, ResponseBufferDone := False,
                 rfilesize := 0, rfilesent := 0\<rparr>;
           (c2, s2) = (if filefd c1 > - 1 then (c1\<lparr>filefd := - 1\<rparr>, snd (SE_Close (filefd c1) s)) else (c1, s))
       in if requestbuf c2 \<noteq> [] then chk (c2, s2) else Some (c2, s2))"

section \<open>Static files\<close>

text \<open>\<open>WriteBackend::ServeFile\<close>: the result and the new \<open>sent\<close>.\<close>

definition ServeFile :: "int \<Rightarrow> int \<Rightarrow> int \<Rightarrow> int \<Rightarrow> server \<Rightarrow> int \<times> int \<times> server" where
  "ServeFile sockfd file sent filesize s =
     (case syscall (Sys_mmap file filesize) s of (m, s1) \<Rightarrow>
        if r_ret m < 0 then (- 1, sent, s1)
        else
          (case syscall (Sys_send_map sockfd file sent (filesize - sent)) s1 of (re, s2) \<Rightarrow>
             case syscall (Sys_munmap filesize) s2 of (_, s3) \<Rightarrow>
               if r_ret re < 0 then ((if errno s3 = EAGAIN then 0 else - 1), sent, s3)
               else (r_ret re, sent + r_ret re, s3)))"

definition SendStaticData :: "check \<Rightarrow> cstate \<Rightarrow> cstate option" where
  "SendStaticData chk st =
     (let (c, s) = (if filefd (fst st) < 0 then Delete st else st) in
      if \<not> ResponseBackend c then None
      else
        (case ServeFile (fd c) (filefd c) (rfilesent c) (rfilesize c) s of (re, sent, s1) \<Rightarrow>
           let c1 = c\<lparr>rfilesent := sent\<rparr> in
           if re < 0 then Some (Delete (c1, s1))
           else if rfilesent c1 = rfilesize c1 then EndRequest chk (c1, s1)
           else conn_WantWrite (c1, s1)))"

section \<open>Flushing\<close>

text \<open>The attempt to send; \<open>False\<close> where the code returns after a fatal error. A result outside the
  range of \<open>send\<close> makes \<open>substr\<close> throw.\<close>

definition flush_send :: "cstate \<Rightarrow> (bool \<times> cstate) option" where
  "flush_send st = (case st of (c, s) \<Rightarrow>
     if sendq c \<noteq> [] \<and> fd c \<noteq> FD_MAGIC_NUMBER then
       (case SE_Send (fd c) (sendq c) s of (n_sent, s1) \<Rightarrow>
          if n_sent = - 1 then
            if errno s1 = EAGAIN then do { st' \<leftarrow> conn_WantWrite (c, s1); Some (True, st') }
            else Some (False, Delete (c, s1))
          else if n_sent < 0 \<or> n_sent > int (length (sendq c)) then None
          else
            let c1 = (if n_sent \<noteq> 0 then c\<lparr>sendq := drop (nat n_sent) (sendq c)\<rparr> else c) in
            if n_sent \<noteq> int (length (sendq c)) then do { st' \<leftarrow> conn_WantWrite (c1, s1); Some (True, st') }
            else Some (True, (c1, s1)))
     else Some (True, (c, s)))"

definition flush_done :: "check \<Rightarrow> cstate \<Rightarrow> cstate option" where
  "flush_done chk st = (case st of (c, s) \<Rightarrow>
     if sendq c = [] then do {
       s1 \<leftarrow> foreach_mod (\<lambda>m. OnBufferFlushed m (this_ptr c)) (event_handlers s I_OnBufferFlushed) s;
       if State c = HTTP_SEND_DATA \<and> ResponseBufferDone c then EndRequest chk (c, s1)
       else if State c = HTTP_SEND_HEADERS \<and> ResponseBackend c then
         SendStaticData chk (c\<lparr>State := HTTP_SEND_DATA\<rparr>, s1)
       else Some (c, s1)
     } else Some (c, s))"

definition FlushWriteBuf :: "check \<Rightarrow> cstate \<Rightarrow> cstate option" where
  "FlushWriteBuf chk st = do {
     (go, st1) \<leftarrow> flush_send st;
     if go then flush_done chk st1 else Some st1
   }"

section \<open>Responses\<close>

definition mime_for :: "string \<Rightarrow> server \<Rightarrow> string" where
  "mime_for u s =
     (let mime = (case rfind_char (CHR ''.'') u of Some p \<Rightarrow> GetType (drop (p + 1) u) (MimeTypes s) | None \<Rightarrow> [])
      in if mime = [] then ''application/x-octet-stream'' else mime)"

text \<open>The header map as \<open>SendHeaders\<close> completes it, and the new \<open>keepalive\<close>.\<close>

definition response_headers :: "nat \<Rightarrow> headers \<Rightarrow> conn \<Rightarrow> server \<Rightarrow> headers \<times> bool" where
  "response_headers sz rheaders c s =
     (let h1 = CreateHeader ''Date'' (asctime_gmt (TIME s)) rheaders;
          h2 = CreateHeader ''Server'' ''hottpd'' h1;
          h3 = SetHeader ''Content-Length'' (ConvNumeric (int sz)) h2;
          h4 = (if sz \<noteq> 0 \<and> \<not> IsSet ''Content-Type'' h3 then SetHeader ''Content-Type'' (mime_for (uri c) s) h3
                else if sz = 0 then RemoveHeader ''Content-Type'' h3 else h3)
      in if strcaseeq (c_str (GetHeader ''Connection'' h4)) ''Close'' then (h4, False)
         else if keepalive c then (SetHeader ''Connection'' ''Keep-Alive'' h4, True)
         else (SetHeader ''Connection'' ''Close'' h4, False))"

definition write_headers :: "nat \<Rightarrow> int \<Rightarrow> string \<Rightarrow> headers \<Rightarrow> cstate \<Rightarrow> cstate option" where
  "write_headers sz response rtext rheaders st = (case st of (c0, s0) \<Rightarrow> do {
     let c1 = c0\<lparr>State := HTTP_SEND_HEADERS\<rparr>;
     st1 \<leftarrow> Write (if http_version c1 = HTTP_1_0 then ''HTTP/1.0 '' else ''HTTP/1.1 '') (c1, s0);
     (c2, s2) \<leftarrow> Write (ConvNumeric response @ '' '' @ rtext @ CRLF) st1;
     let (hs, ka) = response_headers sz rheaders c2 s2;
     st3 \<leftarrow> Write (GetFormattedHeaders hs) (c2\<lparr>keepalive := ka\<rparr>, s2);
     Write CRLF st3
   })"

definition SendHeaders :: "check \<Rightarrow> nat \<Rightarrow> int \<Rightarrow> string \<Rightarrow> headers \<Rightarrow> cstate \<Rightarrow> cstate option" where
  "SendHeaders chk sz response rtext rheaders st = do {
     st' \<leftarrow> write_headers sz response rtext rheaders st;
     if sz = 0 then EndRequest chk st' else Some st'
   }"

definition error_page :: "string \<Rightarrow> string" where
  "error_page txt = ''<html><head></head><body>'' @ txt @ ''<br><small>Powered by Hottpd</small></body></html>''"

definition SendError :: "check \<Rightarrow> int \<Rightarrow> string \<Rightarrow> bool \<Rightarrow> cstate \<Rightarrow> cstate option" where
  "SendError chk code txt fatal st = (case st of (c0, s0) \<Rightarrow> do {
     let dat = error_page txt;
     (c1, s1) \<leftarrow> SendHeaders chk (length dat) code txt (SetHeader ''Content-Type'' ''text/html'' [])
                    (c0\<lparr>ResponseBackend := False\<rparr>, s0);
     (c2, s2) \<leftarrow> Write dat (c1\<lparr>State := HTTP_SEND_DATA\<rparr>, s1);
     (c3, s3) \<leftarrow> FlushWriteBuf chk (c2\<lparr>ResponseBufferDone := True\<rparr>, s2);
     Some (if fatal then c3\<lparr>keepalive := False\<rparr> else c3, s3)
   })"

section \<open>Serving\<close>

definition path_error :: "check \<Rightarrow> bool \<Rightarrow> cstate \<Rightarrow> cstate option" where
  "path_error chk fatal st =
     (case errno (snd st) of
        EACCES \<Rightarrow> SendError chk 403 ''Forbidden'' fatal st
      | ENOENT \<Rightarrow> SendError chk 404 ''File Not Found'' fatal st
      | ELOOP \<Rightarrow> SendError chk 404 ''File Not Found'' fatal st
      | ENAMETOOLONG \<Rightarrow> SendError chk 404 ''File Not Found'' fatal st
      | ENOTDIR \<Rightarrow> SendError chk 404 ''File Not Found'' fatal st
      | _ \<Rightarrow> SendError chk 500 ''Internal Server Error'' fatal st)"

definition open_error :: "check \<Rightarrow> cstate \<Rightarrow> cstate option" where
  "open_error chk st =
     (case errno (snd st) of
        EACCES \<Rightarrow> SendError chk 403 ''Forbidden'' False st
      | ENOENT \<Rightarrow> SendError chk 404 ''File Not Found'' False st
      | ENOTDIR \<Rightarrow> SendError chk 404 ''File Not Found'' False st
      | _ \<Rightarrow> SendError chk 500 ''Internal Server Error'' False st)"

definition ServeData :: "check \<Rightarrow> cstate \<Rightarrow> cstate option" where
  "ServeData chk st = (case st of (c, s) \<Rightarrow> do {
     (p, ofst, s1) \<leftarrow> CheckFilePath (DocRoot (Config s)) (uri c) s;
     let c1 = c\<lparr>upath := p\<rparr>;
     if p = [] then path_error chk False (c1, s1)
     else do {
       stp \<leftarrow> ofst;
       let (noatime, s2) = (if NoAtime (Config s1)
                            then (case syscall Sys_geteuid s1 of (r, s2) \<Rightarrow> (st_uid stp = r_ret r, s2))
                            else (False, s1));
       let s3 = (if filefd c1 > - 1 then snd (SE_Close (filefd c1) s2) else s2);
       (case syscall (Sys_open (c_str p) noatime) s3 of (r, s4) \<Rightarrow>
          let c2 = c1\<lparr>filefd := r_ret r\<rparr> in
          if filefd c2 < 0 then open_error chk (c2, s4)
          else SendHeaders chk (nat (st_size stp)) 200 ''OK'' []
                 (c2\<lparr>rfilesize := st_size stp, rfilesent := 0, ResponseBackend := True\<rparr>, s4))
     }
   })"

end
