(* ===== verification/Request.thy ===== *)
theory Request
  imports Connection
begin

text \<open>
  Reading requests: \<open>Connection::CheckRequest\<close> (\<open>src/request.cpp\<close>), the modules' answers to
  \<open>OnPreRequest\<close> (\<open>src/modules/m_cgi.cpp\<close>, \<open>src/modules/m_testmodule.cpp\<close>),
  \<open>AddBuffer\<close> and \<open>ReadData\<close> (\<open>src/buffer.cpp\<close>), \<open>Connection::HandleEvent\<close>
  (\<open>src/connections.cpp\<close>) and \<open>CGIRequest::HandleEvent\<close>.
\<close>

section \<open>The header block\<close>

datatype parse_result = P_Done conn | P_Error int string conn

text \<open>The request line.\<close>

definition request_line :: "string \<Rightarrow> conn \<Rightarrow> parse_result" where
  "request_line line c =
     (let (m, st1) = stream_get (http_method c) (Some line);
          (u, st2) = stream_get (uri c) st1;
          (v, _) = stream_get [] st2;
          c1 = c\<lparr>http_method := m, uri := u\<rparr>
      in if m = [] \<or> u = [] \<or> v = [] then P_Error 400 ''Bad Request'' c1
         else
           let tmpversion = map toupper_c v in
           if tmpversion = ''HTTP/1.1'' then P_Done (c1\<lparr>http_version := HTTP_1_1\<rparr>)
           else if tmpversion = ''HTTP/1.0'' then
             P_Done (c1\<lparr>http_version := HTTP_1_0,
                        keepalive := (if RequestsCompleted c1 = 0 then False else keepalive c1)\<rparr>)
           else P_Error 505 ''Version Not Supported'' c1)"

text \<open>The loop over the lines, on what is left of \<open>requestbuf\<close> from \<open>hbegin\<close> on.\<close>

function parse_block :: "string \<Rightarrow> conn \<Rightarrow> parse_result" where
  "parse_block buf c =
     (case find_sub CRLF buf of
        None \<Rightarrow> P_Done c
      | Some k \<Rightarrow>
          if k = 0 then P_Done c
          else if http_method c = [] then
            (case request_line (take k buf) c of
               P_Done c1 \<Rightarrow> parse_block (drop (k + 2) buf) c1
             | P_Error code txt c1 \<Rightarrow> P_Error code txt c1)
          else
            (case header_line (take k buf) (conn_headers c) of
               None \<Rightarrow> P_Error 400 ''Bad Request'' c
             | Some hs \<Rightarrow> parse_block (drop (k + 2) buf) (c\<lparr>conn_headers := hs\<rparr>)))"
  by pat_completeness auto
termination
  by (relation "measure (\<lambda>(buf, c). length buf)") (auto dest!: find_sub_Some)

declare parse_block.simps [simp del]

section \<open>Modules\<close>

definition Test_OnPreRequest :: "check \<Rightarrow> cstate \<Rightarrow> (int \<times> cstate) option" where
  "Test_OnPreRequest chk st = do {
     (c1, s1) \<leftarrow> SendHeaders chk 4 200 ''OK'' [] st;
     (c2, s2) \<leftarrow> Write ''lawl'' (c1\<lparr>State := HTTP_SEND_DATA\<rparr>, s1);
     Some (1, (c2\<lparr>ResponseBufferDone := True\<rparr>, s2))
   }"

text \<open>The new request is watched and remembered, or thrown away.\<close>

definition CGI_adopt :: "nat \<Rightarrow> int \<Rightarrow> cstate \<Rightarrow> (int \<times> cstate) option" where
  "CGI_adopt n rfd st = (case st of (c, s) \<Rightarrow> do {
     (ok, s1) \<leftarrow> AddFd (H_Cgi n) rfd s;
     if \<not> ok then do { s2 \<leftarrow> CGI_destroy n s1; Some (1, (c, s2)) }
     else Some (1, (c, s1\<lparr>CGIRequests := om_insert nat_less (this_ptr c) n (CGIRequests s1)\<rparr>))
   })"

text \<open>The parent's side after a successful \<open>fork\<close>. The child runs another program and never comes
  back, so it is not part of the server's run.\<close>

definition CGI_parent :: "int \<times> int \<Rightarrow> int \<times> int \<Rightarrow> cstate \<Rightarrow> (int \<times> cstate) option" where
  "CGI_parent to_child from_child st = (case st of (c, s) \<Rightarrow> do {
     let s1 = snd (SE_Close (snd from_child) s);
     let s2 = snd (SE_Close (fst to_child) s1);
     let s3 = snd (SE_Close (snd to_child) s2);
     let n = next_addr s3;
     let s4 = s3\<lparr>next_addr := n + 1, total_cgi_processes := total_cgi_processes s3 + 1,
                 cgis := (cgis s3)(n \<mapsto> \<lparr>cgi_fd = fst from_child, cgi_conn = this_ptr c, cgi_rbuf = [], cgi_done = False\<rparr>)\<rparr>;
     CGI_adopt n (fst from_child) (c, s4)
   })"

definition returning :: "cstate option \<Rightarrow> (int \<times> cstate) option" where
  "returning r = map_option (Pair 1) r"

definition CGI_spawn :: "check \<Rightarrow> cstate \<Rightarrow> (int \<times> cstate) option" where
  "CGI_spawn chk st = (case st of (c, s) \<Rightarrow>
     (case syscall Sys_pipe s of (to_child, s1) \<Rightarrow>
        if r_ret to_child = - 1 then returning (SendError chk 500 ''Internal error'' True (c, s1))
        else
          (case syscall Sys_pipe s1 of (from_child, s2) \<Rightarrow>
             if r_ret from_child = - 1 then returning (SendError chk 500 ''Internal error'' True (c, s2))
             else
               (case syscall Sys_fork s2 of (forkres, s3) \<Rightarrow>
                  if r_ret forkres = - 1 then returning (SendError chk 500 ''Internal error'' True (c, s3))
                  else if r_ret forkres = 0 then None
                  else CGI_parent (r_pair to_child) (r_pair from_child) (c, s3)))))"

definition CGI_OnPreRequest :: "check \<Rightarrow> string \<Rightarrow> cstate \<Rightarrow> (int \<times> cstate) option" where
  "CGI_OnPreRequest chk file st = (case st of (c, s) \<Rightarrow>
     if file = [] then Some (0, st)
     else (case rfind_char (CHR ''.'') file of
       None \<Rightarrow> Some (0, st)
     | Some pos \<Rightarrow>
         let ext = drop (pos + 1) file in
         if ext = [] then Some (0, st)
         else (case om_find str_less ext (CGITypes s) of
           None \<Rightarrow> Some (0, st)
         | Some exe \<Rightarrow>
             if total_cgi_processes s + 1 > MaximumDynamicProcesses (Config s) then
               returning (SendError chk 500 ''Internal error'' True st)
             else do {
               (p, _, s1) \<leftarrow> CheckFilePath (DocRoot (Config s)) (uri c) s;
               if p = [] then returning (path_error chk True (c, s1)) else CGI_spawn chk (c, s1)
             })))"

definition OnPreRequest :: "check \<Rightarrow> string \<Rightarrow> hmodule \<Rightarrow> cstate \<Rightarrow> (int \<times> cstate) option" where
  "OnPreRequest chk file m st =
     (case m of M_CGI \<Rightarrow> CGI_OnPreRequest chk file st | M_Test \<Rightarrow> Test_OnPreRequest chk st | M_Base _ \<Rightarrow> Some (0, st))"

text \<open>\<open>FOREACH_RESULT\<close>: the first module that returns something but 0 ends the loop.\<close>

fun foreach_result :: "(hmodule \<Rightarrow> 's \<Rightarrow> (int \<times> 's) option) \<Rightarrow> hmodule list \<Rightarrow> 's \<Rightarrow> (int \<times> 's) option" where
  "foreach_result f [] s = Some (0, s)"
| "foreach_result f (m # ms) s = do { (res, s') \<leftarrow> f m s; if res \<noteq> 0 then Some (res, s') else foreach_result f ms s' }"

section \<open>\<open>CheckRequest\<close>\<close>

text \<open>The part after the request has been read and accepted.\<close>

definition answer_request :: "check \<Rightarrow> cstate \<Rightarrow> cstate option" where
  "answer_request chk st = (case st of (c0, s) \<Rightarrow> do {
     let (u, q) = HandleURI (uri c0) (uriquery c0);
     let c = c0\<lparr>uri := u, uriquery := q\<rparr>;
     let file = (case rfind_char (CHR ''/'') u of Some pos \<Rightarrow> drop (pos + 1) u | None \<Rightarrow> u);
     (res, (c1, s1)) \<leftarrow> foreach_result (OnPreRequest chk file) (event_handlers s I_OnPreRequest) (c, s);
     if res = 1 then Some (c1, s1)
     else if http_method c1 \<noteq> ''GET'' \<and> http_method c1 \<noteq> ''POST'' then SendError chk 501 ''Not Implemented'' True (c1, s1)
     else ServeData chk (c1, s1)
   })"

definition connection_header :: "conn \<Rightarrow> server \<Rightarrow> conn" where
  "connection_header c s =
     (let v = c_str (GetHeader ''Connection'' (conn_headers c));
          c1 = (if strcaseeq v ''close'' then c\<lparr>keepalive := False\<rparr>
                else if strcaseeq v ''keep-alive'' then c\<lparr>keepalive := True\<rparr> else c)
      in if RequestsCompleted c1 + 1 \<ge> KeepAliveMax (Config s) then c1\<lparr>keepalive := False\<rparr> else c1)"

definition check_parsed :: "check \<Rightarrow> cstate \<Rightarrow> cstate option" where
  "check_parsed chk st = (case st of (c, s) \<Rightarrow>
     if http_method c = [] \<or> uri c = [] \<or> http_version c = HTTP_UNSPECIFIED then
       SendError chk 400 ''Bad Request'' False (c, s)
     else
       let c1 = connection_header (c\<lparr>http_method := map toupper_c (http_method c)\<rparr>) s;
           c2 = (if IsSet ''Content-Length'' (conn_headers c1)
                 then c1\<lparr>RequestBodyLength := to_uint32 (atoi (c_str (GetHeader ''Content-Length'' (conn_headers c1))))\<rparr>
                 else c1)
       in if IsSet ''Content-Length'' (conn_headers c2) \<and> RequestBodyLength c2 > to_uint32 (MaxPostBody (Config s)) then
            SendError chk 413 ''Request Entity Too Large'' True (c2, s)
          else if IsSet ''Transfer-Encoding'' (conn_headers c2) then
            SendError chk 500 ''Internal Server Error'' True (c2, s)
          else if RequestBodyLength c2 > 0 then
            if http_method c2 \<noteq> ''POST'' then SendError chk 500 ''Internal Server Error'' True (c2, s)
            else Some (c2\<lparr>State := HTTP_RECV_REQBODY\<rparr>, s)
          else answer_request chk (c2, s))"

definition CheckRequest_body :: "check \<Rightarrow> nat \<Rightarrow> cstate \<Rightarrow> cstate option" where
  "CheckRequest_body chk newpos st = (case st of (c, s) \<Rightarrow>
     (case str_find (requestbuf c) (CRLF @ CRLF) (if newpos \<ge> 3 then newpos - 3 else 0) of
        None \<Rightarrow> Some (c, s)
      | Some reqend \<Rightarrow>
          (case parse_block (requestbuf c) c of
             P_Error code txt c1 \<Rightarrow>
               SendError chk code txt False (c1\<lparr>requestbuf := drop (reqend + 4) (requestbuf c1)\<rparr>, s)
           | P_Done c1 \<Rightarrow>
               check_parsed chk (c1\<lparr>requestbuf := drop (reqend + 4) (requestbuf c1)\<rparr>, s))))"

fun CheckRequest :: "nat \<Rightarrow> nat \<Rightarrow> cstate \<Rightarrow> cstate option" where
  "CheckRequest 0 newpos st = None"
| "CheckRequest (Suc fuel) newpos st = CheckRequest_body (CheckRequest fuel 0) newpos st"

text \<open>Every nested call has at least the four bytes of a blank line less in its buffer, so this fuel
  is enough (\<open>CheckRequest_fuel\<close>).\<close>

definition check0 :: check where
  "check0 st = CheckRequest (Suc (length (requestbuf (fst st)))) 0 st"

section \<open>Input\<close>

text \<open>\<open>AddBuffer\<close> takes a \<open>std::string\<close> made from the read buffer as a C string.\<close>

definition AddBuffer :: "string \<Rightarrow> cstate \<Rightarrow> (bool \<times> cstate) option" where
  "AddBuffer a st = (case st of (c, s) \<Rightarrow>
     if a = [] then Some (True, (c, s))
     else
       let too_much = (\<lambda>st'. Some (\<not> length (requestbuf (fst st')) > 5120, st')) in
       if State c = HTTP_RECV_REQBODY then
         let remains = to_uint32 (int (RequestBodyLength c) - int (length (RequestBody c)));
             c1 = (if remains < length a
                   then c\<lparr>RequestBody := RequestBody c @ take remains a, requestbuf := requestbuf c @ a\<rparr>
                   else c\<lparr>RequestBody := RequestBody c @ a\<rparr>)
         in if length (RequestBody c1) = RequestBodyLength c1 then do {
              st' \<leftarrow> ServeData check0 (c1, s);
              Some (True, st')
            } else too_much (c1, s)
       else
         let nspos = length (requestbuf c); c1 = c\<lparr>requestbuf := requestbuf c @ a\<rparr> in
         if State c1 = HTTP_WAIT_REQUEST then do {
           st' \<leftarrow> CheckRequest (Suc (length (requestbuf c1))) nspos (c1, s);
           too_much st'
         } else too_much (c1, s))"

definition EAGAIN_number :: int where "EAGAIN_number = 11"

text \<open>\<open>None\<close> also where the terminating zero is written past the end of \<open>ReadBuffer\<close>.\<close>

definition ReadData :: "cstate \<Rightarrow> cstate option" where
  "ReadData st = (case st of (c, s) \<Rightarrow>
     if fd c = FD_MAGIC_NUMBER then Some (c, s)
     else
       (case syscall (Sys_read (fd c) 65535) s of (r, s1) \<Rightarrow>
          let result = r_ret r in
          if result \<noteq> 0 \<and> result \<noteq> - EAGAIN_number then
            if result > 0 then
              if result > 65534 then None
              else do {
                (ok, st') \<leftarrow> AddBuffer (c_str (r_data r)) (c, s1);
                Some (if \<not> ok then Delete st' else st')
              }
            else if result = - 1 \<and> errno s1 \<noteq> EAGAIN \<and> errno s1 \<noteq> EINTR then Some (Delete (c, s1))
            else Some (c, s1)
          else if result = EAGAIN_number \<or> result = - EAGAIN_number then Some (c, s1)
          else Some (Delete (c, s1))))"

datatype event_type = EVENT_READ | EVENT_WRITE | EVENT_ERROR

definition Connection_HandleEvent :: "event_type \<Rightarrow> cstate \<Rightarrow> cstate option" where
  "Connection_HandleEvent et st = (case st of (c0, s) \<Rightarrow>
     let c = c0\<lparr>LastSocketEvent := TIME s\<rparr> in
     (case et of
        EVENT_READ \<Rightarrow> if \<not> quitting c then ReadData (c, s) else Some (c, s)
      | EVENT_WRITE \<Rightarrow>
          if State c = HTTP_SEND_DATA \<and> ResponseBackend c then SendStaticData check0 (c, s)
          else FlushWriteBuf check0 (c, s)
      | EVENT_ERROR \<Rightarrow> Some (Delete (c, s))))"

section \<open>Output of a CGI program\<close>

text \<open>\<open>Close(SendResponse)\<close>; the state has the connection that the request belongs to. The headers of an
  empty response end the request, and answering one that was waiting behind it flushes the buffer, on
  which the module deletes this very object; \<open>None\<close> is the use of its members after that.\<close>

definition CGI_Close :: "bool \<Rightarrow> nat \<Rightarrow> cstate \<Rightarrow> cstate option" where
  "CGI_Close SendResponse n st = (case st of (c, s) \<Rightarrow> do {
     r \<leftarrow> cgis s n;
     (was_open, s1) \<leftarrow> CGI_Close_socket n s;
     if was_open \<and> SendResponse then do {
       (c1, s2) \<leftarrow> SendHeaders check0 (length (cgi_rbuf r)) 200 ''OK'' [] (c, s1);
       r2 \<leftarrow> cgis s2 n;
       (c2, s3) \<leftarrow> Write (cgi_rbuf r2) (c1\<lparr>State := HTTP_SEND_DATA\<rparr>, s2);
       Some (c2\<lparr>ResponseBufferDone := True\<rparr>, s3)
     } else Some (c, s1)
   })"

text \<open>\<open>OnRead\<close>: the exceptions it throws are caught by nobody.\<close>

definition CGI_OnRead :: "nat \<Rightarrow> cstate \<Rightarrow> cstate option" where
  "CGI_OnRead n st = (case st of (c, s) \<Rightarrow> do {
     r \<leftarrow> cgis s n;
     (case syscall (Sys_read (cgi_fd r) 65535) s of (rep, s1) \<Rightarrow>
        let result = r_ret rep in
        if result = - 1 then if errno s1 \<noteq> EAGAIN then None else Some (c, s1)
        else if result < 0 \<or> result > 65534 then None
        else
          let rbuf = cgi_rbuf r @ c_str (r_data rep);
              s2 = s1\<lparr>cgis := (cgis s1)(n \<mapsto> r\<lparr>cgi_rbuf := rbuf\<rparr>)\<rparr>
          in if result = 0 then if rbuf = [] then None else CGI_Close True n (c, s2)
             else Some (c, s2))
   })"

definition CGI_HandleEvent :: "event_type \<Rightarrow> nat \<Rightarrow> cstate \<Rightarrow> cstate option" where
  "CGI_HandleEvent et n st =
     (case et of EVENT_READ \<Rightarrow> CGI_OnRead n st | EVENT_WRITE \<Rightarrow> Some st | EVENT_ERROR \<Rightarrow> CGI_Close True n st)"

end
