(* ===== verification/HeaderRead.thy ===== *)
theory HeaderRead
  imports Request
begin

text \<open>
  Headers written by \<open>HTTPHeaders::GetFormattedHeaders\<close> and read by \<open>Connection::CheckRequest\<close>:
  where the search for the blank line stops, what the line loop makes of each line, and the round trip
  of a whole request through both.
\<close>

section \<open>Line ends\<close>

definition one_line :: "string \<Rightarrow> bool" where
  "one_line l \<longleftrightarrow> find_sub CRLF l = None"

lemma one_line_Cons:
  "one_line (c # l) \<longleftrightarrow> \<not> (c = CR \<and> l \<noteq> [] \<and> hd l = LF) \<and> one_line l"
  by (cases l) (auto simp: one_line_def)

lemma one_line_Nil [simp]: "one_line []"
  by (simp add: one_line_def)

lemma one_line_no_CR: "CR \<notin> set l \<Longrightarrow> one_line l"
  by (induction l) (auto simp: one_line_Cons)

lemma one_line_append: "one_line a \<Longrightarrow> one_line b \<Longrightarrow> b = [] \<or> hd b \<noteq> LF \<Longrightarrow> one_line (a @ b)"
proof (induction a)
  case (Cons c a)
  then show ?case by (cases a) (auto simp: one_line_Cons)
qed simp

lemma find_line_end: "one_line l \<Longrightarrow> find_sub CRLF (l @ CRLF @ t) = Some (length l)"
proof (induction l)
  case (Cons c l)
  then show ?case by (cases l) (auto simp: one_line_Cons)
qed simp

lemma find_blank_skip:
  assumes "one_line l" and "take 2 t \<noteq> CRLF"
  shows "find_sub (CRLF @ CRLF) (l @ CRLF @ t) = map_option (\<lambda>i. length l + 2 + i) (find_sub (CRLF @ CRLF) t)"
  using assms(1)
proof (induction l)
  case Nil
  have "take (Suc (Suc 0)) t \<noteq> CRLF" using assms(2) by (simp add: numeral_2_eq_2)
  then show ?case by (cases "find_sub (CRLF @ CRLF) t") auto
next
  case (Cons c l)
  have "take (length (CRLF @ CRLF)) ((c # l) @ CRLF @ t) \<noteq> CRLF @ CRLF"
  proof (cases l)
    case Nil
    then show ?thesis by simp
  next
    case (Cons d l')
    with Cons.prems show ?thesis by (auto simp: one_line_Cons)
  qed
  with Cons show ?case by (cases "find_sub (CRLF @ CRLF) t") (auto simp: one_line_Cons)
qed

lemma find_blank_here: "one_line l \<Longrightarrow> find_sub (CRLF @ CRLF) (l @ CRLF @ CRLF @ t) = Some (length l)"
proof (induction l)
  case (Cons c l)
  then show ?case
  proof (cases l)
    case (Cons d l')
    with Cons.prems Cons.IH show ?thesis by (auto simp: one_line_Cons)
  qed auto
qed simp

lemma split_line: "take (length l) (l @ CRLF @ t) = l" "drop (length l + 2) (l @ CRLF @ t) = t"
  by simp_all

text \<open>The lines of a block, each with its end.\<close>

definition lines_text :: "string list \<Rightarrow> string" where
  "lines_text ls = concat (map (\<lambda>l. l @ CRLF) ls)"

lemma lines_text_simps [simp]: "lines_text [] = []" "lines_text (l # ls) = l @ CRLF @ lines_text ls"
  by (simp_all add: lines_text_def)

lemma take2_line:
  assumes "one_line l" "l \<noteq> []"
  shows "take 2 (l @ CRLF @ t) \<noteq> CRLF"
proof (cases l)
  case (Cons c l')
  with assms show ?thesis by (cases l') (auto simp: one_line_Cons)
qed (use assms in simp)

lemma find_blank:
  assumes "\<forall>l\<in>set (k # ls). one_line l \<and> l \<noteq> []"
  shows "find_sub (CRLF @ CRLF) (lines_text (k # ls) @ CRLF @ t) = Some (length (lines_text (k # ls)) - 2)"
  using assms
proof (induction ls arbitrary: k)
  case Nil
  then show ?case using find_blank_here [of k t] by simp
next
  case (Cons l ls)
  then have "take 2 (lines_text (l # ls) @ CRLF @ t) \<noteq> CRLF"
    using take2_line [of l "lines_text ls @ CRLF @ t"] by simp
  moreover have "one_line k" using Cons.prems by simp
  ultimately have "find_sub (CRLF @ CRLF) (k @ CRLF @ lines_text (l # ls) @ CRLF @ t) =
      map_option (\<lambda>i. length k + 2 + i) (find_sub (CRLF @ CRLF) (lines_text (l # ls) @ CRLF @ t))"
    by (rule find_blank_skip [rotated])
  with Cons.IH [of l] Cons.prems show ?case by simp
qed

lemma find_sub_later:
  "find_sub pat s = Some i \<Longrightarrow> p \<le> i \<Longrightarrow> find_sub pat (drop p s) = Some (i - p)"
proof (induction pat s arbitrary: i p rule: find_sub.induct)
  case (2 pat c cs)
  show ?case
  proof (cases p)
    case (Suc q)
    with 2 show ?thesis by (auto split: if_splits)
  qed (use 2 in simp)
qed (auto split: if_splits)

lemma str_find_later: "find_sub pat s = Some i \<Longrightarrow> p \<le> i \<Longrightarrow> str_find s pat p = Some i"
  using find_sub_later [of pat s i p] find_sub_Some [of pat s i] by (simp add: str_find_def)

section \<open>The request line\<close>

definition word :: "string \<Rightarrow> bool" where
  "word w \<longleftrightarrow> w \<noteq> [] \<and> (\<forall>c\<in>set w. \<not> isspace_c c)"

lemma stream_word_word:
  assumes "word w" and "r = [] \<or> isspace_c (hd r)"
  shows "stream_word (w @ r) = Some (w, r)" and "stream_word (CHR '' '' # w @ r) = Some (w, r)"
proof -
  have d: "dropWhile isspace_c (w @ r) = w @ r" using assms(1) by (cases w) (auto simp: word_def)
  have t: "takeWhile (\<lambda>c. \<not> isspace_c c) (w @ r) = w" "dropWhile (\<lambda>c. \<not> isspace_c c) (w @ r) = r"
    using assms by (cases r; auto simp: word_def takeWhile_append dropWhile_append)+
  have ne: "w @ r \<noteq> []" using assms(1) by (simp add: word_def)
  show "stream_word (w @ r) = Some (w, r)" by (simp only: stream_word_def Let_def d t ne if_False)
  have "isspace_c CHR '' ''" by (simp add: isspace_c_def)
  then have "dropWhile isspace_c (CHR '' '' # w @ r) = w @ r" using d by simp
  then show "stream_word (CHR '' '' # w @ r) = Some (w, r)" by (simp only: stream_word_def Let_def t ne if_False)
qed

lemma request_line_word:
  assumes "word m" "word u"
  shows "request_line (m @ '' '' @ u @ '' HTTP/1.1'') c =
    P_Done (c\<lparr>http_method := m, uri := u, http_version := HTTP_1_1\<rparr>)"
proof -
  have sp: "isspace_c CHR '' ''" by (simp add: isspace_c_def)
  have v: "word ''HTTP/1.1''" by (simp add: word_def isspace_c_def)
  have 1: "stream_word (m @ '' '' @ u @ '' HTTP/1.1'') = Some (m, '' '' @ u @ '' HTTP/1.1'')"
    by (rule stream_word_word(1) [OF assms(1)]) (simp add: sp)
  have 2: "stream_word ('' '' @ u @ '' HTTP/1.1'') = Some (u, '' HTTP/1.1'')"
    using stream_word_word(2) [OF assms(2), of "'' HTTP/1.1''"] sp by simp
  have 3: "stream_word '' HTTP/1.1'' = Some (''HTTP/1.1'', [])"
    using stream_word_word(2) [OF v, of "[]"] by simp
  have 4: "map toupper_c ''HTTP/1.1'' = ''HTTP/1.1''" by (simp add: toupper_c_def)
  show ?thesis
    using assms 4 by (simp only: request_line_def Let_def stream_get_def option.case prod.case 1 2 3 word_def) simp
qed

section \<open>The header lines\<close>

definition writable :: "string \<times> string \<Rightarrow> bool" where
  "writable kv \<longleftrightarrow> (case kv of (k, v) \<Rightarrow> k \<noteq> [] \<and> CHR '':'' \<notin> set k \<and> find_sub CRLF k = None \<and> find_sub CRLF v = None)"

lemma writable_line: "writable (k, v) \<Longrightarrow> one_line (k @ '': '' @ v)"
proof -
  assume w: "writable (k, v)"
  have "one_line v" using w by (simp add: writable_def one_line_def)
  then have "one_line ('': '' @ v)" by (simp add: one_line_Cons)
  moreover have "one_line k" using w by (simp add: writable_def one_line_def)
  ultimately show ?thesis by (intro one_line_append [of k]) auto
qed

abbreviation format_line :: "string \<times> string \<Rightarrow> string" where
  "format_line \<equiv> \<lambda>(k, v). k @ '': '' @ v"

lemma GetFormattedHeaders_lines: "GetFormattedHeaders hs = lines_text (map format_line hs)"
  by (simp add: GetFormattedHeaders_concat lines_text_def split_def comp_def)

lemma parse_block_headers:
  assumes "headers_ok (conn_headers c @ hs)" and "\<forall>kv\<in>set hs. writable kv" and "http_method c \<noteq> []"
  shows "parse_block (lines_text (map format_line hs) @ CRLF @ rest) c = P_Done (c\<lparr>conn_headers := conn_headers c @ hs\<rparr>)"
  using assms
proof (induction hs arbitrary: c)
  case Nil
  then show ?case by (subst parse_block.simps) simp
next
  case (Cons kv hs)
  obtain k v where kv: "kv = (k, v)" by (cases kv)
  let ?l = "k @ '': '' @ v" and ?t = "lines_text (map format_line hs) @ CRLF @ rest"
  let ?c = "c\<lparr>conn_headers := conn_headers c @ [(k, v)]\<rparr>"
  from Cons.prems kv have w: "writable (k, v)" and ok: "headers_ok ((conn_headers c @ [(k, v)]) @ hs)" by simp_all
  from w have k: "k \<noteq> []" "CHR '':'' \<notin> set k" by (simp_all add: writable_def)
  have line: "header_line ?l (conn_headers c) = Some (conn_headers c @ [(k, v)])"
    using header_line_format [OF k] om_insert_last [OF headers_ok_prefix [OF ok]] by simp
  have "find_sub CRLF (?l @ CRLF @ ?t) = Some (length ?l)"
    by (rule find_line_end [OF writable_line [OF w]])
  moreover have "take (length ?l) (?l @ CRLF @ ?t) = ?l" "drop (length ?l + 2) (?l @ CRLF @ ?t) = ?t" by (rule split_line)+
  ultimately have "parse_block (?l @ CRLF @ ?t) c = parse_block ?t ?c"
    using Cons.prems(3) line k by (subst parse_block.simps) (simp only: option.case conn.select_convs if_False length_0_conv append_is_Nil_conv list.simps simp_thms)
  also have "\<dots> = P_Done (?c\<lparr>conn_headers := conn_headers ?c @ hs\<rparr>)"
    by (rule Cons.IH) (use ok Cons.prems in auto)
  finally show ?case by (simp add: kv)
qed

text \<open>Claim C10: a header map survives being written and read. A request made of a request line, the
  text \<open>GetFormattedHeaders\<close> writes for the map and a blank line, with anything behind it, is split
  by \<open>CheckRequest\<close> (from any position the search may start at) into exactly its method, its target
  and that map, in the map's order; what followed is left in the buffer. A name must not be empty nor
  hold a colon, and neither names nor values may hold a line end.\<close>

theorem headers_roundtrip:
  assumes "headers_ok hs" and "\<forall>(k, v)\<in>set hs. k \<noteq> [] \<and> CHR '':'' \<notin> set k \<and> find_sub CRLF k = None \<and> find_sub CRLF v = None"
    and "m \<noteq> []" and "\<forall>x\<in>set m. \<not> isspace_c x" and "u \<noteq> []" and "\<forall>x\<in>set u. \<not> isspace_c x"
    and "http_method c = []" and "conn_headers c = []"
    and "requestbuf c = (m @ '' '' @ u @ '' HTTP/1.1'' @ CRLF @ GetFormattedHeaders hs) @ CRLF @ rest"
    and "newpos \<le> length (m @ '' '' @ u @ '' HTTP/1.1'' @ CRLF @ GetFormattedHeaders hs) + 1"
  shows "CheckRequest_body chk newpos (c, s) =
    check_parsed chk (c\<lparr>http_method := m, uri := u, http_version := HTTP_1_1, conn_headers := hs, requestbuf := rest\<rparr>, s)"
proof -
  let ?l = "m @ '' '' @ u @ '' HTTP/1.1''"
  let ?ls = "?l # map format_line hs"
  have wr: "\<forall>kv\<in>set hs. writable kv" using assms(2) by (auto simp: writable_def)
  have words: "word m" "word u" using assms(3-6) by (simp_all add: word_def)
  have "CR \<notin> set m" "CR \<notin> set u" using assms(4,6) by (auto simp: isspace_c_def)
  then have one: "one_line ?l" by (intro one_line_no_CR) auto
  have lines: "\<forall>l\<in>set ?ls. one_line l \<and> l \<noteq> []"
    using one wr writable_line by (auto simp: writable_def)
  have buf: "requestbuf c = lines_text ?ls @ CRLF @ rest"
    using assms(9) by (simp add: GetFormattedHeaders_lines)
  have len: "length (lines_text ?ls) = length (m @ '' '' @ u @ '' HTTP/1.1'' @ CRLF @ GetFormattedHeaders hs)"
    by (simp add: GetFormattedHeaders_lines)
  define e where "e = length (lines_text ?ls) - 2"
  have "find_sub (CRLF @ CRLF) (requestbuf c) = Some e"
    unfolding buf e_def by (rule find_blank [OF lines])
  moreover have "(if newpos \<ge> 3 then newpos - 3 else 0) \<le> e"
    using assms(10) unfolding e_def len by auto
  ultimately have find: "str_find (requestbuf c) (CRLF @ CRLF) (if newpos \<ge> 3 then newpos - 3 else 0) = Some e"
    by (rule str_find_later)
  have e4: "e + 4 = length (lines_text ?ls @ CRLF)" by (simp add: e_def)
  have "requestbuf c = (lines_text ?ls @ CRLF) @ rest" by (simp only: buf append.assoc)
  then have drop: "drop (e + 4) (requestbuf c) = rest" unfolding e4 by (metis append_eq_conv_conj)
  have p1: "parse_block (requestbuf c) c = parse_block (lines_text (map format_line hs) @ CRLF @ rest)
      (c\<lparr>http_method := m, uri := u, http_version := HTTP_1_1\<rparr>)"
  proof -
    let ?t = "lines_text (map format_line hs) @ CRLF @ rest"
    have "find_sub CRLF (?l @ CRLF @ ?t) = Some (length ?l)" by (rule find_line_end [OF one])
    moreover have "take (length ?l) (?l @ CRLF @ ?t) = ?l" "drop (length ?l + 2) (?l @ CRLF @ ?t) = ?t" by (rule split_line)+
    moreover have "requestbuf c = ?l @ CRLF @ ?t" by (simp add: buf)
    ultimately show ?thesis
      using assms(7) request_line_word [OF words, of c]
      by (subst parse_block.simps) (simp only: option.case parse_result.case if_True if_False length_0_conv append_is_Nil_conv list.simps simp_thms)
  qed
  have "parse_block (requestbuf c) c = P_Done (c\<lparr>http_method := m, uri := u, http_version := HTTP_1_1, conn_headers := hs\<rparr>)"
    unfolding p1 using parse_block_headers [of "c\<lparr>http_method := m, uri := u, http_version := HTTP_1_1\<rparr>" hs rest] wr assms(1,3,8)
    by simp
  with find drop show ?thesis by (simp add: CheckRequest_body_def)
qed

definition read_demo :: conn where
  "read_demo = (Connection_new 1 0 fs_demo)
     \<lparr>requestbuf := (''GET'' @ '' '' @ ''/a'' @ '' HTTP/1.1'' @ CRLF @
        GetFormattedHeaders [(''Host'', ''a:80''), (''X-Empty'', [])]) @ CRLF @ ''GET /b''\<rparr>"

theorem headers_roundtrip_witness:
  "CheckRequest_body (\<lambda>st. Some st) 9 (read_demo, fs_demo) =
   check_parsed (\<lambda>st. Some st) (read_demo\<lparr>http_method := ''GET'', uri := ''/a'', http_version := HTTP_1_1,
     conn_headers := [(''Host'', ''a:80''), (''X-Empty'', [])], requestbuf := ''GET /b''\<rparr>, fs_demo)"
proof (rule headers_roundtrip)
  show "headers_ok [(''Host'', ''a:80''), (''X-Empty'', [])]"
    by (simp add: headers_ok_def ci_key_def tolower_c_def schar_def)
  show "requestbuf read_demo = (''GET'' @ '' '' @ ''/a'' @ '' HTTP/1.1'' @ CRLF @
      GetFormattedHeaders [(''Host'', ''a:80''), (''X-Empty'', [])]) @ CRLF @ ''GET /b''"
    by (simp add: read_demo_def)
qed (simp_all add: read_demo_def Connection_new_def isspace_c_def)

end
