(* ===== verification/ConnFrame.thy ===== *)
theory ConnFrame
  imports Request
begin

text \<open>
  What the operations of a connection do to the rest of the server: which fields they leave alone,
  that the stat caches stay faithful, and which of their system calls put bytes on a socket.
\<close>

section \<open>The stream a connection sends\<close>

text \<open>A byte, or the byte of an open file at an offset.\<close>

datatype out_item = OByte char | OFile int int

definition call_output :: "int \<Rightarrow> syscall \<times> reply \<Rightarrow> out_item list" where
  "call_output sk cr =
     (case cr of
        (Sys_send sk' dat, r) \<Rightarrow> if sk' = sk then map OByte (take (nat (r_ret r)) dat) else []
      | (Sys_send_map sk' file off len, r) \<Rightarrow>
          if sk' = sk then map (\<lambda>i. OFile file (off + int i)) [0..<nat (r_ret r)] else []
      | _ \<Rightarrow> [])"

definition output_of :: "int \<Rightarrow> (syscall \<times> reply) list \<Rightarrow> out_item list" where
  "output_of sk tr = concat (map (call_output sk) tr)"

text \<open>What the peer has been sent, followed by what waits in \<open>sendq\<close>.\<close>

definition stream :: "cstate \<Rightarrow> out_item list" where
  "stream st = output_of (fd (fst st)) (trace (snd st)) @ map OByte (sendq (fst st))"

lemma output_of_append [simp]: "output_of sk (tr @ tr') = output_of sk tr @ output_of sk tr'"
  by (simp add: output_of_def)

lemma output_of_Nil [simp]: "output_of sk [] = []"
  by (simp add: output_of_def)

definition silent_call :: "syscall \<Rightarrow> bool" where
  "silent_call c = (case c of Sys_send _ _ \<Rightarrow> False | Sys_send_map _ _ _ _ \<Rightarrow> False | _ \<Rightarrow> True)"

lemma silent_call_simps [simp]:
  "silent_call (Sys_read a n)" "silent_call (Sys_mmap a b)" "silent_call (Sys_munmap a)" "silent_call (Sys_open p na)"
  "silent_call (Sys_close a)" "silent_call (Sys_shutdown a b)" "silent_call (Sys_stat p)" "silent_call (Sys_lstat p)"
  "silent_call Sys_geteuid" "silent_call (Sys_epoll_ctl op a i)" "silent_call (Sys_kevent_add a i os)"
  "silent_call (Sys_kevent_delete a i)" "silent_call (Sys_port_associate a i)" "silent_call (Sys_port_dissociate a)"
  "silent_call Sys_pipe" "silent_call Sys_fork" "silent_call (stat_sys fl p)"
  by (simp_all add: silent_call_def stat_sys_def)

lemma call_output_silent: "silent_call c \<Longrightarrow> call_output sk (c, r) = []"
  by (cases c) (auto simp: silent_call_def call_output_def)

section \<open>Steps of the server\<close>

definition quiet :: "server \<Rightarrow> server \<Rightarrow> bool" where
  "quiet s s' \<longleftrightarrow> (\<exists>new. trace s' = trace s @ new \<and> (\<forall>cr\<in>set new. silent_call (fst cr)))"

definition srv_same :: "server \<Rightarrow> server \<Rightarrow> bool" where
  "srv_same s s' \<longleftrightarrow> Config s' = Config s \<and> MAXCLIENTS s' = MAXCLIENTS s \<and> TIME s' = TIME s \<and> conns s' = conns s \<and>
     local_connections s' = local_connections s \<and> MimeTypes s' = MimeTypes s \<and> ModMgr s' = ModMgr s \<and>
     CGITypes s' = CGITypes s \<and> ShuttingDown s' = ShuttingDown s \<and> world s' = world s \<and> listeners s' = listeners s \<and> IPV6 s' = IPV6 s \<and>
     OLDTIME s' = OLDTIME s \<and> s_signal s' = s_signal s \<and> ConfigFileName s' = ConfigFileName s \<and>
     next_addr s \<le> next_addr s' \<and> (cache_ok s \<longrightarrow> cache_ok s')"

definition srv_step :: "server \<Rightarrow> server \<Rightarrow> bool" where
  "srv_step s s' \<longleftrightarrow> srv_same s s' \<and> quiet s s' \<and> culls s' = culls s"

lemma quiet_refl [simp]: "quiet s s"
  by (simp add: quiet_def)

lemma quiet_trans: "quiet s s' \<Longrightarrow> quiet s' s'' \<Longrightarrow> quiet s s''"
  unfolding quiet_def by (metis UnE append.assoc set_append)

lemma srv_same_refl [simp]: "srv_same s s"
  by (simp add: srv_same_def)

lemma srv_same_trans: "srv_same s s' \<Longrightarrow> srv_same s' s'' \<Longrightarrow> srv_same s s''"
  by (simp add: srv_same_def)

lemma srv_step_refl [simp, intro]: "srv_step s s"
  by (simp add: srv_step_def)

lemma srv_step_trans: "srv_step s s' \<Longrightarrow> srv_step s' s'' \<Longrightarrow> srv_step s s''"
  unfolding srv_step_def by (metis quiet_trans srv_same_trans)

lemma quiet_output: "quiet s s' \<Longrightarrow> output_of sk (trace s') = output_of sk (trace s)"
proof -
  have "concat (map (call_output sk) new) = []" if "\<forall>cr\<in>set new. silent_call (fst cr)" for new
    using that by (induction new) (auto simp: call_output_silent)
  then show "quiet s s' \<Longrightarrow> ?thesis" by (auto simp: quiet_def output_of_def)
qed

lemma cache_ok_io:
  assumes "srv_io s s'" and "\<exists>new. trace s' = trace s @ new" and "cache_ok s"
  shows "cache_ok s'"
  using assms(2,3) by (fastforce simp: cache_ok_def stat_cache_io [OF assms(1)] intro!: answers_append)

lemma srv_step_io:
  assumes "srv_io s s'" and "quiet s s'"
  shows "srv_step s s'"
  using assms cache_ok_io [OF assms(1)]
  by (auto simp: srv_step_def srv_same_def srv_io_fields [OF assms(1)] quiet_def)

lemma syscall_srv_step: "syscall c s = (r, s') \<Longrightarrow> silent_call c \<Longrightarrow> srv_step s s'"
  by (rule srv_step_io) (auto simp: quiet_def dest: syscall_trace)

lemma srv_step_update [simp]:
  "srv_step s (s\<lparr>errno := e\<rparr>)" "srv_step s (s\<lparr>cgis := g\<rparr>)"
  "srv_step s (s\<lparr>total_cgi_processes := t\<rparr>)" "srv_step s (s\<lparr>CGIRequests := q\<rparr>)" "srv_step s (s\<lparr>SE := e'\<rparr>)"
  by (simp_all add: srv_step_def srv_same_def quiet_def cache_ok_def stat_cache_def)

lemma SE_Close_step [simp]: "srv_step s (snd (SE_Close sk s))"
  by (auto simp: SE_Close_def intro: syscall_srv_step split: prod.splits)

lemma SE_Shutdown_step [simp]: "srv_step s (snd (SE_Shutdown sk how s))"
  by (auto simp: SE_Shutdown_def intro: syscall_srv_step split: prod.splits)

lemma Stat_srv_step: "FileSystem_Stat p fl fc s = (ret, st, s') \<Longrightarrow> srv_step s s'"
proof -
  assume e: "FileSystem_Stat p fl fc s = (ret, st, s')"
  then have "\<exists>new. trace s' = trace s @ new \<and> (\<forall>cr\<in>set new. silent_call (fst cr))"
    by (auto simp: FileSystem_Stat_def stat_fresh_def Let_def syscall_def split: if_splits option.splits prod.splits)
  with Stat_frame [OF e] Stat_faithful [OF _ e] show ?thesis
    by (auto simp: srv_step_def srv_same_def quiet_def)
qed

lemma check_walk_srv_step: "check_walk pre rest s = (p, st, s') \<Longrightarrow> srv_step s s'"
proof (induction pre rest s rule: check_walk.induct)
  case (1 pre s)
  obtain ret st1 s1 where e: "FileSystem_Stat (c_str pre) (FollowSymLinks (Config s)) True s = (ret, st1, s1)"
    by (cases rule: prod_cases3)
  with 1 Stat_srv_step [OF e] srv_step_trans [OF Stat_srv_step [OF e]] show ?case by (auto split: if_splits)
next
  case (2 pre c cs s)
  obtain ret st1 s1 where e: "FileSystem_Stat (c_str pre) (FollowSymLinks (Config s)) True s = (ret, st1, s1)"
    by (cases rule: prod_cases3)
  note 1 = Stat_srv_step [OF e]
  show ?case
  proof (cases "c = CHR ''/''")
    case True
    with "2.prems" "2.IH"(1) [OF True e [symmetric] refl] e 1 srv_step_trans [OF 1]
    show ?thesis by (auto split: if_splits)
  qed (use "2.prems" "2.IH"(2) in auto)
qed

lemma CheckFilePath_srv_step: "CheckFilePath b p s = Some (q, st, s') \<Longrightarrow> srv_step s s'"
  by (auto simp: CheckFilePath_def Let_def split: if_splits dest: check_walk_srv_step)

section \<open>The engine and the modules\<close>

lemma engine_quiet:
  "AddFd eh sk s = Some (b, s') \<Longrightarrow> quiet s s'" "DelFd eh sk force s = Some (b, s') \<Longrightarrow> quiet s s'"
  "WantWrite eh sk s = Some s' \<Longrightarrow> quiet s s'"
  by (auto simp: AddFd_def DelFd_def WantWrite_def engine_defs Let_def quiet_def syscall_def
      split: if_splits prod.splits bind_splits engine_kind.splits)

lemma AddFd_srv_step: "AddFd eh sk s = Some (b, s') \<Longrightarrow> srv_step s s'"
  by (rule srv_step_io [OF AddFd_frame engine_quiet(1)])

lemma DelFd_srv_step: "DelFd eh sk force s = Some (b, s') \<Longrightarrow> srv_step s s'"
  by (rule srv_step_io [OF DelFd_frame engine_quiet(2)])

lemma WantWrite_srv_step: "WantWrite eh sk s = Some s' \<Longrightarrow> srv_step s s'"
  by (rule srv_step_io [OF WantWrite_frame engine_quiet(3)])

lemma CGI_Close_socket_step:
  assumes "CGI_Close_socket n s = Some (b, s')"
  shows "srv_step s s'"
proof -
  from assms obtain r where r: "cgis s n = Some r" by (auto simp: CGI_Close_socket_def split: bind_splits)
  show ?thesis
  proof (cases "cgi_fd r > - 1")
    case True
    with assms r obtain ok s1 where del: "DelFd (H_Cgi n) (cgi_fd r) False s = Some (ok, s1)"
      by (auto simp: CGI_Close_socket_def split: bind_splits)
    define s3 where "s3 = snd (SE_Shutdown (cgi_fd r) 1 (snd (SE_Close (cgi_fd r) s1)))"
    from assms r True del have s': "s' = s3\<lparr>cgis := (cgis s3)(n \<mapsto> r\<lparr>cgi_fd := - 1, cgi_done := True\<rparr>)\<rparr>"
      by (auto simp: CGI_Close_socket_def s3_def Let_def case_prod_beta)
    have "srv_step s s3"
      unfolding s3_def by (meson DelFd_srv_step [OF del] SE_Close_step SE_Shutdown_step srv_step_trans)
    then show ?thesis unfolding s' by (rule srv_step_trans) (rule srv_step_update)
  qed (use assms r in \<open>auto simp: CGI_Close_socket_def\<close>)
qed

lemma CGI_destroy_step:
  assumes "CGI_destroy n s = Some s'"
  shows "srv_step s s'"
proof -
  from assms obtain b s1 where c: "CGI_Close_socket n s = Some (b, s1)"
    and s': "s' = s1\<lparr>total_cgi_processes := total_cgi_processes s1 - 1, cgis := (cgis s1)(n := None)\<rparr>"
    by (auto simp: CGI_destroy_def split: bind_splits)
  have "s' = (s1\<lparr>total_cgi_processes := total_cgi_processes s1 - 1\<rparr>)\<lparr>cgis := (cgis s1)(n := None)\<rparr>"
    by (simp add: s')
  moreover have "srv_step s (s1\<lparr>total_cgi_processes := total_cgi_processes s1 - 1\<rparr>)"
    by (rule srv_step_trans [OF CGI_Close_socket_step [OF c]]) (rule srv_step_update)
  ultimately show ?thesis by (simp only:) (erule srv_step_trans, rule srv_step_update)
qed

lemma CGI_forget_step:
  assumes "CGI_forget p s = Some s'"
  shows "srv_step s s'"
proof (cases "om_find nat_less p (CGIRequests s)")
  case (Some n)
  with assms obtain s1 where d: "CGI_destroy n s = Some s1"
    and s': "s' = s1\<lparr>CGIRequests := om_erase nat_less p (CGIRequests s1)\<rparr>"
    by (cases "CGI_destroy n s") (simp_all add: CGI_forget_def)
  show ?thesis unfolding s' by (rule srv_step_trans [OF CGI_destroy_step [OF d] srv_step_update(4)])
qed (use assms in \<open>simp add: CGI_forget_def\<close>)

lemma OnBufferFlushed_step: "OnBufferFlushed m p s = Some s' \<Longrightarrow> srv_step s s'"
  by (cases m) (auto simp: OnBufferFlushed_def dest: CGI_forget_step)

lemma OnConnectionDisconnect_step: "OnConnectionDisconnect m p s = Some s' \<Longrightarrow> srv_step s s'"
  by (cases m) (auto simp: OnConnectionDisconnect_def dest: CGI_forget_step)

lemma foreach_mod_step:
  "(\<And>m s s'. f m s = Some s' \<Longrightarrow> srv_step s s') \<Longrightarrow> foreach_mod f ms s = Some s' \<Longrightarrow> srv_step s s'"
proof (induction ms arbitrary: s)
  case (Cons m ms)
  from Cons.prems(2) obtain s1 where "f m s = Some s1" "foreach_mod f ms s1 = Some s'"
    by (auto split: bind_splits)
  with Cons.IH [OF Cons.prems(1)] Cons.prems(1) show ?case by (meson srv_step_trans)
qed simp

end
