(* ===== verification/ConnProps.thy ===== *)
theory ConnProps
  imports ConnFrame
begin

text \<open>
  The invariant of a connection and what every operation does to it: \<open>conn_inv\<close> is kept, the
  stream of bytes is only ever extended at its end (so nothing queued is lost, sent twice or
  overtaken, by file contents in particular), and a connection enters the cull list exactly once,
  when it starts quitting.
\<close>

definition live :: "conn \<Rightarrow> bool" where
  "live c \<longleftrightarrow> \<not> quitting c \<and> (ResponseBackend c \<longrightarrow> 0 \<le> filefd c) \<and> headers_ok (conn_headers c)"

definition conn_inv :: "conn \<Rightarrow> bool" where
  "conn_inv c \<longleftrightarrow>
     (State c \<in> {HTTP_WAIT_REQUEST, HTTP_RECV_REQBODY} \<longrightarrow> \<not> ResponseBackend c) \<and>
     (ResponseBackend c \<longrightarrow> 0 \<le> filefd c) \<and>
     (State c = HTTP_SEND_DATA \<and> ResponseBackend c \<longrightarrow> sendq c = []) \<and>
     (quitting c \<longleftrightarrow> State c = HTTP_FINISHED) \<and> headers_ok (conn_headers c)"

definition conn_step :: "cstate \<Rightarrow> cstate \<Rightarrow> bool" where
  "conn_step st st' \<longleftrightarrow> (case (st, st') of ((c, s), (c', s')) \<Rightarrow>
     this_ptr c' = this_ptr c \<and> fd c' = fd c \<and> age c' = age c \<and> srv_same s s' \<and>
     (\<exists>out. stream (c', s') = stream (c, s) @ out) \<and> (quitting c \<longrightarrow> quitting c') \<and>
     culls s' = culls s @ (if quitting c' \<and> \<not> quitting c then [this_ptr c] else []))"

definition runs :: "(conn \<Rightarrow> bool) \<Rightarrow> (cstate \<Rightarrow> cstate option) \<Rightarrow> bool" where
  "runs P f \<longleftrightarrow> (\<forall>c s st'. P c \<longrightarrow> f (c, s) = Some st' \<longrightarrow> conn_inv (fst st') \<and> conn_step (c, s) st')"

definition waiting :: "conn \<Rightarrow> bool" where
  "waiting c \<longleftrightarrow> conn_inv c \<and> State c = HTTP_WAIT_REQUEST"

lemma runsD: "runs P f \<Longrightarrow> P c \<Longrightarrow> f (c, s) = Some st' \<Longrightarrow> conn_inv (fst st') \<and> conn_step (c, s) st'"
  unfolding runs_def by blast

lemma waiting_live: "waiting c \<Longrightarrow> live c \<and> \<not> ResponseBackend c"
  by (auto simp: waiting_def conn_inv_def live_def)

section \<open>The basic steps\<close>

lemma conn_step_refl [simp, intro]: "conn_step st st"
  by (cases st) (simp add: conn_step_def)

lemma conn_step_trans:
  assumes "conn_step st st'" and "conn_step st' st''"
  shows "conn_step st st''"
proof -
  obtain c s c' s' c'' s'' where p: "st = (c, s)" "st' = (c', s')" "st'' = (c'', s'')" by (metis surj_pair)
  with assms obtain o1 o2 where "stream (c', s') = stream (c, s) @ o1" "stream (c'', s'') = stream (c', s') @ o2"
    by (auto simp: conn_step_def)
  then have "stream (c'', s'') = stream (c, s) @ (o1 @ o2)" by simp
  moreover have "srv_same s s''" using assms p srv_same_trans by (auto simp: conn_step_def)
  moreover from assms p have "this_ptr c'' = this_ptr c \<and> fd c'' = fd c \<and> age c'' = age c \<and> (quitting c \<longrightarrow> quitting c'') \<and>
      culls s'' = culls s @ (if quitting c'' \<and> \<not> quitting c then [this_ptr c] else [])"
    by (cases "quitting c"; cases "quitting c'") (simp_all add: conn_step_def)
  ultimately show ?thesis unfolding p conn_step_def by auto
qed

lemma conn_step_srv: "srv_step s s' \<Longrightarrow> conn_step (c, s) (c, s')"
  by (auto simp: conn_step_def srv_step_def stream_def quiet_output)

lemma conn_step_local:
  assumes "this_ptr c' = this_ptr c" "fd c' = fd c" "age c' = age c" "quitting c' = quitting c"
    and "\<exists>dat. sendq c' = sendq c @ dat"
  shows "conn_step (c, s) (c', s)"
  using assms by (auto simp: conn_step_def stream_def)

lemma Delete_step: "conn_step st (Delete st)"
  by (cases st) (auto simp: conn_step_def Delete_def AddItem_def stream_def srv_same_def cache_ok_def stat_cache_def)

lemma Delete_fields [simp]:
  "State (fst (Delete st)) = HTTP_FINISHED" "quitting (fst (Delete st))" "sendq (fst (Delete st)) = sendq (fst st)"
  "ResponseBackend (fst (Delete st)) = ResponseBackend (fst st)" "filefd (fst (Delete st)) = filefd (fst st)"
  "conn_headers (fst (Delete st)) = conn_headers (fst st)" "requestbuf (fst (Delete st)) = requestbuf (fst st)"
  "fd (fst (Delete st)) = fd (fst st)"
  by (auto simp: Delete_def AddItem_def split: prod.splits)

lemma Delete_inv [simp]:
  "(ResponseBackend (fst st) \<longrightarrow> 0 \<le> filefd (fst st)) \<and> headers_ok (conn_headers (fst st)) \<Longrightarrow> conn_inv (fst (Delete st))"
  by (simp add: conn_inv_def)

lemma conn_WantWrite_step:
  assumes "conn_WantWrite (c, s) = Some (c', s')"
  shows "c' = c \<and> srv_step s s'"
  using assms by (auto simp: conn_WantWrite_def split: bind_splits dest: WantWrite_srv_step)

lemma Write_step:
  assumes "Write txt (c, s) = Some (c', s')"
  shows "(c' = c \<or> c' = c\<lparr>sendq := sendq c @ txt\<rparr>) \<and> srv_step s s' \<and> conn_step (c, s) (c', s')"
proof (cases "BoundsCheckFd (fd c) s")
  case True
  with assms have "conn_WantWrite (c\<lparr>sendq := sendq c @ txt\<rparr>, s) = Some (c', s')"
    by (simp add: Write_def AddWriteBuf_def)
  from conn_WantWrite_step [OF this] have e: "c' = c\<lparr>sendq := sendq c @ txt\<rparr>" "srv_step s s'" by auto
  have "conn_step (c, s) (c', s)" by (rule conn_step_local) (auto simp: e)
  with conn_step_srv [OF e(2)] e show ?thesis by (meson conn_step_trans)
qed (use assms in \<open>auto simp: Write_def\<close>)

text \<open>The fields \<open>Write\<close> leaves alone.\<close>

definition same_but_queue :: "conn \<Rightarrow> conn \<Rightarrow> bool" where
  "same_but_queue c c' \<longleftrightarrow> (\<exists>q k st. c' = c\<lparr>sendq := q, keepalive := k, State := st\<rparr>)"

lemma same_but_queue_refl [simp]: "same_but_queue c c"
proof -
  have "c = c\<lparr>sendq := sendq c, keepalive := keepalive c, State := State c\<rparr>" by simp
  then show ?thesis unfolding same_but_queue_def by metis
qed

lemma same_but_queue_fields:
  "same_but_queue c c' \<Longrightarrow> this_ptr c' = this_ptr c \<and> fd c' = fd c \<and> ResponseBackend c' = ResponseBackend c \<and>
     filefd c' = filefd c \<and> quitting c' = quitting c \<and> conn_headers c' = conn_headers c \<and> requestbuf c' = requestbuf c \<and>
     uri c' = uri c \<and> http_method c' = http_method c \<and> ResponseBufferDone c' = ResponseBufferDone c \<and> RequestsCompleted c' = RequestsCompleted c"
  by (auto simp: same_but_queue_def)

section \<open>Sending\<close>

lemma output_of_send: "output_of sk [(Sys_send sk dat, r)] = map OByte (take (nat (r_ret r)) dat)"
  by (simp add: output_of_def call_output_def)

lemma flush_send_step:
  assumes "flush_send (c, s) = Some (go, c', s')"
  shows "conn_step (c, s) (c', s') \<and> ResponseBackend c' = ResponseBackend c \<and> filefd c' = filefd c \<and>
    conn_headers c' = conn_headers c \<and> requestbuf c' = requestbuf c \<and>
    (if go then State c' = State c \<and> quitting c' = quitting c \<and> (sendq c = [] \<longrightarrow> sendq c' = [])
     else State c' = HTTP_FINISHED \<and> quitting c')"
proof (cases "sendq c \<noteq> [] \<and> fd c \<noteq> FD_MAGIC_NUMBER")
  case False
  with assms have "go \<and> c' = c \<and> s' = s" by (simp add: flush_send_def)
  then show ?thesis by simp
next
  case True
  obtain r s1 where call: "syscall (Sys_send (fd c) (sendq c)) s = (r, s1)" by fastforce
  let ?n = "r_ret r"
  note tr = syscall_trace [OF call] and fr = syscall_frame [OF call]
  have same: "srv_same s s1" "culls s1 = culls s"
    using cache_ok_io [OF fr] tr by (auto simp: srv_same_def srv_io_fields [OF fr])
  have sent: "conn_step (c, s) (c\<lparr>sendq := drop k (sendq c)\<rparr>, s1)" if "?n = int k \<or> (?n < 0 \<and> k = 0)" for k
  proof -
    have "stream (c\<lparr>sendq := drop k (sendq c)\<rparr>, s1) = stream (c, s)"
      using that append_take_drop_id [of k "map OByte (sendq c)"]
      by (auto simp: stream_def tr output_of_send take_map drop_map)
    with same show ?thesis by (simp add: conn_step_def)
  qed
  from sent [of 0] have stay: "?n < 0 \<Longrightarrow> conn_step (c, s) (c, s1)" by simp
  consider (retry) "?n = - 1" "errno s1 = EAGAIN" | (fatal) "?n = - 1" "errno s1 \<noteq> EAGAIN" | (ok) "?n \<noteq> - 1" by blast
  then show ?thesis
  proof cases
    case retry
    with True assms call have "conn_WantWrite (c, s1) = Some (c', s') \<and> go"
      by (auto simp: flush_send_def SE_Send_def split: bind_splits)
    with conn_WantWrite_step [of c s1 c' s'] stay retry conn_step_srv [of s1 s' c] show ?thesis
      by (auto intro: conn_step_trans)
  next
    case fatal
    with True assms call have "\<not> go" "(c', s') = Delete (c, s1)" by (auto simp: flush_send_def SE_Send_def)
    with stay fatal Delete_step [of "(c, s1)"] Delete_fields [of "(c, s1)"] show ?thesis
      by (metis conn_step_trans fst_conv less_minus_one_simps(1))
  next
    case ok
    with True assms call have n: "0 \<le> ?n" "?n \<le> int (length (sendq c))"
      by (auto simp: flush_send_def SE_Send_def split: if_splits)
    define c1 where "c1 = c\<lparr>sendq := drop (nat ?n) (sendq c)\<rparr>"
    have c1: "(if ?n \<noteq> 0 then c\<lparr>sendq := drop (nat ?n) (sendq c)\<rparr> else c) = c1" by (simp add: c1_def)
    have st1: "conn_step (c, s) (c1, s1)" unfolding c1_def using sent [of "nat ?n"] n by simp
    from True assms call ok n c1 have "go \<and> c' = c1 \<and> srv_step s1 s'"
      by (auto simp: flush_send_def SE_Send_def Let_def split: if_splits bind_splits dest: conn_WantWrite_step)
    with st1 conn_step_srv [of s1 s' c1] True show ?thesis
      by (auto simp: c1_def intro: conn_step_trans)
  qed
qed

lemma EndRequest_runs:
  assumes chk: "runs waiting chk"
  shows "runs live (EndRequest chk)"
  unfolding runs_def
proof (intro allI impI)
  fix c s st' assume live: "live c" and e: "EndRequest chk (c, s) = Some st'"
  show "conn_inv (fst st') \<and> conn_step (c, s) st'"
  proof (cases "keepalive c")
    case False
    let ?d = "(c\<lparr>RequestsCompleted := RequestsCompleted c + 1, State := HTTP_FINISHED\<rparr>, s)"
    from e False have st': "st' = Delete ?d" by (simp add: EndRequest_def)
    have "conn_step (c, s) ?d" by (rule conn_step_local) auto
    with Delete_step [of ?d] live show ?thesis
      unfolding st' by (auto simp: live_def intro: conn_step_trans)
  next
    case True
    define c2 where "c2 = c\<lparr>RequestsCompleted := RequestsCompleted c + 1, conn_headers := [], http_method := [], uri := [],
      uriquery := [], upath := [], RequestBody := [], http_version := HTTP_UNSPECIFIED, RequestBodyLength := 0,
      State := HTTP_WAIT_REQUEST, ResponseBackend := False, ResponseBufferDone := False, rfilesize := 0, rfilesent := 0,
      filefd := (if filefd c > - 1 then - 1 else filefd c)\<rparr>"
    define s2 where "s2 = (if filefd c > - 1 then snd (SE_Close (filefd c) s) else s)"
    have e': "(if requestbuf c2 \<noteq> [] then chk (c2, s2) else Some (c2, s2)) = Some st'"
    proof (cases "filefd c > - 1")
      case True
      with e \<open>keepalive c\<close> show ?thesis
        by (cases c) (simp add: EndRequest_def Let_def Headers_Clear_def c2_def s2_def split: if_splits)
    next
      case False
      with e \<open>keepalive c\<close> show ?thesis
        by (cases c) (simp add: EndRequest_def Let_def Headers_Clear_def c2_def s2_def split: if_splits)
    qed
    have w: "waiting c2" using live by (auto simp: waiting_def conn_inv_def live_def c2_def)
    have "srv_step s s2" by (simp add: s2_def)
    moreover have "conn_step (c, s2) (c2, s2)" by (rule conn_step_local) (auto simp: c2_def)
    ultimately have st: "conn_step (c, s) (c2, s2)" by (meson conn_step_srv conn_step_trans)
    show ?thesis
    proof (cases "requestbuf c2 = []")
      case True
      with e' st w show ?thesis by (auto simp: waiting_def)
    next
      case False
      with e' have "chk (c2, s2) = Some st'" by simp
      from runsD [OF chk w this] st show ?thesis by (meson conn_step_trans)
    qed
  qed
qed

lemma ServeFile_step:
  assumes e: "ServeFile (fd c) file sent len s = (re, sent', s')" and q: "sendq c = []"
  shows "conn_step (c, s) (c\<lparr>rfilesent := sent'\<rparr>, s')"
proof -
  obtain m s1 where call1: "syscall (Sys_mmap file len) s = (m, s1)" by fastforce
  have 1: "srv_step s s1" by (rule syscall_srv_step [OF call1]) simp
  have loc: "conn_step (c, s') (c\<lparr>rfilesent := sent'\<rparr>, s')" by (rule conn_step_local) auto
  show ?thesis
  proof (cases "r_ret m < 0")
    case True
    with e call1 have "s' = s1" by (simp add: ServeFile_def)
    with conn_step_srv [OF 1, of c] loc show ?thesis by (meson conn_step_trans)
  next
    case False
    obtain r s2 where call2: "syscall (Sys_send_map (fd c) file sent (len - sent)) s1 = (r, s2)" by fastforce
    obtain u s3 where call3: "syscall (Sys_munmap len) s2 = (u, s3)" by fastforce
    from e call1 call2 call3 False have s': "s' = s3" by (auto simp: ServeFile_def split: if_splits)
    note fr = syscall_frame [OF call2]
    have "srv_same s1 s2" "culls s2 = culls s1"
      using cache_ok_io [OF fr] syscall_trace [OF call2] by (auto simp: srv_same_def srv_io_fields [OF fr])
    then have "conn_step (c, s1) (c, s2)" using q by (auto simp: conn_step_def stream_def syscall_trace [OF call2])
    moreover have "srv_step s2 s3" by (rule syscall_srv_step [OF call3]) simp
    ultimately show ?thesis using conn_step_srv [OF 1, of c] conn_step_srv [of s2 s3 c] loc
      unfolding s' by (meson conn_step_trans)
  qed
qed

definition sending_file :: "conn \<Rightarrow> bool" where
  "sending_file c \<longleftrightarrow> live c \<and> State c = HTTP_SEND_DATA \<and> ResponseBackend c \<and> sendq c = []"

lemma SendStaticData_runs:
  assumes chk: "runs waiting chk"
  shows "runs sending_file (SendStaticData chk)"
  unfolding runs_def
proof (intro allI impI)
  fix c s st' assume pre: "sending_file c" and e: "SendStaticData chk (c, s) = Some st'"
  from pre have opn: "\<not> filefd c < 0" and q: "sendq c = []" by (auto simp: sending_file_def live_def)
  obtain re sent s1 where f: "ServeFile (fd c) (filefd c) (rfilesent c) (rfilesize c) s = (re, sent, s1)"
    by (cases rule: prod_cases3)
  let ?c1 = "c\<lparr>rfilesent := sent\<rparr>"
  from ServeFile_step [OF f q] have st: "conn_step (c, s) (?c1, s1)" .
  have live1: "live ?c1" using pre by (simp add: sending_file_def live_def)
  from e opn pre f have body: "(if re < 0 then Some (Delete (?c1, s1))
      else if sent = rfilesize c then EndRequest chk (?c1, s1) else conn_WantWrite (?c1, s1)) = Some st'"
    by (auto simp: SendStaticData_def sending_file_def Let_def split: if_splits)
  consider "re < 0" | "\<not> re < 0" "sent = rfilesize c" | "\<not> re < 0" "sent \<noteq> rfilesize c" by blast
  then show "conn_inv (fst st') \<and> conn_step (c, s) st'"
  proof cases
    case 1
    with body have "st' = Delete (?c1, s1)" by simp
    with st live1 Delete_step [of "(?c1, s1)"] show ?thesis by (auto simp: live_def intro: conn_step_trans)
  next
    case 2
    with body have "EndRequest chk (?c1, s1) = Some st'" by simp
    from runsD [OF EndRequest_runs [OF chk] live1 this] st show ?thesis by (meson conn_step_trans)
  next
    case 3
    with body have "conn_WantWrite (?c1, s1) = Some st'" by simp
    then have "fst st' = ?c1" "srv_step s1 (snd st')" using conn_WantWrite_step by (metis prod.collapse)+
    with st conn_step_srv [of s1 "snd st'" ?c1] pre show ?thesis
      by (cases st') (auto simp: conn_inv_def sending_file_def live_def intro: conn_step_trans)
  qed
qed

lemma flush_done_runs:
  assumes chk: "runs waiting chk"
  shows "runs conn_inv (flush_done chk)"
  unfolding runs_def
proof (intro allI impI)
  fix c s st' assume inv: "conn_inv c" and e: "flush_done chk (c, s) = Some st'"
  show "conn_inv (fst st') \<and> conn_step (c, s) st'"
  proof (cases "sendq c = []")
    case False
    with e inv show ?thesis by (auto simp: flush_done_def)
  next
    case True
    with e obtain s1 where h: "foreach_mod (\<lambda>m. OnBufferFlushed m (this_ptr c)) (event_handlers s I_OnBufferFlushed) s = Some s1"
      and body: "(if State c = HTTP_SEND_DATA \<and> ResponseBufferDone c then EndRequest chk (c, s1)
       else if State c = HTTP_SEND_HEADERS \<and> ResponseBackend c then SendStaticData chk (c\<lparr>State := HTTP_SEND_DATA\<rparr>, s1)
       else Some (c, s1)) = Some st'"
      by (auto simp: flush_done_def split: bind_splits)
    have "srv_step s s1" by (rule foreach_mod_step [OF OnBufferFlushed_step h])
    from conn_step_srv [OF this, of c] have st: "conn_step (c, s) (c, s1)" .
    consider (ended) "State c = HTTP_SEND_DATA" "ResponseBufferDone c"
      | (static) "State c = HTTP_SEND_HEADERS" "ResponseBackend c"
      | (neither) "\<not> (State c = HTTP_SEND_DATA \<and> ResponseBufferDone c)" "\<not> (State c = HTTP_SEND_HEADERS \<and> ResponseBackend c)"
      by blast
    then show ?thesis
    proof cases
      case ended
      with inv have "live c" by (auto simp: conn_inv_def live_def)
      moreover from ended body have "EndRequest chk (c, s1) = Some st'" by simp
      ultimately show ?thesis using runsD [OF EndRequest_runs [OF chk]] st by (meson conn_step_trans)
    next
      case static
      let ?c = "c\<lparr>State := HTTP_SEND_DATA\<rparr>"
      from static inv True have "sending_file ?c" by (auto simp: conn_inv_def live_def sending_file_def)
      moreover from static body have "SendStaticData chk (?c, s1) = Some st'" by simp
      moreover have "conn_step (c, s1) (?c, s1)" by (rule conn_step_local) auto
      ultimately show ?thesis using runsD [OF SendStaticData_runs [OF chk]] st by (meson conn_step_trans)
    next
      case neither
      with body st inv show ?thesis by (auto split: if_splits)
    qed
  qed
qed

lemma FlushWriteBuf_runs:
  assumes chk: "runs waiting chk"
  shows "runs conn_inv (FlushWriteBuf chk)"
  unfolding runs_def
proof (intro allI impI)
  fix c s st' assume inv: "conn_inv c" and e: "FlushWriteBuf chk (c, s) = Some st'"
  then obtain go c1 s1 where f: "flush_send (c, s) = Some (go, c1, s1)"
    and body: "(if go then flush_done chk (c1, s1) else Some (c1, s1)) = Some st'"
    by (auto simp: FlushWriteBuf_def split: bind_splits)
  note st = flush_send_step [OF f]
  show "conn_inv (fst st') \<and> conn_step (c, s) st'"
  proof (cases go)
    case True
    with st inv have "conn_inv c1" by (auto simp: conn_inv_def)
    with True body runsD [OF flush_done_runs [OF chk], of c1 s1] st show ?thesis by (auto intro: conn_step_trans)
  next
    case False
    with st inv body show ?thesis by (auto simp: conn_inv_def)
  qed
qed

section \<open>Responding\<close>

text \<open>\<open>SendHeaders\<close> up to the point where an empty body ends the request.\<close>

definition headers_out :: "cstate \<Rightarrow> cstate \<Rightarrow> bool" where
  "headers_out st st' \<longleftrightarrow> conn_step st st' \<and> same_but_queue (fst st) (fst st') \<and>
     State (fst st') = HTTP_SEND_HEADERS \<and> event_handlers (snd st') = event_handlers (snd st)"

lemma write_headers_out:
  assumes "write_headers sz resp txt rh (c, s) = Some st1"
  shows "headers_out (c, s) st1"
proof -
  define c0 where "c0 = c\<lparr>State := HTTP_SEND_HEADERS\<rparr>"
  from assms obtain c1 s1 c2 s2 c3 s3 c4 s4 hs ka where
    w1: "Write (if http_version c0 = HTTP_1_0 then ''HTTP/1.0 '' else ''HTTP/1.1 '') (c0, s) = Some (c1, s1)" and
    w2: "Write (ConvNumeric resp @ '' '' @ txt @ CRLF) (c1, s1) = Some (c2, s2)" and
    hs: "response_headers sz rh c2 s2 = (hs, ka)" and
    w3: "Write (GetFormattedHeaders hs) (c2\<lparr>keepalive := ka\<rparr>, s2) = Some (c3, s3)" and
    w4: "Write CRLF (c3, s3) = Some (c4, s4)" and st1: "st1 = (c4, s4)"
    by (cases st1) (auto simp: write_headers_def c0_def Let_def split: bind_splits prod.splits)
  have "conn_step (c, s) (c0, s)" by (rule conn_step_local) (auto simp: c0_def)
  moreover have "conn_step (c2, s2) (c2\<lparr>keepalive := ka\<rparr>, s2)" by (rule conn_step_local) auto
  ultimately have "conn_step (c, s) (c4, s4)"
    using Write_step [OF w1] Write_step [OF w2] Write_step [OF w3] Write_step [OF w4] by (meson conn_step_trans)
  moreover have "same_but_queue c c4 \<and> State c4 = HTTP_SEND_HEADERS"
  proof -
    have "c1 = c\<lparr>sendq := sendq c1, keepalive := keepalive c1, State := HTTP_SEND_HEADERS\<rparr>"
      using Write_step [OF w1] by (auto simp: c0_def)
    moreover have "c2 = c1\<lparr>sendq := sendq c2\<rparr>" using Write_step [OF w2] by auto
    moreover have "c3 = c2\<lparr>sendq := sendq c3, keepalive := ka\<rparr>" using Write_step [OF w3] by auto
    moreover have "c4 = c3\<lparr>sendq := sendq c4\<rparr>" using Write_step [OF w4] by auto
    ultimately have "c4 = c\<lparr>sendq := sendq c4, keepalive := ka, State := HTTP_SEND_HEADERS\<rparr>"
      by (cases c; cases c1; cases c2; cases c3; cases c4; simp)
    then show ?thesis unfolding same_but_queue_def by (metis conn.select_convs(4) conn.update_convs(4) conn.surjective)
  qed
  moreover have "event_handlers s4 = event_handlers s"
    using Write_step [OF w1] Write_step [OF w2] Write_step [OF w3] Write_step [OF w4]
    by (auto simp: srv_step_def srv_same_def)
  ultimately show ?thesis unfolding headers_out_def st1 by simp
qed

lemma SendHeaders_split:
  assumes "SendHeaders chk sz resp txt rh (c, s) = Some st'"
  shows "\<exists>st1. headers_out (c, s) st1 \<and> (if sz = 0 then EndRequest chk st1 else Some st1) = Some st'"
proof (cases "write_headers sz resp txt rh (c, s)")
  case (Some st1)
  with assms write_headers_out [OF Some] show ?thesis
    by (intro exI [of _ st1]) (simp add: SendHeaders_def)
qed (use assms in \<open>simp add: SendHeaders_def\<close>)

lemma headers_out_live: "headers_out st st' \<Longrightarrow> live (fst st) \<Longrightarrow> live (fst st')"
  by (auto simp: headers_out_def live_def dest: same_but_queue_fields)

lemma SendHeaders_runs:
  assumes chk: "runs waiting chk"
  shows "runs live (SendHeaders chk sz resp txt rh)"
  unfolding runs_def
proof (intro allI impI)
  fix c s st' assume live: "live c" and e: "SendHeaders chk sz resp txt rh (c, s) = Some st'"
  from SendHeaders_split [OF e] obtain c1 s1 where h: "headers_out (c, s) (c1, s1)"
    and fin: "(if sz = 0 then EndRequest chk (c1, s1) else Some (c1, s1)) = Some st'" by auto
  from headers_out_live [OF h] live have live1: "live c1" by simp
  show "conn_inv (fst st') \<and> conn_step (c, s) st'"
  proof (cases "sz = 0")
    case True
    with fin runsD [OF EndRequest_runs [OF chk] live1, of s1] h show ?thesis
      by (auto simp: headers_out_def intro: conn_step_trans)
  next
    case False
    with fin h live1 show ?thesis by (auto simp: headers_out_def live_def conn_inv_def)
  qed
qed

definition erring :: "conn \<Rightarrow> bool" where
  "erring c \<longleftrightarrow> \<not> quitting c \<and> headers_ok (conn_headers c)"

lemma error_page_ne [simp]: "error_page txt \<noteq> []" "length (error_page txt) \<noteq> 0"
  by (simp_all add: error_page_def)

lemma conn_inv_keepalive [simp]: "conn_inv (c\<lparr>keepalive := k\<rparr>) = conn_inv c"
  by (simp add: conn_inv_def)

lemma conn_step_keepalive: "conn_step st (c, s) \<Longrightarrow> conn_step st (c\<lparr>keepalive := k\<rparr>, s)"
  by (rule conn_step_trans, assumption, rule conn_step_local) auto

text \<open>\<open>SendError\<close> up to the flush.\<close>

lemma SendError_split:
  assumes "SendError chk code txt fatal (c, s) = Some st'"
  shows "\<exists>c2 s2 c3 s3. conn_step (c, s) (c2, s2) \<and> State c2 = HTTP_SEND_DATA \<and> \<not> ResponseBackend c2 \<and> ResponseBufferDone c2 \<and>
    quitting c2 = quitting c \<and> conn_headers c2 = conn_headers c \<and> requestbuf c2 = requestbuf c \<and> filefd c2 = filefd c \<and>
    FlushWriteBuf chk (c2, s2) = Some (c3, s3) \<and> st' = (if fatal then c3\<lparr>keepalive := False\<rparr> else c3, s3)"
proof -
  define cb where "cb = c\<lparr>ResponseBackend := False\<rparr>"
  from assms obtain c1 s1 c2 s2 c3 s3 where
    h: "SendHeaders chk (length (error_page txt)) code txt (SetHeader ''Content-Type'' ''text/html'' []) (cb, s) = Some (c1, s1)" and
    w: "Write (error_page txt) (c1\<lparr>State := HTTP_SEND_DATA\<rparr>, s1) = Some (c2, s2)" and
    f: "FlushWriteBuf chk (c2\<lparr>ResponseBufferDone := True\<rparr>, s2) = Some (c3, s3)" and
    st': "st' = (if fatal then c3\<lparr>keepalive := False\<rparr> else c3, s3)"
    by (auto simp: SendError_def Let_def cb_def split: bind_splits)
  from SendHeaders_split [OF h] have ho: "headers_out (cb, s) (c1, s1)" by simp
  note fields = same_but_queue_fields [of cb c1] and wr = Write_step [OF w]
  have "conn_step (c, s) (cb, s)" "conn_step (c1, s1) (c1\<lparr>State := HTTP_SEND_DATA\<rparr>, s1)"
    "conn_step (c2, s2) (c2\<lparr>ResponseBufferDone := True\<rparr>, s2)"
    by (rule conn_step_local; auto simp: cb_def)+
  with ho wr have "conn_step (c, s) (c2\<lparr>ResponseBufferDone := True\<rparr>, s2)"
    unfolding headers_out_def by (meson conn_step_trans)
  moreover have "State c2 = HTTP_SEND_DATA \<and> \<not> ResponseBackend c2 \<and> quitting c2 = quitting c \<and>
      conn_headers c2 = conn_headers c \<and> requestbuf c2 = requestbuf c \<and> filefd c2 = filefd c"
    using ho fields wr by (auto simp: headers_out_def cb_def)
  ultimately show ?thesis using f st'
    by (intro exI [of _ "c2\<lparr>ResponseBufferDone := True\<rparr>"] exI [of _ s2] exI [of _ c3] exI [of _ s3]) simp
qed

lemma SendError_runs:
  assumes chk: "runs waiting chk"
  shows "runs erring (SendError chk code txt fatal)"
  unfolding runs_def
proof (intro allI impI)
  fix c s st' assume er: "erring c" and e: "SendError chk code txt fatal (c, s) = Some st'"
  from SendError_split [OF e] obtain c2 s2 c3 s3 where p: "conn_step (c, s) (c2, s2)" "State c2 = HTTP_SEND_DATA"
    "\<not> ResponseBackend c2" "quitting c2 = quitting c" "conn_headers c2 = conn_headers c"
    and f: "FlushWriteBuf chk (c2, s2) = Some (c3, s3)" and st': "st' = (if fatal then c3\<lparr>keepalive := False\<rparr> else c3, s3)"
    by auto
  from p er have "conn_inv c2" by (auto simp: conn_inv_def erring_def)
  from runsD [OF FlushWriteBuf_runs [OF chk] this f] p(1) show "conn_inv (fst st') \<and> conn_step (c, s) st'"
    unfolding st' by (auto intro: conn_step_trans conn_step_keepalive)
qed

lemma path_error_runs: "runs waiting chk \<Longrightarrow> runs erring (path_error chk fatal)"
  using SendError_runs [of chk] by (auto simp: runs_def path_error_def split: errcode.splits)

lemma open_error_runs: "runs waiting chk \<Longrightarrow> runs erring (open_error chk)"
  using SendError_runs [of chk] by (auto simp: runs_def open_error_def split: errcode.splits)

section \<open>Serving\<close>

definition fresh :: "conn \<Rightarrow> bool" where
  "fresh c \<longleftrightarrow> live c \<and> \<not> ResponseBackend c"

lemma fresh_erring: "fresh c \<Longrightarrow> erring c"
  by (simp add: fresh_def live_def erring_def)

lemma ServeData_runs:
  assumes chk: "runs waiting chk"
  shows "runs fresh (ServeData chk)"
  unfolding runs_def
proof (intro allI impI)
  fix c s st' assume pre: "fresh c" and e: "ServeData chk (c, s) = Some st'"
  then obtain p ofst s1 where cfp: "CheckFilePath (DocRoot (Config s)) (uri c) s = Some (p, ofst, s1)"
    by (auto simp: ServeData_def split: bind_splits)
  define c1 where "c1 = c\<lparr>upath := p\<rparr>"
  have "conn_step (c, s1) (c1, s1)" by (rule conn_step_local) (auto simp: c1_def)
  with conn_step_srv [OF CheckFilePath_srv_step [OF cfp], of c] have st: "conn_step (c, s) (c1, s1)" by (meson conn_step_trans)
  have f1: "fresh c1" using pre by (simp add: fresh_def live_def c1_def)
  show "conn_inv (fst st') \<and> conn_step (c, s) st'"
  proof (cases "p = []")
    case True
    with e cfp have "path_error chk False (c1, s1) = Some st'" by (simp add: ServeData_def c1_def)
    from runsD [OF path_error_runs [OF chk] fresh_erring [OF f1] this] st show ?thesis by (meson conn_step_trans)
  next
    case False
    with e cfp obtain stp where stp: "ofst = Some stp" by (cases ofst) (auto simp: ServeData_def Let_def)
    obtain na s2 where na: "(if NoAtime (Config s1) then case syscall Sys_geteuid s1 of (r, s2) \<Rightarrow> (st_uid stp = r_ret r, s2)
        else (False, s1)) = (na, s2)" by fastforce
    have 2: "srv_step s1 s2" using na by (auto split: if_splits prod.splits intro: syscall_srv_step)
    define s3 where "s3 = (if filefd c1 > - 1 then snd (SE_Close (filefd c1) s2) else s2)"
    have 3: "srv_step s2 s3" by (simp add: s3_def)
    obtain r s4 where op: "syscall (Sys_open (c_str p) na) s3 = (r, s4)" by fastforce
    have 4: "srv_step s3 s4" by (rule syscall_srv_step [OF op]) simp
    define c2 where "c2 = c1\<lparr>filefd := r_ret r\<rparr>"
    have "conn_step (c1, s4) (c2, s4)" by (rule conn_step_local) (auto simp: c2_def)
    with 2 3 4 conn_step_srv [of s1 s4 c1] have st2: "conn_step (c1, s1) (c2, s4)" by (meson conn_step_trans srv_step_trans)
    have body: "(if r_ret r < 0 then open_error chk (c2, s4)
      else SendHeaders chk (nat (st_size stp)) 200 ''OK'' []
                 (c2\<lparr>rfilesize := st_size stp, rfilesent := 0, ResponseBackend := True\<rparr>, s4)) = Some st'"
      using e cfp False stp na op by (simp add: ServeData_def c1_def [symmetric] c2_def s3_def Let_def split: if_splits)
    show ?thesis
    proof (cases "r_ret r < 0")
      case True
      have "erring c2" using f1 by (simp add: fresh_def live_def erring_def c2_def)
      with True body runsD [OF open_error_runs [OF chk], of c2 s4] st st2 show ?thesis by (simp, meson conn_step_trans)
    next
      case False
      let ?c3 = "c2\<lparr>rfilesize := st_size stp, rfilesent := 0, ResponseBackend := True\<rparr>"
      have "live ?c3" using f1 False by (auto simp: fresh_def live_def c2_def)
      moreover have "conn_step (c2, s4) (?c3, s4)" by (rule conn_step_local) auto
      ultimately show ?thesis using False body runsD [OF SendHeaders_runs [OF chk], of ?c3] st st2 
        by (simp, meson conn_step_trans)
    qed
  qed
qed

section \<open>Modules\<close>

text \<open>What a module may do before a request is served: if it does not take the request the
  connection is as it was.\<close>

definition hook_ok :: "(cstate \<Rightarrow> (int \<times> cstate) option) \<Rightarrow> bool" where
  "hook_ok f \<longleftrightarrow> (\<forall>c s res st'. waiting c \<longrightarrow> f (c, s) = Some (res, st') \<longrightarrow>
     conn_inv (fst st') \<and> conn_step (c, s) st' \<and> (res = 0 \<longrightarrow> st' = (c, s)) \<and> (res = 0 \<or> res = 1))"

lemma Test_OnPreRequest_ok:
  assumes chk: "runs waiting chk"
  shows "hook_ok (Test_OnPreRequest chk)"
  unfolding hook_ok_def
proof (intro allI impI)
  fix c s res st' assume w: "waiting c" and e: "Test_OnPreRequest chk (c, s) = Some (res, st')"
  then obtain c1 s1 c2 s2 where h: "SendHeaders chk 4 200 ''OK'' [] (c, s) = Some (c1, s1)"
    and wr: "Write ''lawl'' (c1\<lparr>State := HTTP_SEND_DATA\<rparr>, s1) = Some (c2, s2)"
    and st': "res = 1" "st' = (c2\<lparr>ResponseBufferDone := True\<rparr>, s2)"
    by (auto simp: Test_OnPreRequest_def split: bind_splits)
  from SendHeaders_split [OF h] have ho: "headers_out (c, s) (c1, s1)" by simp
  have "conn_step (c1, s1) (c1\<lparr>State := HTTP_SEND_DATA\<rparr>, s1)" "conn_step (c2, s2) (c2\<lparr>ResponseBufferDone := True\<rparr>, s2)"
    by (rule conn_step_local; auto)+
  with ho Write_step [OF wr] have "conn_step (c, s) st'"
    unfolding st' headers_out_def by (meson conn_step_trans)
  moreover have "conn_inv (fst st')"
    using ho Write_step [OF wr] w waiting_live [OF w] same_but_queue_fields [of c c1]
    by (auto simp: st' headers_out_def conn_inv_def live_def)
  ultimately show "conn_inv (fst st') \<and> conn_step (c, s) st' \<and> (res = 0 \<longrightarrow> st' = (c, s)) \<and> (res = 0 \<or> res = 1)"
    using st' by simp
qed

lemma CGI_adopt_step:
  assumes "CGI_adopt n rfd (c, s) = Some (res, st')"
  shows "res = 1 \<and> fst st' = c \<and> srv_step s (snd st')"
proof (cases "AddFd (H_Cgi n) rfd s")
  case (Some p)
  obtain ok s1 where p: "p = (ok, s1)" by (cases p)
  note 1 = AddFd_srv_step [OF Some [unfolded p]]
  show ?thesis
  proof (cases ok)
    case True
    with assms Some p have "res = 1" "st' = (c, s1\<lparr>CGIRequests := om_insert nat_less (this_ptr c) n (CGIRequests s1)\<rparr>)"
      by (simp_all add: CGI_adopt_def)
    then show ?thesis using srv_step_trans [OF 1 srv_step_update(4)] by simp
  next
    case False
    with assms Some p obtain s2 where "CGI_destroy n s1 = Some s2" "res = 1" "st' = (c, s2)"
      by (cases "CGI_destroy n s1") (simp_all add: CGI_adopt_def)
    with srv_step_trans [OF 1 CGI_destroy_step] show ?thesis by auto
  qed
qed (use assms in \<open>simp add: CGI_adopt_def\<close>)

lemma CGI_parent_step:
  assumes "CGI_parent tc fc (c, s) = Some (res, st')"
  shows "res = 1 \<and> fst st' = c \<and> srv_step s (snd st')"
proof -
  define s3 where "s3 = snd (SE_Close (snd tc) (snd (SE_Close (fst tc) (snd (SE_Close (snd fc) s)))))"
  define s4 where "s4 = s3\<lparr>next_addr := next_addr s3 + 1, total_cgi_processes := total_cgi_processes s3 + 1,
    cgis := (cgis s3)(next_addr s3 \<mapsto> \<lparr>cgi_fd = fst fc, cgi_conn = this_ptr c, cgi_rbuf = [], cgi_done = False\<rparr>)\<rparr>"
  from assms have adopt: "CGI_adopt (next_addr s3) (fst fc) (c, s4) = Some (res, st')"
    by (simp add: CGI_parent_def s3_def s4_def Let_def)
  have "srv_step s s3" unfolding s3_def by (meson SE_Close_step srv_step_trans)
  moreover have "srv_step s3 s4" by (simp add: s4_def srv_step_def srv_same_def quiet_def cache_ok_def stat_cache_def)
  ultimately show ?thesis using CGI_adopt_step [OF adopt] by (meson srv_step_trans)
qed

lemma CGI_spawn_ok:
  assumes chk: "runs waiting chk" and w: "waiting c" and e: "CGI_spawn chk (c, s) = Some (res, st')"
  shows "res = 1 \<and> conn_inv (fst st') \<and> conn_step (c, s) st'"
proof -
  obtain p1 s1 p2 s2 f s3 where calls: "syscall Sys_pipe s = (p1, s1)" "syscall Sys_pipe s1 = (p2, s2)" "syscall Sys_fork s2 = (f, s3)"
    by (metis surj_pair)
  have "srv_step s s1" "srv_step s1 s2" "srv_step s2 s3"
    using calls by (simp_all add: syscall_srv_step [OF calls(1)] syscall_srv_step [OF calls(2)] syscall_srv_step [OF calls(3)])
  then have ss: "conn_step (c, s) (c, s1)" "conn_step (c, s) (c, s2)" "conn_step (c, s) (c, s3)"
    by (meson conn_step_srv srv_step_trans)+
  have err: "erring c" using waiting_live [OF w] by (simp add: live_def erring_def)
  have fail: "res = 1 \<and> conn_inv (fst st') \<and> conn_step (c, s) st'"
    if "returning (SendError chk 500 ''Internal error'' True (c, sx)) = Some (res, st')" "conn_step (c, s) (c, sx)" for sx
    using that runsD [OF SendError_runs [OF chk] err] by (auto simp: returning_def intro: conn_step_trans)
  have "CGI_parent (r_pair p1) (r_pair p2) (c, s3) = Some (res, st')"
    if "r_ret p1 \<noteq> - 1" "r_ret p2 \<noteq> - 1" "r_ret f \<noteq> - 1"
    using that e calls by (auto simp: CGI_spawn_def split: if_splits)
  moreover have "conn_inv c" using w by (simp add: waiting_def)
  ultimately show ?thesis
    using e calls fail [OF _ ss(1)] fail [OF _ ss(2)] fail [OF _ ss(3)]
      CGI_parent_step [of "r_pair p1" "r_pair p2" c s3 res st'] conn_step_srv [of s3 "snd st'" c] ss(3)
    by (cases st'; cases "r_ret p1 = - 1"; cases "r_ret p2 = - 1"; cases "r_ret f = - 1")
       (auto simp: CGI_spawn_def intro: conn_step_trans)
qed

lemma CGI_OnPreRequest_ok:
  assumes chk: "runs waiting chk"
  shows "hook_ok (CGI_OnPreRequest chk file)"
  unfolding hook_ok_def
proof (intro allI impI)
  fix c s res st' assume w: "waiting c" and e: "CGI_OnPreRequest chk file (c, s) = Some (res, st')"
  have err: "erring c" and inv: "conn_inv c" using waiting_live [OF w] w by (simp_all add: live_def erring_def waiting_def)
  consider (pass) "res = 0" "st' = (c, s)"
    | (busy) "returning (SendError chk 500 ''Internal error'' True (c, s)) = Some (res, st')"
    | (path) p st s1 where "CheckFilePath (DocRoot (Config s)) (uri c) s = Some (p, st, s1)"
        "(if p = [] then returning (path_error chk True (c, s1)) else CGI_spawn chk (c, s1)) = Some (res, st')"
  proof -
    have "(res = 0 \<and> st' = (c, s)) \<or> returning (SendError chk 500 ''Internal error'' True (c, s)) = Some (res, st') \<or>
      (\<exists>p st s1. CheckFilePath (DocRoot (Config s)) (uri c) s = Some (p, st, s1) \<and>
        (if p = [] then returning (path_error chk True (c, s1)) else CGI_spawn chk (c, s1)) = Some (res, st'))"
    proof (cases "CheckFilePath (DocRoot (Config s)) (uri c) s")
      case None
      with e show ?thesis unfolding CGI_OnPreRequest_def by (auto simp: Let_def split: if_splits option.splits)
    next
      case (Some t)
      obtain p st s1 where t: "t = (p, st, s1)" by (cases t)
      have "(res = 0 \<and> st' = (c, s)) \<or> returning (SendError chk 500 ''Internal error'' True (c, s)) = Some (res, st') \<or>
        (if p = [] then returning (path_error chk True (c, s1)) else CGI_spawn chk (c, s1)) = Some (res, st')"
        using e Some t unfolding CGI_OnPreRequest_def by (simp add: Let_def split: if_splits option.splits)
      with Some t show ?thesis by blast
    qed
    then show thesis using that by blast
  qed
  then have "(res = 0 \<and> st' = (c, s)) \<or> (res = 1 \<and> conn_inv (fst st') \<and> conn_step (c, s) st')"
  proof cases
    case busy
    then show ?thesis using runsD [OF SendError_runs [OF chk] err] by (auto simp: returning_def)
  next
    case (path p st s1)
    have "conn_step (c, s) (c, s1)" by (rule conn_step_srv [OF CheckFilePath_srv_step [OF path(1)]])
    moreover have "res = 1 \<and> conn_inv (fst st') \<and> conn_step (c, s1) st'"
    proof (cases "p = []")
      case True
      with path(2) show ?thesis using runsD [OF path_error_runs [OF chk] err] by (auto simp: returning_def)
    next
      case False
      with path(2) show ?thesis using CGI_spawn_ok [OF chk w] by simp
    qed
    ultimately show ?thesis by (meson conn_step_trans)
  qed simp
  then show "conn_inv (fst st') \<and> conn_step (c, s) st' \<and> (res = 0 \<longrightarrow> st' = (c, s)) \<and> (res = 0 \<or> res = 1)"
    using inv by auto
qed

lemma OnPreRequest_ok:
  assumes chk: "runs waiting chk"
  shows "hook_ok (OnPreRequest chk fname m)"
proof (cases m)
  case M_CGI
  then have "OnPreRequest chk fname m = CGI_OnPreRequest chk fname" by (simp add: OnPreRequest_def fun_eq_iff)
  with CGI_OnPreRequest_ok [OF chk] show ?thesis by simp
next
  case M_Test
  then have "OnPreRequest chk fname m = Test_OnPreRequest chk" by (simp add: OnPreRequest_def fun_eq_iff)
  with Test_OnPreRequest_ok [OF chk] show ?thesis by simp
next
  case (M_Base n)
  then show ?thesis by (simp add: hook_ok_def OnPreRequest_def waiting_def)
qed

lemma foreach_result_ok:
  "(\<And>m. hook_ok (f m)) \<Longrightarrow> waiting c \<Longrightarrow> foreach_result f ms (c, s) = Some (res, st') \<Longrightarrow>
     conn_inv (fst st') \<and> conn_step (c, s) st' \<and> (res = 0 \<longrightarrow> st' = (c, s)) \<and> (res = 0 \<or> res = 1)"
proof (induction ms)
  case (Cons m ms)
  from Cons.prems(3) obtain r st1 where f: "f m (c, s) = Some (r, st1)"
    and body: "(if r \<noteq> 0 then Some (r, st1) else foreach_result f ms st1) = Some (res, st')"
    by (cases "f m (c, s)") auto
  have "conn_inv (fst st1) \<and> conn_step (c, s) st1 \<and> (r = 0 \<longrightarrow> st1 = (c, s)) \<and> (r = 0 \<or> r = 1)"
    using Cons.prems(1,2) f unfolding hook_ok_def by blast
  with Cons.IH [OF Cons.prems(1,2)] body show ?case by (auto split: if_splits)
qed (auto simp: waiting_def)

section \<open>Reading a request\<close>

lemma answer_request_runs:
  assumes chk: "runs waiting chk"
  shows "runs waiting (answer_request chk)"
  unfolding runs_def
proof (intro allI impI)
  fix c0 s st' assume w0: "waiting c0" and e: "answer_request chk (c0, s) = Some st'"
  define c where "c = c0\<lparr>uri := fst (HandleURI (uri c0) (uriquery c0)), uriquery := snd (HandleURI (uri c0) (uriquery c0))\<rparr>"
  have w: "waiting c" using w0 by (simp add: waiting_def conn_inv_def c_def)
  have st0: "conn_step (c0, s) (c, s)" by (rule conn_step_local) (auto simp: c_def)
  define fname where "fname = (case rfind_char (CHR ''/'') (uri c) of Some pos \<Rightarrow> drop (pos + 1) (uri c) | None \<Rightarrow> uri c)"
  have e': "answer_request chk (c0, s) =
    do { (res, (c1, s1)) \<leftarrow> foreach_result (OnPreRequest chk fname) (event_handlers s I_OnPreRequest) (c, s);
         if res = 1 then Some (c1, s1)
         else if http_method c1 \<noteq> ''GET'' \<and> http_method c1 \<noteq> ''POST'' then SendError chk 501 ''Not Implemented'' True (c1, s1)
         else ServeData chk (c1, s1) }"
    by (simp add: answer_request_def c_def fname_def Let_def case_prod_beta cong: option.case_cong)
  obtain res c1 s1 where h: "foreach_result (OnPreRequest chk fname) (event_handlers s I_OnPreRequest) (c, s) = Some (res, c1, s1)"
    and body: "(if res = 1 then Some (c1, s1)
     else if http_method c1 \<noteq> ''GET'' \<and> http_method c1 \<noteq> ''POST'' then SendError chk 501 ''Not Implemented'' True (c1, s1)
     else ServeData chk (c1, s1)) = Some st'"
    using e unfolding e'
    by (cases "foreach_result (OnPreRequest chk fname) (event_handlers s I_OnPreRequest) (c, s)") auto
  from foreach_result_ok [OF OnPreRequest_ok [OF chk] w h] have r: "conn_inv c1" "conn_step (c, s) (c1, s1)"
    "res = 0 \<longrightarrow> c1 = c \<and> s1 = s" "res = 0 \<or> res = 1" by auto
  have f: "fresh c" "erring c" using waiting_live [OF w] by (auto simp: fresh_def live_def erring_def)
  show "conn_inv (fst st') \<and> conn_step (c0, s) st'"
  proof (cases "res = 1")
    case True
    with body r st0 show ?thesis by (auto intro: conn_step_trans)
  next
    case False
    with r have "c1 = c" "s1 = s" by auto
    with body False f runsD [OF SendError_runs [OF chk] f(2), of 501 "''Not Implemented''" True s]
      runsD [OF ServeData_runs [OF chk] f(1), of s] st0
    show ?thesis by (auto split: if_splits intro: conn_step_trans)
  qed
qed

text \<open>What parsing leaves alone.\<close>

definition same_but_request :: "conn \<Rightarrow> conn \<Rightarrow> bool" where
  "same_but_request c c' \<longleftrightarrow> this_ptr c' = this_ptr c \<and> fd c' = fd c \<and> age c' = age c \<and> sendq c' = sendq c \<and>
     quitting c' = quitting c \<and> State c' = State c \<and> ResponseBackend c' = ResponseBackend c \<and> filefd c' = filefd c \<and>
     requestbuf c' = requestbuf c \<and> RequestsCompleted c' = RequestsCompleted c \<and>
     (headers_ok (conn_headers c) \<longrightarrow> headers_ok (conn_headers c'))"

lemma request_line_same:
  "request_line line c = P_Done c1 \<Longrightarrow> same_but_request c c1"
  "request_line line c = P_Error code txt c1 \<Longrightarrow> same_but_request c c1"
  by (auto simp: request_line_def same_but_request_def Let_def split: prod.splits if_splits)

lemma parse_block_same:
  "(case parse_block buf c of P_Done c1 \<Rightarrow> same_but_request c c1 | P_Error code txt c1 \<Rightarrow> same_but_request c c1)"
proof (induction buf c rule: parse_block.induct)
  case (1 buf c)
  have refl: "same_but_request c c" by (simp add: same_but_request_def)
  show ?case
  proof (cases "find_sub CRLF buf")
    case None
    with refl show ?thesis by (subst parse_block.simps) simp
  next
    case (Some k)
    show ?thesis
    proof (cases "k = 0")
      case True
      with Some refl show ?thesis by (subst parse_block.simps) simp
    next
      case False
      show ?thesis
      proof (cases "http_method c = []")
        case True
        show ?thesis
        proof (cases "request_line (take k buf) c")
          case (P_Done c1)
          with "1.IH"(1) [OF Some False True P_Done] request_line_same(1) [OF P_Done] Some False True
          show ?thesis by (subst parse_block.simps) (auto simp: same_but_request_def split: parse_result.splits)
        next
          case (P_Error code t c1)
          with request_line_same(2) [OF P_Error] Some False True show ?thesis by (subst parse_block.simps) simp
        qed
      next
        case m: False
        show ?thesis
        proof (cases "header_line (take k buf) (conn_headers c)")
          case None
          with Some False m refl show ?thesis by (subst parse_block.simps) simp
        next
          case h: (Some hs)
          with "1.IH"(2) [OF Some False m h] Some False m
          show ?thesis by (subst parse_block.simps) (auto simp: same_but_request_def split: parse_result.splits)
        qed
      qed
    qed
  qed
qed

lemma check_parsed_runs:
  assumes chk: "runs waiting chk"
  shows "runs waiting (check_parsed chk)"
  unfolding runs_def
proof (intro allI impI)
  fix c s st' assume w: "waiting c" and e: "check_parsed chk (c, s) = Some st'"
  have err: "erring c" using waiting_live [OF w] by (simp add: live_def erring_def)
  show "conn_inv (fst st') \<and> conn_step (c, s) st'"
  proof (cases "http_method c = [] \<or> uri c = [] \<or> http_version c = HTTP_UNSPECIFIED")
    case True
    with e runsD [OF SendError_runs [OF chk] err, of 400 "''Bad Request''" False s] show ?thesis
      by (simp add: check_parsed_def)
  next
    case False
    define c1 where "c1 = connection_header (c\<lparr>http_method := map toupper_c (http_method c)\<rparr>) s"
    define c2 where "c2 = (if IsSet ''Content-Length'' (conn_headers c1)
                 then c1\<lparr>RequestBodyLength := to_uint32 (atoi (c_str (GetHeader ''Content-Length'' (conn_headers c1))))\<rparr>
                 else c1)"
    have same: "this_ptr c2 = this_ptr c" "fd c2 = fd c" "age c2 = age c" "quitting c2 = quitting c" "sendq c2 = sendq c"
      "State c2 = State c" "ResponseBackend c2 = ResponseBackend c" "filefd c2 = filefd c" "conn_headers c2 = conn_headers c"
      by (simp_all add: c2_def c1_def connection_header_def Let_def)
    have st: "conn_step (c, s) (c2, s)" by (rule conn_step_local) (auto simp: same)
    have w2: "waiting c2" using w by (simp add: waiting_def conn_inv_def same)
    have err2: "erring c2" using err by (simp add: erring_def same)
    have body: "(if IsSet ''Content-Length'' (conn_headers c2) \<and> RequestBodyLength c2 > to_uint32 (MaxPostBody (Config s)) then
            SendError chk 413 ''Request Entity Too Large'' True (c2, s)
          else if IsSet ''Transfer-Encoding'' (conn_headers c2) then
            SendError chk 500 ''Internal Server Error'' True (c2, s)
          else if RequestBodyLength c2 > 0 then
            if http_method c2 \<noteq> ''POST'' then SendError chk 500 ''Internal Server Error'' True (c2, s)
            else Some (c2\<lparr>State := HTTP_RECV_REQBODY\<rparr>, s)
          else answer_request chk (c2, s)) = Some st'"
      using e False unfolding check_parsed_def c2_def c1_def by (simp only: prod.case Let_def if_False)
    have recv: "conn_inv (c2\<lparr>State := HTTP_RECV_REQBODY\<rparr>) \<and> conn_step (c2, s) (c2\<lparr>State := HTTP_RECV_REQBODY\<rparr>, s)"
      using w2 by (auto simp: waiting_def conn_inv_def intro!: conn_step_local)
    have "conn_inv (fst st') \<and> conn_step (c2, s) st'"
      using body runsD [OF SendError_runs [OF chk] err2] runsD [OF answer_request_runs [OF chk] w2, of s] recv
      by (auto split: if_splits)
    with st show ?thesis by (meson conn_step_trans)
  qed
qed

lemma CheckRequest_body_runs:
  assumes chk: "runs waiting chk"
  shows "runs waiting (CheckRequest_body chk newpos)"
  unfolding runs_def
proof (intro allI impI)
  fix c s st' assume w: "waiting c" and e: "CheckRequest_body chk newpos (c, s) = Some st'"
  show "conn_inv (fst st') \<and> conn_step (c, s) st'"
  proof (cases "str_find (requestbuf c) (CRLF @ CRLF) (if newpos \<ge> 3 then newpos - 3 else 0)")
    case None
    with e w show ?thesis by (auto simp: CheckRequest_body_def waiting_def)
  next
    case (Some reqend)
    have same: "same_but_request c c1 \<Longrightarrow> waiting (c1\<lparr>requestbuf := b\<rparr>) \<and> erring (c1\<lparr>requestbuf := b\<rparr>) \<and>
        conn_step (c, s) (c1\<lparr>requestbuf := b\<rparr>, s)" for c1 b
      using w by (auto simp: same_but_request_def waiting_def conn_inv_def erring_def intro!: conn_step_local)
    show ?thesis
    proof (cases "parse_block (requestbuf c) c")
      case (P_Done c1)
      let ?c = "c1\<lparr>requestbuf := drop (reqend + 4) (requestbuf c1)\<rparr>"
      from e Some P_Done have "check_parsed chk (?c, s) = Some st'" by (simp add: CheckRequest_body_def)
      moreover have "same_but_request c c1" using parse_block_same [of c "requestbuf c"] P_Done by simp
      ultimately show ?thesis using same [of c1] runsD [OF check_parsed_runs [OF chk], of ?c s] by (meson conn_step_trans)
    next
      case (P_Error code t c1)
      let ?c = "c1\<lparr>requestbuf := drop (reqend + 4) (requestbuf c1)\<rparr>"
      from e Some P_Error have "SendError chk code t False (?c, s) = Some st'" by (simp add: CheckRequest_body_def)
      moreover have "same_but_request c c1" using parse_block_same [of c "requestbuf c"] P_Error by simp
      ultimately show ?thesis using same [of c1] runsD [OF SendError_runs [OF chk], of ?c] by (meson conn_step_trans)
    qed
  qed
qed

lemma CheckRequest_runs: "runs waiting (CheckRequest fuel newpos)"
proof (induction fuel arbitrary: newpos)
  case (Suc fuel)
  from CheckRequest_body_runs [OF Suc] show ?case by (simp add: runs_def)
qed (simp add: runs_def)

lemma check0_runs: "runs waiting check0"
proof -
  have "conn_inv (fst st') \<and> conn_step (c, s) st'" if "waiting c" "check0 (c, s) = Some st'" for c s st'
    using runsD [OF CheckRequest_runs that(1)] that(2) unfolding check0_def fst_conv by blast
  then show ?thesis by (simp add: runs_def)
qed

end
