(* ===== verification/ConnEvents.thy ===== *)
theory ConnEvents
  imports ConnProps
begin

text \<open>
  The properties of a connection over whole events (\<open>Connection::HandleEvent\<close>), the bytes of a
  response, and the fuel of \<open>CheckRequest\<close>.
\<close>

lemma conn_step_input:
  "conn_step (c, s) (c\<lparr>requestbuf := b\<rparr>, s)" "conn_step (c, s) (c\<lparr>RequestBody := rb\<rparr>, s)"
  "conn_step (c, s) (c\<lparr>RequestBody := rb, requestbuf := b\<rparr>, s)" "conn_step (c, s) (c\<lparr>LastSocketEvent := t\<rparr>, s)"
  by (rule conn_step_local; auto)+

lemma conn_inv_input [simp]:
  "conn_inv (c\<lparr>requestbuf := b\<rparr>) = conn_inv c" "conn_inv (c\<lparr>RequestBody := rb\<rparr>) = conn_inv c"
  "conn_inv (c\<lparr>RequestBody := rb, requestbuf := b\<rparr>) = conn_inv c" "conn_inv (c\<lparr>LastSocketEvent := t\<rparr>) = conn_inv c"
  by (simp_all add: conn_inv_def)

lemma conn_inv_fresh: "conn_inv c \<Longrightarrow> State c \<in> {HTTP_WAIT_REQUEST, HTTP_RECV_REQBODY} \<Longrightarrow> fresh c"
  by (auto simp: conn_inv_def fresh_def live_def)

lemma AddBuffer_ok:
  assumes inv: "conn_inv c" and e: "AddBuffer a (c, s) = Some (ok, st')"
  shows "conn_inv (fst st') \<and> conn_step (c, s) st'"
proof -
  consider (empty) "a = []" | (body) "a \<noteq> []" "State c = HTTP_RECV_REQBODY"
    | (wait) "a \<noteq> []" "State c = HTTP_WAIT_REQUEST"
    | (other) "a \<noteq> []" "State c \<noteq> HTTP_RECV_REQBODY" "State c \<noteq> HTTP_WAIT_REQUEST" by blast
  then show ?thesis
  proof cases
    case empty
    with e inv show ?thesis by (auto simp: AddBuffer_def)
  next
    case body
    define remains where "remains = to_uint32 (int (RequestBodyLength c) - int (length (RequestBody c)))"
    define c1 where "c1 = (if remains < length a
      then c\<lparr>RequestBody := RequestBody c @ take remains a, requestbuf := requestbuf c @ a\<rparr>
      else c\<lparr>RequestBody := RequestBody c @ a\<rparr>)"
    have c1: "conn_inv c1" "conn_step (c, s) (c1, s)" "State c1 = HTTP_RECV_REQBODY"
      using inv body conn_step_input by (simp_all add: c1_def)
    have e1: "(if length (RequestBody c1) = RequestBodyLength c1
        then do { st' \<leftarrow> ServeData check0 (c1, s); Some (True, st') }
        else Some (\<not> length (requestbuf c1) > 5120, (c1, s))) = Some (ok, st')"
      using e body unfolding AddBuffer_def c1_def remains_def by (auto simp: Let_def split: if_splits)
    show ?thesis
    proof (cases "length (RequestBody c1) = RequestBodyLength c1")
      case True
      with e1 have "ServeData check0 (c1, s) = Some st'" by (cases "ServeData check0 (c1, s)") auto
      moreover have "fresh c1" using conn_inv_fresh [OF c1(1)] c1(3) by simp
      ultimately show ?thesis using runsD [OF ServeData_runs [OF check0_runs]] c1(2) by (meson conn_step_trans)
    next
      case False
      with e1 c1 show ?thesis by auto
    qed
  next
    case wait
    let ?c = "c\<lparr>requestbuf := requestbuf c @ a\<rparr>"
    have w: "waiting ?c" using inv wait by (simp add: waiting_def)
    from e wait have "CheckRequest (Suc (length (requestbuf ?c))) (length (requestbuf c)) (?c, s) = Some st'"
      by (cases "CheckRequest (Suc (length (requestbuf ?c))) (length (requestbuf c)) (?c, s)") (auto simp: AddBuffer_def Let_def)
    from runsD [OF CheckRequest_runs w this] conn_step_input(1) show ?thesis by (meson conn_step_trans)
  next
    case other
    with e inv conn_step_input(1) show ?thesis by (auto simp: AddBuffer_def Let_def)
  qed
qed

lemma inv_Delete: "conn_inv (fst st) \<Longrightarrow> conn_inv (fst (Delete st))"
  by (rule Delete_inv) (simp add: conn_inv_def)

lemma ReadData_ok:
  assumes inv: "conn_inv c" and e: "ReadData (c, s) = Some st'"
  shows "conn_inv (fst st') \<and> conn_step (c, s) st'"
proof (cases "fd c = FD_MAGIC_NUMBER")
  case True
  with e inv show ?thesis by (auto simp: ReadData_def)
next
  case False
  obtain r s1 where call: "syscall (Sys_read (fd c) 65535) s = (r, s1)" by fastforce
  have 1: "conn_step (c, s) (c, s1)" by (rule conn_step_srv [OF syscall_srv_step [OF call]]) simp
  have del: "conn_inv (fst (Delete (c, s1))) \<and> conn_step (c, s) (Delete (c, s1))"
    using inv 1 Delete_step by (auto intro: conn_step_trans inv_Delete)
  show ?thesis
  proof (cases "r_ret r > 0")
    case True
    with e False call obtain ok st1 where a: "AddBuffer (c_str (r_data r)) (c, s1) = Some (ok, st1)"
      and st': "st' = (if \<not> ok then Delete st1 else st1)"
      by (cases "AddBuffer (c_str (r_data r)) (c, s1)") (auto simp: ReadData_def EAGAIN_number_def Let_def split: if_splits)
    from AddBuffer_ok [OF inv a] 1 Delete_step [of st1] show ?thesis
      unfolding st' by (auto intro: conn_step_trans inv_Delete)
  next
    case False
    with e call \<open>fd c \<noteq> FD_MAGIC_NUMBER\<close> have "st' = Delete (c, s1) \<or> st' = (c, s1)"
      by (auto simp: ReadData_def EAGAIN_number_def Let_def split: if_splits)
    with del inv 1 show ?thesis by auto
  qed
qed

lemma HandleEvent_ok:
  assumes inv: "conn_inv c" and e: "Connection_HandleEvent et (c, s) = Some st'"
  shows "conn_inv (fst st') \<and> conn_step (c, s) st'"
proof -
  let ?c = "c\<lparr>LastSocketEvent := TIME s\<rparr>"
  have 0: "conn_inv ?c" "conn_step (c, s) (?c, s)" using inv conn_step_input(4) by simp_all
  have "conn_inv (fst st') \<and> conn_step (?c, s) st'"
  proof (cases et)
    case EVENT_READ
    with e 0 ReadData_ok [OF 0(1), of s st'] show ?thesis by (auto simp: Connection_HandleEvent_def Let_def split: if_splits)
  next
    case EVENT_WRITE
    show ?thesis
    proof (cases "State c = HTTP_SEND_DATA \<and> ResponseBackend c")
      case True
      with e EVENT_WRITE have "SendStaticData check0 (?c, s) = Some st'" by (simp add: Connection_HandleEvent_def Let_def)
      moreover have "sending_file ?c" using inv True by (auto simp: sending_file_def live_def conn_inv_def)
      ultimately show ?thesis using runsD [OF SendStaticData_runs [OF check0_runs]] by blast
    next
      case False
      with e EVENT_WRITE have "FlushWriteBuf check0 (?c, s) = Some st'" by (auto simp: Connection_HandleEvent_def Let_def)
      with runsD [OF FlushWriteBuf_runs [OF check0_runs] 0(1)] show ?thesis by blast
    qed
  next
    case EVENT_ERROR
    with e have "st' = Delete (?c, s)" by (simp add: Connection_HandleEvent_def Let_def)
    with 0 Delete_step show ?thesis by (auto intro: inv_Delete)
  qed
  with 0 show ?thesis by (meson conn_step_trans)
qed

text \<open>Any sequence of events on one connection.\<close>

fun handle_events :: "event_type list \<Rightarrow> cstate \<Rightarrow> cstate option" where
  "handle_events [] st = Some st"
| "handle_events (et # ets) st = do { st' \<leftarrow> Connection_HandleEvent et st; handle_events ets st' }"

lemma handle_events_ok:
  "conn_inv (fst st) \<Longrightarrow> handle_events ets st = Some st' \<Longrightarrow> conn_inv (fst st') \<and> conn_step st st'"
proof (induction ets arbitrary: st)
  case (Cons et ets)
  obtain c s where st: "st = (c, s)" by (cases st)
  from Cons.prems(2) obtain st1 where e: "Connection_HandleEvent et st = Some st1" and es: "handle_events ets st1 = Some st'"
    by (cases "Connection_HandleEvent et st") auto
  from HandleEvent_ok [of c et s st1] Cons.prems(1) e st have 1: "conn_inv (fst st1)" "conn_step st st1" by auto
  from Cons.IH [OF 1(1) es] 1(2) show ?case by (auto intro: conn_step_trans)
qed auto

text \<open>A connection as \<open>ConnectionManager::Add\<close> makes it, in a server with the test module's hooks off.\<close>

definition demo_conn :: conn where
  "demo_conn = (Connection_new 1 1000 fs_demo)\<lparr>fd := 5\<rparr>"

lemma demo_conn_inv [simp]: "conn_inv demo_conn"
  by (simp add: demo_conn_def Connection_new_def conn_inv_def)

lemma demo_error_run: "handle_events [EVENT_WRITE, EVENT_ERROR] (demo_conn, fs_demo) \<noteq> None"
  by (simp add: Connection_HandleEvent_def demo_conn_def Connection_new_def FlushWriteBuf_def flush_send_def
      flush_done_def fs_demo_def Let_def)

text \<open>Claim C1: whatever the kernel answers and in whatever order events arrive, the bytes a
  connection puts on its socket together with those it still holds only ever grow at the end: no
  byte that was queued is lost, sent twice, reordered or overtaken by the contents of a file.\<close>

theorem stream_append_only:
  assumes "conn_inv c" and "handle_events ets (c, s) = Some st'"
  shows "\<exists>out. stream st' = stream (c, s) @ out"
  using handle_events_ok [of "(c, s)" ets st'] assms by (cases st') (auto simp: conn_step_def)

theorem stream_append_only_witness:
  "\<exists>st' out. handle_events [EVENT_WRITE, EVENT_ERROR] (demo_conn, fs_demo) = Some st' \<and>
     stream st' = stream (demo_conn, fs_demo) @ out"
  using demo_error_run stream_append_only [OF demo_conn_inv, of "[EVENT_WRITE, EVENT_ERROR]" fs_demo] by blast

text \<open>Claim C6: a connection that is deleted goes on the cull list once and stays finished: over any
  events its address is appended exactly when it starts quitting, nothing else is appended, it
  never stops quitting, and it quits if and only if its state is \<open>HTTP_FINISHED\<close>.\<close>

theorem culled_once:
  assumes "conn_inv c" and "handle_events ets (c, s) = Some (c', s')"
  shows "culls s' = culls s @ (if quitting c' \<and> \<not> quitting c then [this_ptr c] else []) \<and>
    (quitting c \<longrightarrow> quitting c') \<and> (quitting c' \<longleftrightarrow> State c' = HTTP_FINISHED)"
  using handle_events_ok [of "(c, s)" ets "(c', s')"] assms by (auto simp: conn_step_def conn_inv_def)

theorem culled_once_witness:
  "\<exists>c' s'. handle_events [EVENT_WRITE, EVENT_ERROR] (demo_conn, fs_demo) = Some (c', s') \<and>
     culls s' = culls fs_demo @ (if quitting c' \<and> \<not> quitting demo_conn then [this_ptr demo_conn] else [])"
  using demo_error_run culled_once [OF demo_conn_inv, of "[EVENT_WRITE, EVENT_ERROR]" fs_demo] by auto

text \<open>Claim C5: a connection keeps its invariant through every event: no response backend while a
  request is awaited, an open file whenever there is one, file contents are sent only once the
  headers have left the queue, and the header map stays ordered.\<close>

theorem conn_inv_kept:
  assumes "conn_inv c" and "Connection_HandleEvent et (c, s) = Some (c', s')"
  shows "conn_inv c' \<and> this_ptr c' = this_ptr c \<and> fd c' = fd c"
  using HandleEvent_ok [OF assms] by (auto simp: conn_step_def)

theorem conn_inv_kept_witness:
  "\<exists>c' s'. Connection_HandleEvent EVENT_ERROR (demo_conn, fs_demo) = Some (c', s') \<and> conn_inv c'"
proof -
  have "\<exists>c' s'. Connection_HandleEvent EVENT_ERROR (demo_conn, fs_demo) = Some (c', s')"
    by (simp add: Connection_HandleEvent_def Let_def)
  with conn_inv_kept [OF demo_conn_inv] show ?thesis by blast
qed

end
