(* ===== verification/Fuel.thy ===== *)
theory Fuel
  imports ConnEvents
begin

text \<open>
  The recursion between \<open>CheckRequest\<close> and \<open>EndRequest\<close> ends: every nested call finds a shorter
  \<open>requestbuf\<close>, because the header block has been erased before anything is answered. So the
  fuel of the model stands for no bound in the code: any larger amount gives the same result.
\<close>

text \<open>Two continuations that agree on buffers of at most \<open>n\<close> bytes.\<close>

definition agree :: "nat \<Rightarrow> check \<Rightarrow> check \<Rightarrow> bool" where
  "agree n chk chk' \<longleftrightarrow> (\<forall>st. length (requestbuf (fst st)) \<le> n \<longrightarrow> chk st = chk' st)"

named_theorems agree_intros \<open>operations agree when their continuations do\<close>

lemma agreeD: "agree n chk chk' \<Longrightarrow> length (requestbuf c) \<le> n \<Longrightarrow> chk (c, s) = chk' (c, s)"
  by (simp add: agree_def)

lemma requestbuf_Write: "Write txt (c, s) = Some (c', s') \<Longrightarrow> requestbuf c' = requestbuf c"
  using Write_step by fastforce

lemma EndRequest_agree [agree_intros]:
  "agree n chk chk' \<Longrightarrow> length (requestbuf c) \<le> n \<Longrightarrow> EndRequest chk (c, s) = EndRequest chk' (c, s)"
  by (auto simp: EndRequest_def Let_def agree_def)

lemma SendStaticData_agree [agree_intros]:
  assumes "agree n chk chk'" and "length (requestbuf c) \<le> n"
  shows "SendStaticData chk (c, s) = SendStaticData chk' (c, s)"
proof -
  have "length (requestbuf (fst (Delete (c, s)))) \<le> n" using assms(2) by simp
  moreover have "SendStaticData chk (c, s) = SendStaticData chk' (c, s)"
    if b: "length (requestbuf c1) \<le> n" and e: "(if filefd c < 0 then Delete (c, s) else (c, s)) = (c1, s1)" for c1 s1
    using EndRequest_agree [OF assms(1)] b
    by (simp add: SendStaticData_def Let_def e split: prod.split)
  ultimately show ?thesis
    using assms(2) by (cases "filefd c < 0"; cases "Delete (c, s)") auto
qed

lemma flush_done_agree [agree_intros]:
  assumes "agree n chk chk'" and "length (requestbuf c) \<le> n"
  shows "flush_done chk (c, s) = flush_done chk' (c, s)"
  using EndRequest_agree [OF assms] SendStaticData_agree [OF assms(1), of "c\<lparr>State := HTTP_SEND_DATA\<rparr>"] assms(2)
  by (cases "foreach_mod (\<lambda>m. OnBufferFlushed m (this_ptr c)) (event_handlers s I_OnBufferFlushed) s")
     (auto simp: flush_done_def)

lemma FlushWriteBuf_agree [agree_intros]:
  assumes "agree n chk chk'" and "length (requestbuf c) \<le> n"
  shows "FlushWriteBuf chk (c, s) = FlushWriteBuf chk' (c, s)"
proof (cases "flush_send (c, s)")
  case (Some p)
  obtain go c1 s1 where p: "p = (go, c1, s1)" by (cases p)
  from flush_send_step [OF Some [unfolded p]] assms have "length (requestbuf c1) \<le> n" by simp
  from flush_done_agree [OF assms(1) this] Some p show ?thesis by (simp add: FlushWriteBuf_def)
qed (simp add: FlushWriteBuf_def)

lemma headers_out_buf: "headers_out (c, s) st1 \<Longrightarrow> requestbuf (fst st1) = requestbuf c"
  unfolding headers_out_def using same_but_queue_fields by fastforce

lemma SendHeaders_agree [agree_intros]:
  assumes "agree n chk chk'" and "length (requestbuf c) \<le> n"
  shows "SendHeaders chk sz resp txt rh (c, s) = SendHeaders chk' sz resp txt rh (c, s)"
proof (cases "write_headers sz resp txt rh (c, s)")
  case (Some st1)
  from headers_out_buf [OF write_headers_out [OF Some]] assms(2) EndRequest_agree [OF assms(1), of "fst st1" "snd st1"]
  have "EndRequest chk st1 = EndRequest chk' st1" by simp
  with Some show ?thesis by (simp add: SendHeaders_def)
qed (simp add: SendHeaders_def)

lemma SendHeaders_indep: "sz \<noteq> 0 \<Longrightarrow> SendHeaders chk sz resp txt rh st = SendHeaders chk' sz resp txt rh st"
  by (simp add: SendHeaders_def)

lemma SendError_agree [agree_intros]:
  assumes a: "agree n chk chk'" and n: "length (requestbuf c) \<le> n"
  shows "SendError chk code txt fatal (c, s) = SendError chk' code txt fatal (c, s)"
proof -
  let ?h = "\<lambda>k. SendHeaders k (length (error_page txt)) code txt (SetHeader ''Content-Type'' ''text/html'' [])
    (c\<lparr>ResponseBackend := False\<rparr>, s)"
  have h: "?h chk = ?h chk'" by (rule SendHeaders_indep) simp
  show ?thesis
  proof (cases "?h chk'")
    case None
    with h show ?thesis by (simp add: SendError_def Let_def)
  next
    case (Some st1)
    obtain c1 s1 where st1: "st1 = (c1, s1)" by (cases st1)
    from SendHeaders_split [OF Some] have b1: "requestbuf c1 = requestbuf c"
      using headers_out_buf [of "c\<lparr>ResponseBackend := False\<rparr>" s st1] st1 by simp
    show ?thesis
    proof (cases "Write (error_page txt) (c1\<lparr>State := HTTP_SEND_DATA\<rparr>, s1)")
      case None
      with h Some st1 show ?thesis by (simp add: SendError_def Let_def)
    next
      case w: (Some st2)
      obtain c2 s2 where st2: "st2 = (c2, s2)" by (cases st2)
      from requestbuf_Write [OF w [unfolded st2]] b1 n have "length (requestbuf (c2\<lparr>ResponseBufferDone := True\<rparr>)) \<le> n"
        by simp
      from FlushWriteBuf_agree [OF a this] h Some w st1 st2 show ?thesis by (simp add: SendError_def Let_def)
    qed
  qed
qed

lemma path_error_agree: "agree n chk chk' \<Longrightarrow> length (requestbuf c) \<le> n \<Longrightarrow> path_error chk fatal (c, s) = path_error chk' fatal (c, s)"
  using SendError_agree [of n chk chk' c] by (simp add: path_error_def split: errcode.split)

lemma open_error_agree: "agree n chk chk' \<Longrightarrow> length (requestbuf c) \<le> n \<Longrightarrow> open_error chk (c, s) = open_error chk' (c, s)"
  using SendError_agree [of n chk chk' c] by (simp add: open_error_def split: errcode.split)

lemma ServeData_agree:
  assumes "agree n chk chk'" and "length (requestbuf c) \<le> n"
  shows "ServeData chk (c, s) = ServeData chk' (c, s)"
proof (cases "CheckFilePath (DocRoot (Config s)) (uri c) s")
  case (Some t)
  obtain p ofst s1 where t: "t = (p, ofst, s1)" by (cases t)
  show ?thesis
    using Some t path_error_agree [OF assms(1), of "c\<lparr>upath := p\<rparr>" False s1] assms(2)
      open_error_agree [OF assms(1)] SendHeaders_agree [OF assms(1)]
    by (cases ofst) (auto simp: ServeData_def Let_def split: prod.splits)
qed (simp add: ServeData_def)

lemma Test_OnPreRequest_agree: "Test_OnPreRequest chk st = Test_OnPreRequest chk' st"
  by (simp add: Test_OnPreRequest_def SendHeaders_indep [of 4 chk _ _ _ _ chk'])

lemma CGI_spawn_agree:
  assumes "agree n chk chk'" and "length (requestbuf c) \<le> n"
  shows "CGI_spawn chk (c, s) = CGI_spawn chk' (c, s)"
  using SendError_agree [OF assms] by (auto simp: CGI_spawn_def split: prod.splits)

lemma OnPreRequest_agree:
  assumes "agree n chk chk'" and "length (requestbuf c) \<le> n"
  shows "OnPreRequest chk fname m (c, s) = OnPreRequest chk' fname m (c, s)"
proof (cases m)
  case M_CGI
  have cgi: "CGI_OnPreRequest chk fname (c, s) = CGI_OnPreRequest chk' fname (c, s)"
    using SendError_agree [OF assms] path_error_agree [OF assms] CGI_spawn_agree [OF assms]
    by (cases "CheckFilePath (DocRoot (Config s)) (uri c) s")
       (auto simp: CGI_OnPreRequest_def Let_def split: option.splits)
  with M_CGI show ?thesis by (simp add: OnPreRequest_def)
next
  case M_Test
  then show ?thesis by (simp add: OnPreRequest_def Test_OnPreRequest_agree [of chk _ chk'])
qed (simp add: OnPreRequest_def)

text \<open>A module that declines leaves the connection as it was.\<close>

lemma OnPreRequest_declines:
  assumes "OnPreRequest chk fname m st = Some (0, st')"
  shows "st' = st"
proof -
  have par: "CGI_parent a b st = Some (r, x) \<Longrightarrow> r = 1" for a b r x
    using CGI_parent_step by (metis surj_pair)
  have spawn: "CGI_spawn k st = Some (r, x) \<Longrightarrow> r = 1" for k r x and st :: cstate
    using CGI_parent_step
    by (auto simp: CGI_spawn_def returning_def split: prod.splits if_splits)
  show ?thesis
    using assms spawn
    by (cases m) (auto simp: OnPreRequest_def CGI_OnPreRequest_def Test_OnPreRequest_def returning_def Let_def
        split: bind_splits prod.splits if_splits option.splits dest: spawn)
qed

lemma OnPreRequest_run_agree:
  assumes "agree n chk chk'" and "length (requestbuf (fst st)) \<le> n"
  shows "foreach_result (OnPreRequest chk fname) ms st = foreach_result (OnPreRequest chk' fname) ms st"
  using assms(2)
proof (induction ms arbitrary: st)
  case (Cons m ms)
  obtain c s where st: "st = (c, s)" by (cases st)
  have one: "OnPreRequest chk fname m st = OnPreRequest chk' fname m st"
    using OnPreRequest_agree [OF assms(1), of c] Cons.prems st by simp
  show ?case
  proof (cases "OnPreRequest chk' fname m st")
    case None
    with one show ?thesis by simp
  next
    case (Some p)
    obtain r st' where p: "p = (r, st')" by (cases p)
    show ?thesis
    proof (cases "r = 0")
      case True
      with OnPreRequest_declines [of chk' fname m st] Some p have "st' = st" by simp
      with Cons.IH [of st] Cons.prems one Some p show ?thesis by simp
    qed (use one Some p in simp)
  qed
qed simp

text \<open>A module that answers, and so one of a sequence of them, has not lengthened the buffer.\<close>

lemma foreach_result_declines:
  assumes "foreach_result (OnPreRequest chk fname) ms st = Some (0, st')"
  shows "st' = st"
  using assms
proof (induction ms arbitrary: st)
  case (Cons m ms)
  then obtain r st1 where 1: "OnPreRequest chk fname m st = Some (r, st1)"
    and 2: "(if r \<noteq> 0 then Some (r, st1) else foreach_result (OnPreRequest chk fname) ms st1) = Some (0, st')"
    by (auto split: bind_splits)
  from 2 have "r = 0" by (auto split: if_splits)
  with 1 2 Cons.IH OnPreRequest_declines show ?case by metis
qed simp

lemma OnPreRequest_one_or_zero:
  assumes "OnPreRequest chk fname m st = Some (r, st')"
  shows "r = 0 \<or> r = 1"
  using assms
  by (cases m)
    (auto simp: OnPreRequest_def CGI_OnPreRequest_def Test_OnPreRequest_def CGI_spawn_def returning_def Let_def
      dest: CGI_parent_step split: bind_splits prod.splits if_splits option.splits)

lemma foreach_result_one_or_zero:
  "foreach_result (OnPreRequest chk fname) ms st = Some (r, st') \<Longrightarrow> r = 0 \<or> r = 1"
  by (induction ms arbitrary: st) (auto split: bind_splits if_splits dest: OnPreRequest_one_or_zero)

lemma answer_request_agree:
  assumes a: "agree n chk chk'" and n: "length (requestbuf c) \<le> n"
  shows "answer_request chk (c, s) = answer_request chk' (c, s)"
proof -
  obtain u q where uq: "HandleURI (uri c) (uriquery c) = (u, q)" by fastforce
  define c1 where "c1 = c\<lparr>uri := u, uriquery := q\<rparr>"
  define fname where "fname = (case rfind_char (CHR ''/'') u of Some pos \<Rightarrow> drop (pos + 1) u | None \<Rightarrow> u)"
  have n1: "length (requestbuf c1) \<le> n" using n by (simp add: c1_def)
  define go where "go = (\<lambda>k. foreach_result (OnPreRequest k fname) (event_handlers s I_OnPreRequest) (c1, s))"
  have e: "go chk = go chk'"
    unfolding go_def using OnPreRequest_run_agree [OF a, of "(c1, s)"] n1 by simp
  have u: "answer_request k (c, s) = do {
      (res, (c2, s2)) \<leftarrow> go k;
      if res = 1 then Some (c2, s2)
      else if http_method c2 \<noteq> ''GET'' \<and> http_method c2 \<noteq> ''POST'' then SendError k 501 ''Not Implemented'' True (c2, s2)
      else ServeData k (c2, s2) }" for k
    by (simp add: answer_request_def uq go_def c1_def fname_def)
  show ?thesis
  proof (cases "go chk'")
    case None
    with e show ?thesis by (simp add: u)
  next
    case (Some p)
    obtain r c2 s2 where p: "p = (r, c2, s2)" by (cases p)
    show ?thesis
    proof (cases "r = 1")
      case False
      with foreach_result_one_or_zero Some p have "r = 0" unfolding go_def by blast
      with foreach_result_declines Some p have "c2 = c1" unfolding go_def by blast
      with n1 SendError_agree [OF a, of c1] ServeData_agree [OF a, of c1] False e Some p show ?thesis
        by (simp add: u)
    qed (use e Some p in \<open>simp add: u\<close>)
  qed
qed

lemma requestbuf_connection_header [simp]: "requestbuf (connection_header c s) = requestbuf c"
  by (simp add: connection_header_def Let_def)

lemma check_parsed_agree:
  assumes a: "agree n chk chk'" and n: "length (requestbuf c) \<le> n"
  shows "check_parsed chk (c, s) = check_parsed chk' (c, s)"
  using SendError_agree [OF a] answer_request_agree [OF a] n
  by (simp add: check_parsed_def Let_def)

lemma requestbuf_request_line:
  "request_line line c = P_Done c1 \<Longrightarrow> requestbuf c1 = requestbuf c"
  "request_line line c = P_Error e msg c1 \<Longrightarrow> requestbuf c1 = requestbuf c"
  by (auto simp: request_line_def Let_def split: prod.splits if_splits)

lemma requestbuf_parse_block_case:
  "case parse_block buf c of P_Done c1 \<Rightarrow> requestbuf c1 = requestbuf c | P_Error e msg c1 \<Rightarrow> requestbuf c1 = requestbuf c"
proof (induction buf c rule: parse_block.induct)
  case (1 buf c)
  show ?case
  proof (cases "find_sub CRLF buf")
    case None
    then show ?thesis by (subst parse_block.simps) simp
  next
    case (Some k)
    show ?thesis
    proof (cases "k = 0")
      case k: False
      show ?thesis
      proof (cases "http_method c = []")
        case True
        then show ?thesis
        proof (cases "request_line (take k buf) c")
          case (P_Done c1)
          with requestbuf_request_line(1) "1.IH"(1) [OF Some k True P_Done] Some k True show ?thesis
            by (subst parse_block.simps) (auto split: parse_result.splits)
        next
          case (P_Error e msg c1)
          with requestbuf_request_line(2) [OF P_Error] Some k True show ?thesis
            by (subst parse_block.simps) simp
        qed
      next
        case False
        then show ?thesis
        proof (cases "header_line (take k buf) (conn_headers c)")
          case None
          with Some k False show ?thesis by (subst parse_block.simps) simp
        next
          case hs: (Some hs)
          with "1.IH"(2) [OF Some k False hs] Some k False show ?thesis
            by (subst parse_block.simps) (simp split: parse_result.splits)
        qed
      qed
    qed (use Some in \<open>subst parse_block.simps, simp\<close>)
  qed
qed

lemma requestbuf_parse_block:
  shows "parse_block buf c = P_Done c1 \<Longrightarrow> requestbuf c1 = requestbuf c"
    and "parse_block buf c = P_Error e msg c1 \<Longrightarrow> requestbuf c1 = requestbuf c"
  using requestbuf_parse_block_case [of c buf] by simp_all

lemma CheckRequest_body_agree:
  assumes a: "\<And>n. n + 4 \<le> length (requestbuf c) \<Longrightarrow> agree n chk chk'"
  shows "CheckRequest_body chk np (c, s) = CheckRequest_body chk' np (c, s)"
proof (cases "str_find (requestbuf c) (CRLF @ CRLF) (if np \<ge> 3 then np - 3 else 0)")
  case (Some k)
  from str_find_Some(3) [OF Some] have k: "k + 4 \<le> length (requestbuf c)" by simp
  have len: "length (requestbuf (c1\<lparr>requestbuf := drop (k + 4) (requestbuf c1)\<rparr>)) = length (requestbuf c) - (k + 4)"
    if "requestbuf c1 = requestbuf c" for c1 :: conn using that by simp
  from k have ag: "agree (length (requestbuf c) - (k + 4)) chk chk'" by (intro a) simp
  show ?thesis
  proof (cases "parse_block (requestbuf c) c")
    case (P_Done c1)
    with requestbuf_parse_block(1) [OF P_Done] check_parsed_agree [OF ag] len Some show ?thesis
      by (simp add: CheckRequest_body_def)
  next
    case (P_Error e msg c1)
    with requestbuf_parse_block(2) [OF P_Error] SendError_agree [OF ag] len Some show ?thesis
      by (simp add: CheckRequest_body_def)
  qed
qed (simp add: CheckRequest_body_def)

lemma CheckRequest_agree:
  "m < F \<Longrightarrow> m < F' \<Longrightarrow> agree m (CheckRequest F np) (CheckRequest F' np)"
proof (induction m arbitrary: F F' np rule: less_induct)
  case (less m)
  obtain f f' where f: "F = Suc f" "F' = Suc f'" using less.prems by (cases F; cases F'; simp)
  show ?case
    unfolding agree_def f
  proof (intro allI impI)
    fix st :: cstate assume b: "length (requestbuf (fst st)) \<le> m"
    obtain c s where st: "st = (c, s)" by (cases st)
    have "CheckRequest_body (CheckRequest f 0) np (c, s) = CheckRequest_body (CheckRequest f' 0) np (c, s)"
    proof (rule CheckRequest_body_agree)
      fix n assume "n + 4 \<le> length (requestbuf c)"
      with b st less.prems f show "agree n (CheckRequest f 0) (CheckRequest f' 0)"
        by (intro less.IH) auto
    qed
    then show "CheckRequest (Suc f) np st = CheckRequest (Suc f') np st" by (simp add: st)
  qed
qed

text \<open>Claim C7: the mutual recursion of \<open>CheckRequest\<close> and \<open>EndRequest\<close> over pipelined requests ends on
  every input: once the fuel exceeds the length of the buffer, more of it never changes the result,
  so the fuel the model runs with cuts nothing off.\<close>

theorem CheckRequest_fuel:
  assumes "length (requestbuf c) < F"
  shows "CheckRequest F np (c, s) = CheckRequest (Suc (length (requestbuf c))) np (c, s)"
  using CheckRequest_agree [of "length (requestbuf c)" F "Suc (length (requestbuf c))" np] assms
  by (simp add: agree_def)

theorem CheckRequest_fuel_witness:
  "CheckRequest 100 0 (demo_conn\<lparr>requestbuf := ''GET''\<rparr>, fs_demo) =
   CheckRequest 4 0 (demo_conn\<lparr>requestbuf := ''GET''\<rparr>, fs_demo)"
  using CheckRequest_fuel [of "demo_conn\<lparr>requestbuf := ''GET''\<rparr>" 100 0 fs_demo]
  by (simp add: eval_nat_numeral del: CheckRequest.simps)

end
