(* ===== verification/Timers.thy ===== *)
theory Timers
  imports Prelude
begin

text \<open>
  The timer queue (\<open>src/timer.cpp\<close>, \<open>include/timer.h\<close>): a vector of pointers that every insertion
  sorts again by trigger time. What a timer does when it ticks is a virtual function, so it is a
  parameter: it gets the whole state and may change any of it. \<open>std::sort\<close> promises a sorted
  permutation and nothing about timers of equal time, so it is a parameter with that law.
\<close>

record timer =
  trigger :: int
  secs :: int
  repeat :: bool

text \<open>\<open>timer_at\<close> is the heap the pointers refer to, \<open>outside\<close> the rest of the program.\<close>

record 'w timer_state =
  Timers :: "nat list"
  timer_at :: "nat \<Rightarrow> timer option"
  outside :: 'w

definition Timer_new :: "int \<Rightarrow> int \<Rightarrow> bool \<Rightarrow> timer" where
  "Timer_new secs_from_now now repeating = \<lparr>trigger = now + secs_from_now, secs = secs_from_now, repeat = repeating\<rparr>"

definition CancelRepeat :: "timer \<Rightarrow> timer" where
  "CancelRepeat t = t\<lparr>repeat := False\<rparr>"

definition SetTimer :: "int \<Rightarrow> timer \<Rightarrow> timer" where
  "SetTimer t tm = tm\<lparr>trigger := t\<rparr>"

definition TimerComparison :: "timer \<Rightarrow> timer \<Rightarrow> bool" where
  "TimerComparison one two = (trigger one < trigger two)"

text \<open>The order \<open>std::sort\<close> is called with, on pointers.\<close>

definition timer_before :: "(nat \<Rightarrow> timer option) \<Rightarrow> nat \<Rightarrow> nat \<Rightarrow> bool" where
  "timer_before h a b = (case (h a, h b) of (Some x, Some y) \<Rightarrow> TimerComparison x y | _ \<Rightarrow> False)"

type_synonym sorter = "(nat \<Rightarrow> nat \<Rightarrow> bool) \<Rightarrow> nat list \<Rightarrow> nat list"

definition std_sort :: "sorter \<Rightarrow> bool" where
  "std_sort srt \<longleftrightarrow> (\<forall>h xs. (\<forall>a\<in>set xs. h a \<noteq> None) \<longrightarrow>
     mset (srt (timer_before h) xs) = mset xs \<and>
     sorted_wrt (\<lambda>a b. \<not> timer_before h b a) (srt (timer_before h) xs))"

definition AddTimer :: "sorter \<Rightarrow> nat \<Rightarrow> 'w timer_state \<Rightarrow> 'w timer_state option" where
  "AddTimer srt T s =
     (let ts = Timers s @ [T]
      in if \<forall>a\<in>set ts. timer_at s a \<noteq> None then Some (s\<lparr>Timers := srt (timer_before (timer_at s)) ts\<rparr>) else None)"

definition DelTimer :: "nat \<Rightarrow> 'w timer_state \<Rightarrow> 'w timer_state" where
  "DelTimer T s =
     (if T \<in> set (Timers s) then s\<lparr>Timers := remove1 T (Timers s), timer_at := (timer_at s)(T := None)\<rparr> else s)"

text \<open>The loop ends when the first timer is not due; nothing in the code bounds it, so a call that
  never returns is \<open>None\<close>, like a use of a timer that has been deleted.\<close>

partial_function (option) TickTimers ::
  "(nat \<Rightarrow> int \<Rightarrow> 'w timer_state \<Rightarrow> 'w timer_state option) \<Rightarrow> sorter \<Rightarrow> int \<Rightarrow> 'w timer_state \<Rightarrow> 'w timer_state option"
where
  "TickTimers tick srt now s =
     (case Timers s of
        [] \<Rightarrow> Some s
      | t # ts \<Rightarrow> do {
          tm \<leftarrow> timer_at s t;
          if now > trigger tm then do {
            s1 \<leftarrow> tick t now (s\<lparr>Timers := ts\<rparr>);
            tm1 \<leftarrow> timer_at s1 t;
            if repeat tm1 then do {
              s2 \<leftarrow> AddTimer srt t (s1\<lparr>timer_at := (timer_at s1)(t \<mapsto> SetTimer (now + secs tm1) tm1)\<rparr>);
              TickTimers tick srt now s2
            } else TickTimers tick srt now (s1\<lparr>timer_at := (timer_at s1)(t := None)\<rparr>)
          } else Some s
        })"

section \<open>The queue\<close>

definition trig :: "'w timer_state \<Rightarrow> nat \<Rightarrow> int" where
  "trig s a = trigger (the (timer_at s a))"

text \<open>Every pointer is to a live timer, none occurs twice, and the vector is in order of time.\<close>

definition queue_ok :: "'w timer_state \<Rightarrow> bool" where
  "queue_ok s \<longleftrightarrow> (\<forall>a\<in>set (Timers s). timer_at s a \<noteq> None) \<and> distinct (Timers s) \<and> sorted (map (trig s) (Timers s))"

lemma timer_before_iff:
  "h a \<noteq> None \<Longrightarrow> h b \<noteq> None \<Longrightarrow> timer_before h a b \<longleftrightarrow> trigger (the (h a)) < trigger (the (h b))"
  by (auto simp: timer_before_def TimerComparison_def)

lemma timer_before_trig:
  "timer_at s a \<noteq> None \<Longrightarrow> timer_at s b \<noteq> None \<Longrightarrow> timer_before (timer_at s) a b \<longleftrightarrow> trig s a < trig s b"
  by (auto simp: timer_before_def TimerComparison_def trig_def)

lemma AddTimer_ok:
  assumes srt: "std_sort srt" and live: "\<forall>a\<in>set (Timers s). timer_at s a \<noteq> None" "timer_at s T \<noteq> None"
    and fresh: "distinct (Timers s)" "T \<notin> set (Timers s)"
  obtains ts where "AddTimer srt T s = Some (s\<lparr>Timers := ts\<rparr>)" "mset ts = add_mset T (mset (Timers s))"
    "queue_ok (s\<lparr>Timers := ts\<rparr>)"
proof
  let ?ts = "srt (timer_before (timer_at s)) (Timers s @ [T])"
  from live have all: "\<forall>a\<in>set (Timers s @ [T]). timer_at s a \<noteq> None" by simp
  show "AddTimer srt T s = Some (s\<lparr>Timers := ?ts\<rparr>)" using all by (simp add: AddTimer_def)
  from srt all have m: "mset ?ts = mset (Timers s @ [T])"
    and sw: "sorted_wrt (\<lambda>a b. \<not> timer_before (timer_at s) b a) ?ts"
    unfolding std_sort_def by blast+
  from m show "mset ?ts = add_mset T (mset (Timers s))" by simp
  from m have st: "set ?ts = set (Timers s @ [T])" by (metis set_mset_mset)
  have "distinct ?ts" using mset_eq_imp_distinct_iff [OF m] fresh by simp
  moreover have "sorted (map (trig s) ?ts)"
    unfolding sorted_map
    by (rule sorted_wrt_mono_rel [OF _ sw]) (use st all timer_before_trig [of s] in force)
  ultimately show "queue_ok (s\<lparr>Timers := ?ts\<rparr>)"
    using all st by (simp add: queue_ok_def trig_def [abs_def])
qed

text \<open>A tick that leaves the timers alone: all it does is change the rest of the program.\<close>

definition plain_tick :: "(nat \<Rightarrow> 'w \<Rightarrow> 'w) \<Rightarrow> nat \<Rightarrow> int \<Rightarrow> 'w timer_state \<Rightarrow> 'w timer_state option" where
  "plain_tick f t now s = Some (s\<lparr>outside := f t (outside s)\<rparr>)"

definition due :: "int \<Rightarrow> 'w timer_state \<Rightarrow> nat list" where
  "due now s = filter (\<lambda>a. trig s a < now) (Timers s)"

definition repeats_forward :: "'w timer_state \<Rightarrow> bool" where
  "repeats_forward s \<longleftrightarrow> (\<forall>a\<in>set (Timers s). case timer_at s a of Some tm \<Rightarrow> repeat tm \<longrightarrow> 0 \<le> secs tm | None \<Rightarrow> True)"

text \<open>The heap after a run: a due timer is set again when it repeats and deleted when it does not.\<close>

definition after_tick :: "int \<Rightarrow> timer \<Rightarrow> timer option" where
  "after_tick now tm =
     (if now > trigger tm then if repeat tm then Some (SetTimer (now + secs tm) tm) else None else Some tm)"

definition ticked :: "int \<Rightarrow> 'w timer_state \<Rightarrow> 'w timer_state \<Rightarrow> bool" where
  "ticked now s s' \<longleftrightarrow> (\<forall>a. timer_at s' a = (if a \<in> set (Timers s) then Option.bind (timer_at s a) (after_tick now) else timer_at s a)) \<and>
     set (Timers s') = {a \<in> set (Timers s). Option.bind (timer_at s a) (after_tick now) \<noteq> None}"

text \<open>One round of the loop on a due timer: \<open>s2\<close> is the state at the next test.\<close>

lemma tick_round:
  assumes srt: "std_sort srt" and ok: "queue_ok s" and fwd: "repeats_forward s"
    and q: "Timers s = t # ts" and due: "trig s t < now"
  obtains s2 where "TickTimers (plain_tick f) srt now s = TickTimers (plain_tick f) srt now s2"
    "queue_ok s2" "repeats_forward s2" "outside s2 = f t (outside s)"
    "mset (due now s2) = mset (filter (\<lambda>a. trig s a < now) ts)"
    "\<forall>a\<in>set ts. trig s2 a = trig s a" "\<And>s'. ticked now s2 s' \<Longrightarrow> ticked now s s'"
proof -
  from ok q obtain tm where tm: "timer_at s t = Some tm" by (auto simp: queue_ok_def)
  from due tm have lt: "trigger tm < now" by (simp add: trig_def)
  from ok q have nt: "t \<notin> set ts" and dts: "distinct ts" and live: "\<forall>a\<in>set ts. timer_at s a \<noteq> None"
    and srtd: "sorted (map (trig s) ts)"
    by (auto simp: queue_ok_def)
  show ?thesis
  proof (cases "repeat tm")
    case True
    with fwd q tm have nonneg: "0 \<le> secs tm" by (simp add: repeats_forward_def)
    define h where "h = (timer_at s)(t \<mapsto> SetTimer (now + secs tm) tm)"
    define s1 where "s1 = s\<lparr>Timers := ts, outside := f t (outside s), timer_at := h\<rparr>"
    obtain ts' where add: "AddTimer srt t s1 = Some (s1\<lparr>Timers := ts'\<rparr>)" and m: "mset ts' = add_mset t (mset ts)"
      and ok': "queue_ok (s1\<lparr>Timers := ts'\<rparr>)"
      by (rule AddTimer_ok [OF srt, of s1 t]) (use live dts nt in \<open>auto simp: s1_def h_def\<close>)
    let ?s2 = "s1\<lparr>Timers := ts'\<rparr>"
    have set': "set ts' = insert t (set ts)" using m by (metis set_mset_add_mset_insert set_mset_mset)
    have tr: "trig ?s2 t = now + secs tm" "\<forall>a\<in>set ts. trig ?s2 a = trig s a"
      using nt by (auto simp: trig_def s1_def h_def SetTimer_def)
    show ?thesis
    proof (rule that [of ?s2])
      show "TickTimers (plain_tick f) srt now s = TickTimers (plain_tick f) srt now ?s2"
        using q tm lt True add by (subst TickTimers.simps) (simp add: plain_tick_def s1_def h_def)
      show "mset (due now ?s2) = mset (filter (\<lambda>a. trig s a < now) ts)"
        using m tr nonneg nt by (auto simp: due_def intro!: filter_mset_cong)
      show "repeats_forward ?s2"
        using fwd q tm nonneg set' by (auto simp: repeats_forward_def s1_def h_def SetTimer_def split: option.splits)
      show "ticked now s s'" if "ticked now ?s2 s'" for s'
        using that q tm lt True nonneg set' nt
        by (auto simp: ticked_def s1_def h_def SetTimer_def after_tick_def)
    qed (use ok' tr in \<open>simp_all add: s1_def\<close>)
  next
    case False
    let ?s2 = "s\<lparr>Timers := ts, outside := f t (outside s), timer_at := (timer_at s)(t := None)\<rparr>"
    have tr: "\<forall>a\<in>set ts. trig ?s2 a = trig s a" using nt by (auto simp: trig_def)
    show ?thesis
    proof (rule that [of ?s2])
      show "TickTimers (plain_tick f) srt now s = TickTimers (plain_tick f) srt now ?s2"
        using q tm lt False by (subst TickTimers.simps) (simp add: plain_tick_def)
      have "map (trig ?s2) ts = map (trig s) ts" using tr by simp
      with srtd have "sorted (map (trig ?s2) ts)" by metis
      with live nt dts show "queue_ok ?s2" by (auto simp: queue_ok_def)
      show "mset (due now ?s2) = mset (filter (\<lambda>a. trig s a < now) ts)"
        using tr by (auto simp: due_def intro!: filter_mset_cong)
      show "repeats_forward ?s2" using fwd q nt by (auto simp: repeats_forward_def split: option.splits)
      show "ticked now s s'" if "ticked now ?s2 s'" for s'
        using that q tm lt False nt by (auto simp: ticked_def after_tick_def)
    qed (use tr in simp_all)
  qed
qed

lemma TickTimers_run:
  assumes "std_sort srt" and "queue_ok s" and "repeats_forward s"
  shows "\<exists>s' fired. TickTimers (plain_tick f) srt now s = Some s' \<and> mset fired = mset (due now s) \<and>
    sorted (map (trig s) fired) \<and> outside s' = fold f fired (outside s) \<and> queue_ok s' \<and> due now s' = [] \<and> ticked now s s'"
  using assms(2,3)
proof (induction "length (due now s)" arbitrary: s)
  case 0
  have "TickTimers (plain_tick f) srt now s = Some s"
  proof (cases "Timers s")
    case (Cons t ts)
    with "0.prems"(1) obtain tm where "timer_at s t = Some tm" by (auto simp: queue_ok_def)
    with Cons "0.hyps" show ?thesis by (subst TickTimers.simps) (auto simp: due_def trig_def split: if_splits)
  qed (subst TickTimers.simps, simp)
  moreover have "ticked now s s"
  proof -
    have keep: "after_tick now tm = Some tm" if "a \<in> set (Timers s)" "timer_at s a = Some tm" for a tm
      using "0.hyps" that by (auto simp: due_def trig_def after_tick_def filter_empty_conv)
    have "Option.bind (timer_at s a) (after_tick now) = timer_at s a" if "a \<in> set (Timers s)" for a
      using keep [OF that] by (cases "timer_at s a") auto
    with "0.prems"(1) show ?thesis by (auto simp: ticked_def queue_ok_def)
  qed
  ultimately show ?case using "0.hyps" "0.prems" by (intro exI [of _ s] exI [of _ "[]"]) simp
next
  case (Suc n)
  then obtain t ts where q: "Timers s = t # ts" by (cases "Timers s") (auto simp: due_def)
  have srtd: "\<forall>a\<in>set ts. trig s t \<le> trig s a" using Suc.prems(1) q by (simp add: queue_ok_def)
  have lt: "trig s t < now"
  proof (rule ccontr)
    assume "\<not> trig s t < now"
    with srtd q have "due now s = []" by (force simp: due_def filter_empty_conv)
    with Suc.hyps(2) show False by simp
  qed
  from tick_round [OF assms(1) Suc.prems q lt, of f] obtain s2
    where run: "TickTimers (plain_tick f) srt now s = TickTimers (plain_tick f) srt now s2"
      and ok2: "queue_ok s2" "repeats_forward s2" and o2: "outside s2 = f t (outside s)"
      and due2: "mset (due now s2) = mset (filter (\<lambda>a. trig s a < now) ts)"
      and tr2: "\<forall>a\<in>set ts. trig s2 a = trig s a" and tk: "\<And>s'. ticked now s2 s' \<Longrightarrow> ticked now s s'"
    by metis
  have dm: "mset (due now s) = add_mset t (mset (due now s2))" using q lt due2 by (simp add: due_def)
  then have "n = length (due now s2)" using Suc.hyps(2) by (metis add_mset_add_single nat.inject size_add_mset size_mset)
  from Suc.hyps(1) [OF this ok2] obtain s' fired
    where IH: "TickTimers (plain_tick f) srt now s2 = Some s'" "mset fired = mset (due now s2)"
      "sorted (map (trig s2) fired)" "outside s' = fold f fired (outside s2)" "queue_ok s'" "due now s' = []" "ticked now s2 s'"
    by blast
  have "set fired = set (filter (\<lambda>a. trig s a < now) ts)" using IH(2) due2 by (metis set_mset_mset)
  then have sub: "set fired \<subseteq> set ts" by auto
  with tr2 have "map (trig s2) fired = map (trig s) fired" by auto
  with IH(3) srtd sub have "sorted (map (trig s) (t # fired))" by auto
  with run IH dm o2 tk show ?case by (intro exI [of _ s'] exI [of _ "t # fired"]) simp
qed

section \<open>Properties\<close>

text \<open>Claim C20: on a well-formed queue whose repeating timers have no negative interval
  \<open>TickTimers\<close> returns; it has ticked exactly the timers that were due, each once, in the order of
  their times; each of them is set again from the current time if it repeats and deleted if not,
  every other timer is as it was, and the queue is well-formed with nothing due left in it.\<close>

theorem TickTimers_fires_due:
  assumes "std_sort srt" and "queue_ok s" and "repeats_forward s"
  shows "\<exists>s' fired. TickTimers (plain_tick f) srt now s = Some s' \<and> mset fired = mset (due now s) \<and>
    sorted (map (trig s) fired) \<and> outside s' = fold f fired (outside s) \<and> queue_ok s' \<and> due now s' = [] \<and> ticked now s s'"
  by (rule TickTimers_run [OF assms])

text \<open>Insertion sort is such a sort, so the law can be met.\<close>

fun insert_before :: "(nat \<Rightarrow> nat \<Rightarrow> bool) \<Rightarrow> nat \<Rightarrow> nat list \<Rightarrow> nat list" where
  "insert_before lt x [] = [x]"
| "insert_before lt x (y # ys) = (if lt y x then y # insert_before lt x ys else x # y # ys)"

definition insertion_sort :: sorter where
  "insertion_sort lt xs = foldr (insert_before lt) xs []"

lemma insert_before_mset [simp]: "mset (insert_before lt x ys) = add_mset x (mset ys)"
  by (induction ys) auto

lemma insert_before_sorted:
  fixes k :: "nat \<Rightarrow> int"
  assumes "\<forall>a\<in>insert x (set ys). \<forall>b\<in>insert x (set ys). lt a b \<longleftrightarrow> k a < k b" and "sorted (map k ys)"
  shows "sorted (map k (insert_before lt x ys))"
  using assms
proof (induction ys)
  case (Cons y ys)
  have "set (insert_before lt x ys) = insert x (set ys)"
    by (metis insert_before_mset set_mset_add_mset_insert set_mset_mset)
  with Cons show ?case by auto
qed simp

lemma insertion_sort_mset [simp]: "mset (insertion_sort lt xs) = mset xs"
  unfolding insertion_sort_def by (induction xs) simp_all

lemma insertion_sort_ok: "std_sort insertion_sort"
  unfolding std_sort_def
proof (intro allI impI conjI insertion_sort_mset)
  fix h :: "nat \<Rightarrow> timer option" and xs
  let ?lt = "timer_before h" and ?k = "\<lambda>a. trigger (the (h a))"
  assume live: "\<forall>a\<in>set xs. h a \<noteq> None"
  then have lt: "\<forall>a\<in>set xs. \<forall>b\<in>set xs. ?lt a b \<longleftrightarrow> ?k a < ?k b"
    by (simp add: timer_before_iff)
  have same: "set (insertion_sort ?lt ys) = set ys" for ys
    by (metis insertion_sort_mset set_mset_mset)
  from lt have "sorted (map ?k (insertion_sort ?lt xs))"
  proof (induction xs)
    case (Cons x xs)
    then show ?case using same [of xs] insert_before_sorted [of x "insertion_sort ?lt xs" ?lt ?k]
      by (simp add: insertion_sort_def)
  qed (simp add: insertion_sort_def)
  then show "sorted_wrt (\<lambda>a b. \<not> ?lt b a) (insertion_sort ?lt xs)"
    unfolding sorted_map by (rule sorted_wrt_mono_rel [rotated]) (use lt same in auto)
qed

text \<open>Three timers, of which the first fires and is gone and the second repeats.\<close>

definition demo_timers :: "nat list timer_state" where
  "demo_timers = \<lparr>Timers = [1, 2, 3],
     timer_at = [1 \<mapsto> Timer_new 5 100 False, 2 \<mapsto> Timer_new 6 100 True, 3 \<mapsto> Timer_new 60 100 False], outside = []\<rparr>"

theorem TickTimers_fires_due_witness:
  "\<exists>s'. TickTimers (plain_tick (\<lambda>t l. l @ [t])) insertion_sort 110 demo_timers = Some s' \<and>
     set (outside s') = {1, 2} \<and> timer_at s' 1 = None \<and> map_option trigger (timer_at s' 2) = Some 116"
proof -
  have "queue_ok demo_timers" "repeats_forward demo_timers"
    by (auto simp: queue_ok_def repeats_forward_def demo_timers_def trig_def Timer_new_def)
  from TickTimers_fires_due [OF insertion_sort_ok this, of "\<lambda>t l. l @ [t]" 110] obtain s' fired
    where r: "TickTimers (plain_tick (\<lambda>t l. l @ [t])) insertion_sort 110 demo_timers = Some s'"
      "mset fired = mset (due 110 demo_timers)" "outside s' = fold (\<lambda>t l. l @ [t]) fired (outside demo_timers)"
      "ticked 110 demo_timers s'" by blast
  have "fold (\<lambda>t l. l @ [t]) xs ys = ys @ xs" for xs ys :: "nat list" by (induction xs arbitrary: ys) auto
  moreover have "set fired = {1, 2}" using r(2) set_mset_mset [of fired]
    by (simp add: due_def demo_timers_def trig_def Timer_new_def insert_commute)
  moreover have "timer_at s' 1 = None \<and> map_option trigger (timer_at s' 2) = Some 116"
    using r(4) by (simp add: ticked_def after_tick_def demo_timers_def Timer_new_def SetTimer_def)
  ultimately show ?thesis using r(1,3) by (auto simp: demo_timers_def)
qed

text \<open>Claim C21: a repeating timer with a negative interval, once it is due, keeps \<open>TickTimers\<close> going
  round for ever: the time it is set to next is due again.\<close>

theorem TickTimers_diverges:
  assumes "std_sort srt" and "timer_at s t = Some tm" and "Timers s = [t]"
    and "repeat tm" and "secs tm < 0" and "trigger tm < now"
  shows "TickTimers (plain_tick f) srt now s = None"
proof -
  define stuck where "stuck = (\<lambda>s :: 'a timer_state. \<exists>tm. timer_at s t = Some tm \<and> Timers s = [t] \<and> repeat tm \<and>
    secs tm < 0 \<and> trigger tm < now)"
  have one: "srt (timer_before h) [t] = [t]" if "h t \<noteq> None" for h
    using assms(1) that unfolding std_sort_def
    by (metis mset_single_iff_right mset.simps(1,2) add_mset_add_single add.left_neutral list.set_intros(1) singletonD list.set(1,2))
  have all: "tk = plain_tick f \<longrightarrow> sr = srt \<longrightarrow> n = now \<longrightarrow> \<not> stuck s" if "TickTimers tk sr n s = Some s'" for tk sr n s s'
    using that
  proof (rule TickTimers.raw_induct [rotated])
    fix go tk sr n s s'
    assume IH: "\<And>tk sr n s s'. go tk sr n s = Some s' \<Longrightarrow> tk = plain_tick f \<longrightarrow> sr = srt \<longrightarrow> n = now \<longrightarrow> \<not> stuck s"
      and body: "(case Timers s of [] \<Rightarrow> Some s
        | t # ts \<Rightarrow> do {
            tm \<leftarrow> timer_at s t;
            if trigger tm < n then do {
              s1 \<leftarrow> tk t n (s\<lparr>Timers := ts\<rparr>);
              tm1 \<leftarrow> timer_at s1 t;
              if repeat tm1 then do {
                s2 \<leftarrow> AddTimer sr t (s1\<lparr>timer_at := (timer_at s1)(t \<mapsto> SetTimer (n + secs tm1) tm1)\<rparr>);
                go tk sr n s2
              } else go tk sr n (s1\<lparr>timer_at := (timer_at s1)(t := None)\<rparr>)
            } else Some s
          }) = Some s'"
    show "tk = plain_tick f \<longrightarrow> sr = srt \<longrightarrow> n = now \<longrightarrow> \<not> stuck s"
    proof (intro impI notI)
      assume eq: "tk = plain_tick f" "sr = srt" "n = now" and "stuck s"
      then obtain tm where tm: "timer_at s t = Some tm" "Timers s = [t]" "repeat tm" "secs tm < 0" "trigger tm < now"
        by (auto simp: stuck_def)
      let ?s1 = "s\<lparr>outside := f t (outside s), timer_at := (timer_at s)(t \<mapsto> SetTimer (now + secs tm) tm), Timers := [t]\<rparr>"
      have "go (plain_tick f) srt now ?s1 = Some s'"
        using body tm one eq by (simp add: plain_tick_def AddTimer_def)
      from IH [OF this] tm show False by (simp add: stuck_def SetTimer_def)
    qed
  qed
  with assms(2-) show ?thesis
    using all [of "plain_tick f" srt now s] by (cases "TickTimers (plain_tick f) srt now s") (auto simp: stuck_def)
qed

theorem TickTimers_diverges_witness:
  "TickTimers (plain_tick (\<lambda>_ n. n + 1)) insertion_sort 110
     \<lparr>Timers = [1], timer_at = [1 \<mapsto> Timer_new (- 1) 100 True], outside = 0 :: nat\<rparr> = None"
  by (rule TickTimers_diverges [OF insertion_sort_ok, where t = 1 and tm = "Timer_new (- 1) 100 True"])
    (simp_all add: Timer_new_def)

end
