(* ===== verification/ConfigLookup.thy ===== *)
theory ConfigLookup
  imports ConfigParse Numeric
begin

text \<open>
  Values of a configuration (\<open>src/configreader.cpp\<close>): the functions \<open>ConfValue\<close>, \<open>ConfValueInteger\<close>,
  \<open>ConfValueBool\<close>, \<open>ConfValueEnum\<close> and \<open>ConfVarEnum\<close> on the parsed multimap, the class \<open>ValueItem\<close>, the
  checks of single values, and the comparison of the old with the new list of modules. An exception
  is \<open>Inl\<close> with its reason. The overloads that only convert between C strings and \<open>std::string\<close> are
  the same function here.
\<close>

section \<open>Lookup\<close>

text \<open>The loop over the items of a section: a value with line ends that are not allowed is changed in place,
  and the search goes on.\<close>

fun conf_item :: "string \<Rightarrow> bool \<Rightarrow> KeyValList \<Rightarrow> KeyValList \<times> string option" where
  "conf_item var lf [] = ([], None)"
| "conf_item var lf ((k, v) # kvs) =
     (if k = var then
        if \<not> lf \<and> LF \<in> set v then
          (case conf_item var lf kvs of (kvs', r) \<Rightarrow> ((k, map (\<lambda>c. if c = LF then CHR '' '' else c) v) # kvs', r))
        else ((k, v) # kvs, Some v)
      else (case conf_item var lf kvs of (kvs', r) \<Rightarrow> ((k, v) # kvs', r)))"

text \<open>The \<open>n\<close>-th entry of a key, in the multimap's order.\<close>

fun mm_put :: "string \<Rightarrow> nat \<Rightarrow> 'v \<Rightarrow> (string \<times> 'v) list \<Rightarrow> (string \<times> 'v) list" where
  "mm_put k n v [] = []"
| "mm_put k n v ((k', v') # m) =
     (if k' = k then (case n of 0 \<Rightarrow> (k, v) # m | Suc n' \<Rightarrow> (k', v') # mm_put k n' v m) else (k', v') # mm_put k n v m)"

text \<open>The result is whether there is a value, the new content of \<open>result\<close>, and the configuration.\<close>

definition ConfValue :: "ConfigDataHash \<Rightarrow> string \<Rightarrow> string \<Rightarrow> string \<Rightarrow> nat \<Rightarrow> string \<Rightarrow> bool \<Rightarrow> bool \<times> string \<times> ConfigDataHash" where
  "ConfValue t tag var dflt index res lf =
     (if index < mm_count tag t then
        (case conf_item var lf (mm_range tag t ! index) of
           (kvs, found) \<Rightarrow>
             let t' = mm_put tag index kvs t in
             (case found of
                Some v \<Rightarrow> (True, v, t')
              | None \<Rightarrow> if dflt \<noteq> [] then (True, dflt, t') else (False, res, t')))
      else if index = 0 \<and> dflt \<noteq> [] then (True, dflt, t)
      else (False, res, t))"

text \<open>The overload for a buffer of \<open>n\<close> bytes cuts the value, and empties the buffer when there is none.\<close>

definition ConfValue_buf :: "nat \<Rightarrow> ConfigDataHash \<Rightarrow> string \<Rightarrow> string \<Rightarrow> string \<Rightarrow> nat \<Rightarrow> bool \<Rightarrow> bool \<times> string \<times> ConfigDataHash" where
  "ConfValue_buf n t tag var dflt index lf =
     (case ConfValue t tag var dflt index [] lf of (r, v, t') \<Rightarrow> (r, take (n - 1) (c_str v), t'))"

definition ConfValueBool :: "ConfigDataHash \<Rightarrow> string \<Rightarrow> string \<Rightarrow> string \<Rightarrow> nat \<Rightarrow> bool \<times> ConfigDataHash" where
  "ConfValueBool t tag var dflt index =
     (case ConfValue t tag var dflt index [] False of
        (r, v, t') \<Rightarrow> (r \<and> (v = ''yes'' \<or> v = ''true'' \<or> v = ''1''), t'))"

definition ConfValueEnum :: "ConfigDataHash \<Rightarrow> string \<Rightarrow> nat" where
  "ConfValueEnum t tag = mm_count tag t"

definition ConfVarEnum :: "ConfigDataHash \<Rightarrow> string \<Rightarrow> nat \<Rightarrow> nat" where
  "ConfVarEnum t tag index = (if index < mm_count tag t then length (mm_range tag t ! index) else 0)"

section \<open>Integers\<close>

text \<open>\<open>stream >> n\<close> for an \<open>int\<close>: fails without digits and when the number does not fit.\<close>

definition stream_int :: "string \<Rightarrow> int option" where
  "stream_int s =
     (let t = dropWhile isspace_c s;
          (neg, d) = (case t of c # cs \<Rightarrow> if c = CHR ''-'' then (True, cs) else if c = CHR ''+'' then (False, cs) else (False, t)
                      | [] \<Rightarrow> (False, []));
          n = (if neg then - int (digits_val 0 d) else int (digits_val 0 d))
      in if d = [] \<or> \<not> isdigit_c (hd d) then None
         else if n < - (2 ^ 31) \<or> n > 2 ^ 31 - 1 then None
         else Some n)"

definition hexval :: "char \<Rightarrow> nat option" where
  "hexval c =
     (if isdigit_c c then Some (ord c - 48)
      else if 65 \<le> ord c \<and> ord c \<le> 70 then Some (ord c - 55)
      else if 97 \<le> ord c \<and> ord c \<le> 102 then Some (ord c - 87)
      else None)"

fun hex_digits :: "nat \<Rightarrow> string \<Rightarrow> nat" where
  "hex_digits acc [] = acc"
| "hex_digits acc (c # cs) = (case hexval c of None \<Rightarrow> acc | Some d \<Rightarrow> hex_digits (acc * 16 + d) cs)"

text \<open>\<open>strtol(s, &endptr, 16)\<close>; \<open>None\<close> when no digits are found.\<close>

definition strtol16 :: "string \<Rightarrow> int option" where
  "strtol16 s =
     (let t = dropWhile isspace_c s;
          (neg, d) = (case t of c # cs \<Rightarrow> if c = CHR ''-'' then (True, cs) else if c = CHR ''+'' then (False, cs) else (False, t)
                      | [] \<Rightarrow> (False, []));
          h = (case d of z # x # e # r \<Rightarrow>
                 if z = CHR ''0'' \<and> (x = CHR ''x'' \<or> x = CHR ''X'') \<and> hexval e \<noteq> None then e # r else d
               | _ \<Rightarrow> d)
      in if h = [] \<or> hexval (hd h) = None then None
         else Some (clamp64 (if neg then - int (hex_digits 0 h) else int (hex_digits 0 h))))"

text \<open>Multiplications wrap at the width of \<open>int\<close>.\<close>

definition ConfValueInteger :: "ConfigDataHash \<Rightarrow> string \<Rightarrow> string \<Rightarrow> string \<Rightarrow> nat \<Rightarrow> int option \<times> ConfigDataHash" where
  "ConfValueInteger t tag var dflt index =
     (case ConfValue t tag var dflt index [] False of
        (r, v, t') \<Rightarrow>
          (case stream_int v of
             None \<Rightarrow> (None, t')
           | Some n \<Rightarrow>
               let res = (if take 2 v = ''0x'' then map_option to_int32 (strtol16 (c_str (drop 2 v)))
                          else
                            let u = toupper_c (last v) in
                            Some (if u = CHR ''K'' then to_int32 (n * 1024)
                                  else if u = CHR ''M'' then to_int32 (n * 1024 * 1024)
                                  else if u = CHR ''G'' then to_int32 (n * 1024 * 1024 * 1024)
                                  else n))
               in (if r then res else None, t')))"

section \<open>\<open>ValueItem\<close>\<close>

definition ValueItem_int :: "int \<Rightarrow> string" where "ValueItem_int n = ConvNumeric n"
definition ValueItem_bool :: "bool \<Rightarrow> string" where "ValueItem_bool b = (if b then ''1'' else ''0'')"
definition GetInteger :: "string \<Rightarrow> int" where "GetInteger v = (if v = [] then 0 else atoi (c_str v))"
definition GetBool :: "string \<Rightarrow> bool" where "GetBool v \<longleftrightarrow> GetInteger v \<noteq> 0 \<or> v = ''yes'' \<or> v = ''true''"

section \<open>Checks of values\<close>

definition value_of :: "string \<Rightarrow> string \<Rightarrow> string \<Rightarrow> string" where
  "value_of tag val rest = ''The value of <'' @ tag @ '':'' @ val @ ''> '' @ rest"

definition CheckOnce :: "ConfigDataHash \<Rightarrow> string \<Rightarrow> string + bool" where
  "CheckOnce t tag =
     (let n = ConfValueEnum t tag in
      if n > 1 then Inl (''You have more than one <'' @ tag @ ''> tag, this is not permitted.'')
      else if n < 1 then Inl (''You have not defined a <'' @ tag @ ''> tag, this is required.'')
      else Inr True)"

definition ValidateNoSpaces :: "string \<Rightarrow> string \<Rightarrow> string \<Rightarrow> string + unit" where
  "ValidateNoSpaces p tag val = (if CHR '' '' \<in> set p then Inl (value_of tag val ''cannot contain spaces'') else Inr ())"

text \<open>The loop of \<open>ValidateIP\<close>: dots, colons and the two flags \<open>not_numbers\<close>, \<open>not_hex\<close>; \<open>None\<close> at a space.\<close>

record ip_scan =
  num_dots :: nat
  num_seps :: nat
  not_numbers :: bool
  not_hex :: bool

fun ip_chars :: "bool \<Rightarrow> string \<Rightarrow> ip_scan \<Rightarrow> ip_scan option" where
  "ip_chars wild [] a = Some a"
| "ip_chars wild (c # cs) a =
     (if wild \<and> (c = CHR ''*'' \<or> c = CHR ''?'' \<or> c = CHR ''/'') then ip_chars wild cs a
      else
        let u = ord (toupper_c c);
            a1 = (if c \<noteq> CHR '':'' \<and> c \<noteq> CHR ''.'' then
                    a\<lparr>not_numbers := not_numbers a \<or> \<not> isdigit_c c,
                      not_hex := not_hex a \<or> (\<not> isdigit_c c \<and> \<not> (65 \<le> u \<and> u \<le> 70))\<rparr>
                  else a)
        in if c = CHR '' '' then None
           else if c = CHR ''.'' then ip_chars wild cs (a1\<lparr>num_dots := num_dots a1 + 1\<rparr>)
           else if c = CHR '':'' then ip_chars wild cs (a1\<lparr>num_seps := num_seps a1 + 1\<rparr>)
           else ip_chars wild cs a1)"

definition ValidateIP :: "string \<Rightarrow> string \<Rightarrow> string \<Rightarrow> bool \<Rightarrow> string + unit" where
  "ValidateIP p tag val wild =
     (if p = [] then Inr ()
      else if hd p = CHR ''.'' then Inl (value_of tag val ''is not an IP address'')
      else
        (case ip_chars wild p \<lparr>num_dots = 0, num_seps = 0, not_numbers = False, not_hex = False\<rparr> of
           None \<Rightarrow> Inl (value_of tag val ''is not an IP address'')
         | Some a \<Rightarrow>
             if num_dots a > 3 then Inl (value_of tag val ''is an IPv4 address with too many fields!'')
             else if num_seps a > 8 then Inl (value_of tag val ''is an IPv6 address with too many fields!'')
             else if num_seps a = 0 \<and> num_dots a < 3 \<and> \<not> wild then
               Inl (value_of tag val ''looks to be a malformed IPv4 address'')
             else if num_seps a = 0 \<and> num_dots a = 3 \<and> not_numbers a then
               Inl (value_of tag val ''contains non-numeric characters in an IPv4 address'')
             else if num_seps a \<noteq> 0 \<and> not_hex a then
               Inl (value_of tag val ''contains non-hexdecimal characters in an IPv6 address'')
             else if num_seps a \<noteq> 0 \<and> num_dots a \<noteq> 3 \<and> num_dots a \<noteq> 0 \<and> \<not> wild then
               Inl (value_of tag val ''is a malformed IPv6 4in6 address'')
             else Inr ()))"

definition ValidateHostname :: "string \<Rightarrow> string \<Rightarrow> string \<Rightarrow> string + unit" where
  "ValidateHostname p tag val =
     (if p = [] then Inr ()
      else if hd p = CHR ''.'' \<or> CHR '' '' \<in> set p \<or> CHR ''.'' \<notin> set p then
        Inl (value_of tag val ''is not a valid hostname'')
      else Inr ())"

section \<open>The list of modules\<close>

record module_lists =
  old_module_names :: "string list"
  new_module_names :: "string list"
  added_modules :: "string list"
  removed_modules :: "string list"

definition InitModule :: "string list \<Rightarrow> module_lists" where
  "InitModule loaded = \<lparr>old_module_names = loaded, new_module_names = [], added_modules = [], removed_modules = []\<rparr>"

definition DoModule :: "string \<Rightarrow> module_lists \<Rightarrow> module_lists" where
  "DoModule modname l = l\<lparr>new_module_names := new_module_names l @ [modname]\<rparr>"

definition DoneModule :: "module_lists \<Rightarrow> module_lists" where
  "DoneModule l =
     l\<lparr>added_modules := added_modules l @ filter (\<lambda>n. n \<notin> set (old_module_names l)) (new_module_names l),
       removed_modules := removed_modules l @ filter (\<lambda>n. n \<notin> set (new_module_names l)) (old_module_names l)\<rparr>"

text \<open>The loop of \<open>Read\<close> over the \<open>module\<close> sections, from the \<open>n\<close>-th on.\<close>

fun read_modules :: "nat \<Rightarrow> nat \<Rightarrow> nat \<Rightarrow> ConfigDataHash \<Rightarrow> module_lists \<Rightarrow> ConfigDataHash \<times> module_lists" where
  "read_modules maxbuf n 0 t l = (t, l)"
| "read_modules maxbuf n (Suc k) t l =
     (case ConfValue_buf maxbuf t ''module'' ''name'' [] n False of
        (r, v, t') \<Rightarrow> read_modules maxbuf (n + 1) k t' (DoModule (if r then v else []) l))"

section \<open>Facts on lookup\<close>

lemma mm_range_Cons: "mm_range k ((k', v) # m) = (if k' = k then v # mm_range k m else mm_range k m)"
  by (simp add: mm_range_def)

lemma mm_range_Nil [simp]: "mm_range k [] = []"
  by (simp add: mm_range_def)

lemma mm_put_same: "n < mm_count k m \<Longrightarrow> mm_put k n (mm_range k m ! n) m = m"
  by (induction k n "mm_range k m ! n" m arbitrary: rule: mm_put.induct)
    (auto simp: mm_count_def mm_range_Cons split: nat.splits)

lemma mm_range_put: "mm_range k (mm_put k n v m) = (mm_range k m)[n := v]"
  by (induction k n v m rule: mm_put.induct) (auto simp: mm_range_Cons split: nat.splits)

lemma conf_item_found:
  "map_of kvs var = Some v \<Longrightarrow> lf \<or> LF \<notin> set v \<Longrightarrow> conf_item var lf kvs = (kvs, Some v)"
  by (induction var lf kvs rule: conf_item.induct) (auto split: if_splits)

lemma mm_range_fold_insert:
  "mm_sorted t \<Longrightarrow> mm_range k (fold (\<lambda>(n, kvs). mm_insert n kvs) secs t) =
    mm_range k t @ map snd (filter (\<lambda>p. fst p = k) secs)"
proof (induction secs arbitrary: t)
  case (Cons p secs)
  obtain n kvs where "p = (n, kvs)" by (cases p)
  with Cons.IH [of "mm_insert n kvs t"] Cons.prems show ?case
    by (simp add: mm_range_insert mm_sorted_insert)
qed simp

lemma ConfValue_item:
  assumes "index < mm_count tag t" and "map_of (mm_range tag t ! index) var = Some v" and "lf \<or> LF \<notin> set v"
  shows "ConfValue t tag var dflt index res lf = (True, v, t)"
  using assms by (simp add: ConfValue_def conf_item_found mm_put_same Let_def)

section \<open>Properties\<close>

text \<open>Claim C27: what is written in a configuration is what the program reads from it: after a printed
  configuration has been loaded, asking for an item of the \<open>index\<close>-th section of a name gives the
  value of the first item of that name in it, whatever the default, and leaves the configuration alone.\<close>

theorem config_written_is_read:
  assumes "\<forall>p\<in>set secs. printable p" and "LoadConf [] (Some (print_conf secs)) = Inr t"
    and "filter (\<lambda>p. fst p = tag) secs = pre @ (tag, kvs) # post" and "length pre = index"
    and "map_of kvs var = Some v" and "lf \<or> LF \<notin> set v"
  shows "ConfValue t tag var dflt index res lf = (True, v, t)"
proof -
  from conf_lines_printed [OF assms(1), of 0 "[]"] assms(2)
  have t: "t = fold (\<lambda>(n, kvs). mm_insert n kvs) secs []"
    by (auto simp: LoadConf_def conf_eof_def conf_init_def)
  have "mm_range tag t = map snd (pre @ (tag, kvs) # post)"
    unfolding t by (subst mm_range_fold_insert) (simp_all add: mm_sorted_def assms(3) mm_range_def)
  with assms(4-6) show ?thesis
    by (intro ConfValue_item) (auto simp: mm_count_def nth_append)
qed

theorem config_written_is_read_witness:
  "\<exists>t. LoadConf [] (Some (print_conf [(''bind'', [(''port'', ''80'')]), (''bind'', [(''port'', ''8080'')])])) = Inr t \<and>
     ConfValue t ''bind'' ''port'' [] 1 [] False = (True, ''8080'', t)"
proof -
  let ?secs = "[(''bind'', [(''port'', ''80'')]), (''bind'', [(''port'', ''8080'')])]"
  have p: "\<forall>p\<in>set ?secs. printable p"
    by (simp add: printable_def plain_word_def plain_char_def quotable_def)
  from conf_lines_printed [OF p, of 0 "[]"] obtain t where l: "LoadConf [] (Some (print_conf ?secs)) = Inr t"
    by (auto simp: LoadConf_def conf_eof_def conf_init_def)
  have "ConfValue t ''bind'' ''port'' [] 1 [] False = (True, ''8080'', t)"
    by (rule config_written_is_read [OF p l, of _ "[(''bind'', [(''port'', ''80'')])]" "[(''port'', ''8080'')]" "[]"]) simp_all
  with l show ?thesis by blast
qed

text \<open>Claim C28: where line ends are not allowed, the first lookup of a value that has some does not find it: it
  changes the value in the configuration and goes on to the default. The second lookup of the same
  item does find it, with spaces for the line ends.\<close>

theorem ConfValue_linefeed_twice:
  assumes "index < mm_count tag t" and "mm_range tag t ! index = pre @ (var, v) # post"
    and "var \<notin> fst ` set pre" and "var \<notin> fst ` set post" and "LF \<in> set v"
  defines "stripped \<equiv> map (\<lambda>c. if c = LF then CHR '' '' else c) v"
  shows "\<exists>t'. ConfValue t tag var dflt index res False = (dflt \<noteq> [], if dflt = [] then res else dflt, t') \<and>
    ConfValue t' tag var dflt index res False = (True, stripped, t')"
proof -
  have item: "conf_item var False (ps @ (var, v) # post) = (ps @ (var, stripped) # post, None)"
    if "var \<notin> fst ` set ps" for ps
  proof -
    have "conf_item var False post = (post, None)"
      using assms(4) by (induction post) auto
    with assms(5) have "conf_item var False ((var, v) # post) = ((var, stripped) # post, None)"
      by (simp add: stripped_def)
    then show ?thesis using that by (induction ps) auto
  qed
  let ?t = "mm_put tag index (pre @ (var, stripped) # post) t"
  have "ConfValue t tag var dflt index res False = (dflt \<noteq> [], if dflt = [] then res else dflt, ?t)"
    using assms(1,2) item [OF assms(3)] by (simp add: ConfValue_def Let_def)
  moreover have "ConfValue ?t tag var dflt index res False = (True, stripped, ?t)"
  proof (rule ConfValue_item)
    have r: "mm_range tag ?t = (mm_range tag t)[index := pre @ (var, stripped) # post]" by (rule mm_range_put)
    with assms(1) show "index < mm_count tag ?t" by (simp add: mm_count_def)
    have "map_of (pre @ (var, stripped) # post) var = Some stripped"
      using assms(3) by (induction pre) auto
    with r assms(1) show "map_of (mm_range tag ?t ! index) var = Some stripped" by (simp add: mm_count_def)
    show "False \<or> LF \<notin> set stripped" by (auto simp: stripped_def)
  qed
  ultimately show ?thesis by blast
qed

theorem ConfValue_linefeed_twice_witness:
  "\<exists>t'. ConfValue [(''server'', [(''user'', ''a'' @ [LF])])] ''server'' ''user'' ''www'' 0 [] False = (True, ''www'', t') \<and>
     ConfValue t' ''server'' ''user'' ''www'' 0 [] False = (True, ''a '', t')"
  using ConfValue_linefeed_twice [of 0 "''server''" "[(''server'', [(''user'', ''a'' @ [LF])])]" "[]" "''user''" "''a'' @ [LF]" "[]" "''www''" "[]"]
  by (simp add: mm_count_def mm_range_def)




end
