(* ===== verification/ConfigFiles.thy ===== *)
theory ConfigFiles
  imports Kernel
begin

text \<open>
  The functions of \<open>ServerConfig\<close> on files and paths (\<open>src/configreader.cpp\<close>), \<open>InspIRCd::WritePID\<close>
  (\<open>src/inspircd.cpp\<close>) and the class \<open>FileReader\<close> (\<open>src/modules.cpp\<close>). They are stated for any state
  that extends the state of the kernel's interface.
\<close>

section \<open>Paths\<close>

text \<open>\<open>std::string::rfind\<close> of a string.\<close>

fun rfind_sub :: "string \<Rightarrow> string \<Rightarrow> nat option" where
  "rfind_sub pat [] = (if pat = [] then Some 0 else None)"
| "rfind_sub pat (c # cs) =
     (case rfind_sub pat cs of
        Some i \<Rightarrow> Some (Suc i)
      | None \<Rightarrow> if take (length pat) (c # cs) = pat then Some 0 else None)"

text \<open>\<open>CleanFilename\<close>: the pointer goes back to the last slash or backslash, but a separator at the start
  of the name is not passed over.\<close>

definition is_sep :: "char \<Rightarrow> bool" where "is_sep c \<longleftrightarrow> c = CHR ''/'' \<or> c = CHR 0x5C"

fun clean_scan :: "string \<Rightarrow> nat \<Rightarrow> nat" where
  "clean_scan name 0 = 0"
| "clean_scan name (Suc p) = (if Suc p < length name \<and> is_sep (name ! Suc p) then Suc p else clean_scan name p)"

definition CleanFilename :: "string \<Rightarrow> string" where
  "CleanFilename name = (let p = clean_scan name (length name) in if p \<noteq> 0 then drop (p + 1) name else name)"

text \<open>The path of an included file; \<open>None\<close> when the configuration's own directory cannot be told.\<close>

definition include_path :: "string \<Rightarrow> string \<Rightarrow> string option" where
  "include_path confname file =
     (let unslash = map (\<lambda>c. if c = CHR 0x5C then CHR ''/'' else c);
          newfile = unslash file; confpath = unslash confname
      in if (newfile = [] \<or> hd newfile \<noteq> CHR ''/'') \<and> find_sub ''://'' newfile = None then
           (case rfind_char (CHR ''/'') confpath of
              Some pos \<Rightarrow> Some (take pos confpath @ ''/'' @ newfile)
            | None \<Rightarrow> None)
         else Some newfile)"

definition GetFullProgDir :: "string \<Rightarrow> 'a io_scheme \<Rightarrow> string \<times> 'a io_scheme" where
  "GetFullProgDir argv0 s =
     (case syscall Sys_getcwd s of (r, s1) \<Rightarrow>
        if r_ret r < 0 then (''/'', s1)
        else
          let full = (if argv0 \<noteq> [] \<and> hd argv0 = CHR ''/'' then argv0 else r_data r @ ''/'' @ argv0)
          in (case rfind_sub ''/hottpd'' full of Some n \<Rightarrow> take n full | None \<Rightarrow> full, s1))"

section \<open>Tests\<close>

text \<open>The bit \<open>S_IFDIR\<close> is part of the codes of block devices and sockets too.\<close>

definition ifdir_bit :: "st_kind \<Rightarrow> bool" where
  "ifdir_bit k = (case k of S_DIR \<Rightarrow> True | S_BLK \<Rightarrow> True | S_SOCK \<Rightarrow> True | _ \<Rightarrow> False)"

definition FileExists :: "string \<Rightarrow> 'a io_scheme \<Rightarrow> bool \<times> 'a io_scheme" where
  "FileExists f s =
     (case syscall (Sys_stat f) s of (r, s1) \<Rightarrow>
        if r_ret r = - 1 then (False, s1)
        else if ifdir_bit (st_kind (r_stat r)) then (False, s1)
        else (case syscall (Sys_fopen f ''r'') s1 of (o1, s2) \<Rightarrow>
          if r_ret o1 < 0 then (False, s2) else (True, snd (syscall (Sys_fclose f) s2))))"

text \<open>The buffer \<open>work\<close>, cut at the last slash; without one it ends up empty.\<close>

definition dir_part :: "string \<Rightarrow> string" where
  "dir_part path =
     (let w = take 1023 (c_str path) in case rfind_char (CHR ''/'') w of Some i \<Rightarrow> take i w | None \<Rightarrow> [])"

definition DirValid :: "string \<Rightarrow> 'a io_scheme \<Rightarrow> bool \<times> 'a io_scheme" where
  "DirValid dirandfile s =
     (let work = dir_part dirandfile in
      case syscall Sys_getcwd s of (here, s1) \<Rightarrow>
        if r_ret here < 0 then (False, s1)
        else (case syscall (Sys_chdir work) s1 of (c1, s2) \<Rightarrow>
          if r_ret c1 = - 1 then (False, s2)
          else (case syscall Sys_getcwd s2 of (there, s3) \<Rightarrow>
            if r_ret there < 0 then (False, s3)
            else (case syscall (Sys_chdir (r_data here)) s3 of (c2, s4) \<Rightarrow>
              if r_ret c2 = - 1 then (False, s4)
              else (length (r_data there) \<ge> length work \<and> take (length work) (r_data there) = work, s4)))))"

section \<open>Reading files\<close>

text \<open>One call of \<open>fgets\<close> with a buffer of \<open>n + 1\<close> bytes: what it stores, the rest of the file, and whether
  it met the end.\<close>

definition fgets :: "nat \<Rightarrow> string \<Rightarrow> string \<times> string \<times> bool" where
  "fgets n s =
     (let l = takeWhile (\<lambda>c. c \<noteq> LF) s in
      if length l \<ge> n then (take n s, drop n s, False)
      else if length l < length s then (l @ [LF], drop (length l + 1) s, False)
      else (l, [], True))"

text \<open>The loop of \<open>ReadFile\<close>. The last character of what \<open>fgets\<close> stored is overwritten without a look at
  it, and a line that meets the end of the file is not kept. \<open>None\<close> is a write before the buffer,
  which a zero byte at the start of a line causes.\<close>

function read_lines :: "nat \<Rightarrow> string \<Rightarrow> string list option" where
  "read_lines n s =
     (if n = 0 \<or> s = [] then Some []
      else
        (case fgets n s of (line, rest, eof) \<Rightarrow>
           if c_str line = [] then None
           else if eof then Some []
           else
             let l = butlast (c_str line) in
             map_option (\<lambda>ls. (if l = [] then '' '' else l) # ls) (read_lines n rest)))"
  by pat_completeness auto
termination
  by (relation "measure (\<lambda>(n, s). length s)") (auto simp: fgets_def Let_def split: if_splits)

declare read_lines.simps [simp del]

definition readfile_path :: "string \<Rightarrow> string \<Rightarrow> string" where
  "readfile_path confname fname =
     (if hd fname \<noteq> CHR ''/'' \<and> hd fname \<noteq> CHR 0x5C then
        (case rfind_char (CHR ''/'') confname of
           Some pos \<Rightarrow> take pos confname @ ''/'' @ fname
         | None \<Rightarrow> (case rfind_char (CHR 0x5C) confname of
             Some pos \<Rightarrow> take pos confname @ [CHR 0x5C] @ fname
           | None \<Rightarrow> fname))
      else fname)"

text \<open>The lines, if the file can be read; \<open>None\<close> as in \<open>read_lines\<close>.\<close>

definition ReadFile :: "nat \<Rightarrow> string \<Rightarrow> string \<Rightarrow> 'a io_scheme \<Rightarrow> (string list option \<times> 'a io_scheme) option" where
  "ReadFile maxbuf confname fname s =
     (if fname = [] then Some (None, s)
      else
        let path = readfile_path confname fname in
        (case FileExists path s of (ok, s1) \<Rightarrow>
           if \<not> ok then Some (None, s1)
           else (case syscall (Sys_readfile path) s1 of (r, s2) \<Rightarrow>
             if r_ret r < 0 then Some (None, s2)
             else map_option (\<lambda>ls. (Some ls, s2)) (read_lines (maxbuf - 1) (r_data r)))))"

section \<open>The process id\<close>

definition pid_path :: "string \<Rightarrow> string \<Rightarrow> string" where
  "pid_path confname filename =
     (let fname = (if filename = [] then ''inspircd.pid'' else filename) in
      if hd fname \<noteq> CHR ''/'' then
        (case rfind_char (CHR ''/'') confname of Some pos \<Rightarrow> take pos confname @ ''/'' @ fname | None \<Rightarrow> fname)
      else fname)"

definition EXIT_STATUS_PID :: int where "EXIT_STATUS_PID = 9"

text \<open>\<open>Inl\<close> is the status the daemon exits with.\<close>

definition WritePID :: "(int \<Rightarrow> string) \<Rightarrow> string \<Rightarrow> string \<Rightarrow> 'a io_scheme \<Rightarrow> int + 'a io_scheme" where
  "WritePID show confname filename s =
     (let fname = pid_path confname filename in
      case syscall (Sys_fopen (c_str fname) ''w'') s of (o1, s1) \<Rightarrow>
        if r_ret o1 < 0 then Inl EXIT_STATUS_PID
        else (case syscall Sys_getpid s1 of (p, s2) \<Rightarrow>
          Inr (snd (syscall (Sys_write_file fname (show (r_ret p))) s2))))"

section \<open>\<open>FileReader\<close>\<close>

record file_reader =
  fc :: "string list"
  contentsize :: nat

definition CalcSize :: "file_reader \<Rightarrow> file_reader" where
  "CalcSize f = f\<lparr>contentsize := sum_list (map (\<lambda>l. length l + 2) (fc f))\<rparr>"

definition Contents :: "file_reader \<Rightarrow> string" where
  "Contents f = concat (map (\<lambda>l. l @ CRLF) (fc f))"

definition LoadFile :: "nat \<Rightarrow> string \<Rightarrow> string \<Rightarrow> file_reader \<times> 'a io_scheme \<Rightarrow> (file_reader \<times> 'a io_scheme) option" where
  "LoadFile maxbuf confname filename st = (case st of (f, s) \<Rightarrow> do {
     (r, s1) \<leftarrow> ReadFile maxbuf confname (c_str filename) s;
     Some (case r of None \<Rightarrow> (f, s1) | Some ls \<Rightarrow> (CalcSize (f\<lparr>fc := ls\<rparr>), s1))
   })"

definition FR_Exists :: "file_reader \<Rightarrow> bool" where "FR_Exists f \<longleftrightarrow> fc f \<noteq> []"

definition FileSize :: "file_reader \<Rightarrow> nat" where "FileSize f = length (fc f)"

text \<open>\<open>GetLine\<close> lets the number of lines itself through; \<open>None\<close> is the access past the end.\<close>

definition GetLine :: "int \<Rightarrow> file_reader \<Rightarrow> string option" where
  "GetLine x f =
     (if x < 0 \<or> nat x > length (fc f) then Some []
      else if nat x < length (fc f) then Some (fc f ! nat x) else None)"

section \<open>Facts\<close>

lemma Contents_size: "contentsize (CalcSize f) = length (Contents (CalcSize f))"
  by (simp add: CalcSize_def Contents_def length_concat comp_def)

lemma GetLine_off_by_one: "GetLine (int (length (fc f))) f = None"
  by (simp add: GetLine_def)

lemma LoadFile_size:
  assumes "LoadFile maxbuf confname filename (f, s) = Some (f', s')" and "contentsize f = length (Contents f)"
  shows "contentsize f' = length (Contents f')"
  using assms Contents_size by (auto simp: LoadFile_def split: bind_splits option.splits)

text \<open>A file of lines, each shorter than the buffer and without zero bytes, is read line by line.\<close>

lemma fgets_line:
  assumes "LF \<notin> set l" and "length l < n"
  shows "fgets n (l @ LF # rest) = (l @ [LF], rest, False)"
proof -
  have "takeWhile (\<lambda>c. c \<noteq> LF) (l @ LF # rest) = l" using assms(1) by (induction l) auto
  with assms(2) show ?thesis by (simp add: fgets_def)
qed

lemma read_lines_text:
  assumes "\<forall>l\<in>set ls. LF \<notin> set l \<and> length l < n \<and> (\<forall>c\<in>set l. ord c \<noteq> 0)"
  shows "read_lines n (concat (map (\<lambda>l. l @ [LF]) ls)) = Some (map (\<lambda>l. if l = [] then '' '' else l) ls)"
  using assms
proof (induction ls)
  case (Cons l ls)
  from Cons.prems have l: "LF \<notin> set l" "length l < n" "\<forall>c\<in>set l. ord c \<noteq> 0" by auto
  have "c_str (l @ [LF]) = l @ [LF]" using l(3) by (intro c_str_id) auto
  with Cons fgets_line [OF l(1,2), of "concat (map (\<lambda>l. l @ [LF]) ls)"] l(2) show ?case
    by (subst read_lines.simps) simp
qed (simp add: read_lines.simps)

text \<open>The directory test never looks at what follows the last slash.\<close>

lemma rfind_sep:
  "CHR ''/'' \<notin> set a \<Longrightarrow> rfind_char (CHR ''/'') (d @ CHR ''/'' # a) = Some (length d)"
  by (rule rfind_char_append)

lemma dir_part_sep:
  assumes "CHR ''/'' \<notin> set a" and "length d + 1 + length a \<le> 1023" and "\<forall>c\<in>set (d @ a). ord c \<noteq> 0"
  shows "dir_part (d @ CHR ''/'' # a) = d"
proof -
  have "c_str (d @ CHR ''/'' # a) = d @ CHR ''/'' # a" using assms(3) by (intro c_str_id) auto
  with assms(1,2) show ?thesis by (simp add: dir_part_def rfind_sep)
qed

text \<open>Claim C29: \<open>DirValid\<close>, which the configuration uses to demand that the document root is an existing
  directory, gives for a path without a slash at the end the same answer whatever its last
  component is: it only looks at the directory above.\<close>

theorem DirValid_ignores_last:
  assumes "CHR ''/'' \<notin> set a" and "CHR ''/'' \<notin> set b"
    and "length d + 1 + length a \<le> 1023" and "length d + 1 + length b \<le> 1023"
    and "\<forall>c\<in>set (d @ a @ b). ord c \<noteq> 0"
  shows "DirValid (d @ CHR ''/'' # a) s = DirValid (d @ CHR ''/'' # b) s"
proof -
  have "dir_part (d @ CHR ''/'' # a) = d" by (rule dir_part_sep) (use assms in auto)
  moreover have "dir_part (d @ CHR ''/'' # b) = d" by (rule dir_part_sep) (use assms in auto)
  ultimately have "dir_part (d @ CHR ''/'' # a) = dir_part (d @ CHR ''/'' # b)" by simp
  then show ?thesis unfolding DirValid_def by (simp only:)
qed

theorem DirValid_ignores_last_witness: "DirValid ''/srv/www'' = DirValid ''/srv/no such thing''"
  using DirValid_ignores_last [of "''www''" "''no such thing''" "''/srv''"] by fastforce

end
