(* ===== verification/ConfigRead.thy ===== *)
theory ConfigRead
  imports ConfigLookup ConfigFiles FileSystem
begin

text \<open>
  \<open>ServerConfig::Read\<close> up to the end of its \<open>try\<close> block (\<open>src/configreader.cpp\<close>): the file is loaded,
  the table \<open>Values\<close> is worked through with its validation functions, and the \<open>module\<close> sections are
  collected. An exception is \<open>Inl\<close> with its reason; what had been set before it stays set.
\<close>

text \<open>What the build fixes: \<open>SOMAXCONN\<close>, \<open>MOD_PATH\<close> and \<open>MAXBUF\<close>.\<close>

record build =
  b_somaxconn :: int
  b_modpath :: string
  b_maxbuf :: nat

datatype ConfigDataType = DT_NOTHING | DT_INTEGER | DT_CHARPTR | DT_BOOLEAN | DT_HOSTNAME | DT_NOSPACES | DT_IPADDRESS

type_synonym validator = "string \<Rightarrow> string \<Rightarrow> string \<Rightarrow> server \<Rightarrow> (string + string) \<times> server"

abbreviation upd_config :: "(server_config \<Rightarrow> server_config) \<Rightarrow> server \<Rightarrow> server" where
  "upd_config f s \<equiv> s\<lparr>Config := f (Config s)\<rparr>"

section \<open>Validation functions\<close>

text \<open>Each takes the tag, the name of the value and the item, and gives the item as it leaves it.\<close>

definition NoValidation :: validator where "NoValidation tag val item s = (Inr item, s)"

definition ValidateMaxTargets :: validator where
  "ValidateMaxTargets tag val item s =
     (Inr (if GetInteger item < 0 \<or> GetInteger item > 31 then ValueItem_int 20 else item), s)"

definition ValidateSoftLimit :: validator where
  "ValidateSoftLimit tag val item s =
     (Inr (if GetInteger item < 1 \<or> GetInteger item > int (MAXCLIENTS s) then ValueItem_int (int (MAXCLIENTS s)) else item), s)"

text \<open>\<open>ValidateMaxConn\<close> only warns.\<close>

definition ValidateMaxConn :: validator where "ValidateMaxConn tag val item s = (Inr item, s)"

text \<open>The words of \<open>/etc/resolv.conf\<close>: the first one after a word \<open>nameserver\<close>. At the end of the file
  the stream leaves the word as it was.\<close>

fun first_nameserver :: "string list \<Rightarrow> string option" where
  "first_nameserver [] = None"
| "first_nameserver (w # ws) =
     (if w = ''nameserver'' then (case ws of [] \<Rightarrow> Some w | v # _ \<Rightarrow> Some v) else first_nameserver ws)"

fun split_words :: "nat \<Rightarrow> string \<Rightarrow> string list" where
  "split_words 0 s = []"
| "split_words (Suc n) s = (case stream_word s of None \<Rightarrow> [] | Some (w, r) \<Rightarrow> w # split_words n r)"

definition ValidateDnsServer :: validator where
  "ValidateDnsServer tag val item s =
     (if item \<noteq> [] then (Inr item, s)
      else (case syscall (Sys_readfile ''/etc/resolv.conf'') s of (r, s1) \<Rightarrow>
        if r_ret r < 0 then (Inr ''127.0.0.1'', s1)
        else (Inr (case first_nameserver (split_words (length (r_data r)) (r_data r)) of
                     Some ns \<Rightarrow> c_str ns | None \<Rightarrow> ''127.0.0.1''), s1)))"

definition ValidateNetBufferSize :: validator where
  "ValidateNetBufferSize tag val item s =
     (Inr (if GetInteger item = 0 \<or> GetInteger item > 65535 \<or> GetInteger item < 1024 then ValueItem_int 10240 else item), s)"

definition log_level_of :: "string \<Rightarrow> log_level" where
  "log_level_of dbg =
     (if dbg = ''debug'' then DEBUG else if dbg = ''verbose'' then VERBOSE else if dbg = ''default'' then DEFAULT
      else if dbg = ''sparse'' then SPARSE else if dbg = ''none'' then NONE else DEFAULT)"

definition ValidateLogLevel :: validator where
  "ValidateLogLevel tag val item s =
     (Inr item, upd_config (\<lambda>c. c\<lparr>LogLevel := log_level_of item, debugging := (log_level_of item = DEBUG)\<rparr>) s)"

definition ValidateNotEmpty :: validator where
  "ValidateNotEmpty tag val item s =
     (if item = [] then Inl (''The value for '' @ tag @ '' cannot be empty!'') else Inr item, s)"

definition ValidateDir :: validator where
  "ValidateDir tag val item s =
     (case DirValid item s of (ok, s1) \<Rightarrow>
        (if ok then Inr item else Inl (''The value for '' @ tag @ '' must be an existing directory''), s1))"

section \<open>The table of values\<close>

datatype cfg_val = CV_Str string | CV_Int int | CV_Bool bool

record initial_config =
  ic_tag :: string
  ic_value :: string
  ic_default :: string
  ic_set :: "cfg_val \<Rightarrow> server_config \<Rightarrow> server_config"
  ic_type :: ConfigDataType
  ic_valid :: validator

definition set_str :: "(string \<Rightarrow> server_config \<Rightarrow> server_config) \<Rightarrow> cfg_val \<Rightarrow> server_config \<Rightarrow> server_config" where
  "set_str f v c = (case v of CV_Str x \<Rightarrow> f x c | _ \<Rightarrow> c)"

definition set_int :: "(int \<Rightarrow> server_config \<Rightarrow> server_config) \<Rightarrow> cfg_val \<Rightarrow> server_config \<Rightarrow> server_config" where
  "set_int f v c = (case v of CV_Int x \<Rightarrow> f x c | _ \<Rightarrow> c)"

definition set_bool :: "(bool \<Rightarrow> server_config \<Rightarrow> server_config) \<Rightarrow> cfg_val \<Rightarrow> server_config \<Rightarrow> server_config" where
  "set_bool f v c = (case v of CV_Bool x \<Rightarrow> f x c | _ \<Rightarrow> c)"

definition char_value :: "string \<Rightarrow> string \<Rightarrow> string \<Rightarrow> (string \<Rightarrow> server_config \<Rightarrow> server_config) \<Rightarrow> validator \<Rightarrow> initial_config" where
  "char_value tag val dflt f v =
     \<lparr>ic_tag = tag, ic_value = val, ic_default = dflt, ic_set = set_str f, ic_type = DT_CHARPTR, ic_valid = v\<rparr>"

definition int_value :: "string \<Rightarrow> string \<Rightarrow> string \<Rightarrow> (int \<Rightarrow> server_config \<Rightarrow> server_config) \<Rightarrow> validator \<Rightarrow> initial_config" where
  "int_value tag val dflt f v =
     \<lparr>ic_tag = tag, ic_value = val, ic_default = dflt, ic_set = set_int f, ic_type = DT_INTEGER, ic_valid = v\<rparr>"

definition bool_value :: "string \<Rightarrow> string \<Rightarrow> string \<Rightarrow> (bool \<Rightarrow> server_config \<Rightarrow> server_config) \<Rightarrow> validator \<Rightarrow> initial_config" where
  "bool_value tag val dflt f v =
     \<lparr>ic_tag = tag, ic_value = val, ic_default = dflt, ic_set = set_bool f, ic_type = DT_BOOLEAN, ic_valid = v\<rparr>"

definition config_values :: "build \<Rightarrow> server \<Rightarrow> initial_config list" where
  "config_values b s = [
     char_value ''server'' ''document-root'' [] (\<lambda>x c. c\<lparr>DocRoot := x\<rparr>) ValidateDir,
     int_value ''server'' ''softlimit'' (ConvNumeric (int (MAXCLIENTS s))) (\<lambda>x c. c\<lparr>SoftLimit := to_uint32 x\<rparr>) ValidateSoftLimit,
     char_value ''server'' ''loglevel'' ''default'' (\<lambda>x c. c) ValidateLogLevel,
     int_value ''server'' ''netbuffersize'' ''10240'' (\<lambda>x c. c\<lparr>NetBufferSize := x\<rparr>) ValidateNetBufferSize,
     char_value ''server'' ''moduledir'' (b_modpath b) (\<lambda>x c. c\<lparr>ModPath := x\<rparr>) NoValidation,
     char_value ''server'' ''customversion'' [] (\<lambda>x c. c\<lparr>CustomVersion := x\<rparr>) NoValidation,
     char_value ''server'' ''pidfile'' [] (\<lambda>x c. c\<lparr>PID := x\<rparr>) NoValidation,
     bool_value ''security'' ''follow-symlinks'' ''yes'' (\<lambda>x c. c\<lparr>FollowSymLinks := x\<rparr>) NoValidation,
     char_value ''security'' ''user'' [] (\<lambda>x c. c\<lparr>SetUser := x\<rparr>) NoValidation,
     char_value ''security'' ''group'' [] (\<lambda>x c. c\<lparr>SetGroup := x\<rparr>) NoValidation,
     char_value ''security'' ''chroot'' [] (\<lambda>x c. c\<lparr>ChRoot := x\<rparr>) NoValidation,
     int_value ''performance'' ''stat-cache-time'' ''2'' (\<lambda>x c. c\<lparr>StatCacheDuration := x\<rparr>) NoValidation,
     bool_value ''performance'' ''noatime'' ''yes'' (\<lambda>x c. c\<lparr>NoAtime := x\<rparr>) NoValidation,
     int_value ''performance'' ''max-conn-queue'' (ConvNumeric (b_somaxconn b)) (\<lambda>x c. c\<lparr>MaxConn := x\<rparr>) ValidateMaxConn,
     int_value ''performance'' ''keepalive-max'' ''30'' (\<lambda>x c. c\<lparr>KeepAliveMax := x\<rparr>) NoValidation,
     int_value ''performance'' ''timeout-frequency'' ''120'' (\<lambda>x c. c\<lparr>TimeoutCullFrequency := x\<rparr>) NoValidation,
     int_value ''performance'' ''timeout-total-lifetime'' ''30'' (\<lambda>x c. c\<lparr>TimeoutTotalLifetime := x\<rparr>) NoValidation,
     int_value ''performance'' ''timeout-idle-lifetime'' ''5'' (\<lambda>x c. c\<lparr>TimeoutIdleLifetime := x\<rparr>) NoValidation,
     int_value ''performance'' ''max-post-body'' ''1024'' (\<lambda>x c. c\<lparr>MaxPostBody := x\<rparr>) NoValidation,
     int_value ''performance'' ''max-dynamic-processes'' ''2'' (\<lambda>x c. c\<lparr>MaximumDynamicProcesses := x\<rparr>) NoValidation]"

section \<open>Reading\<close>

definition store_value :: "initial_config \<Rightarrow> string \<Rightarrow> server \<Rightarrow> (string + unit) \<times> server" where
  "store_value ic vi s =
     (let put = (\<lambda>v. upd_config (ic_set ic v) s) in
      case ic_type ic of
        DT_NOSPACES \<Rightarrow> (case ValidateNoSpaces vi (ic_tag ic) (ic_value ic) of Inl e \<Rightarrow> (Inl e, s) | Inr _ \<Rightarrow> (Inr (), put (CV_Str vi)))
      | DT_HOSTNAME \<Rightarrow> (case ValidateHostname vi (ic_tag ic) (ic_value ic) of Inl e \<Rightarrow> (Inl e, s) | Inr _ \<Rightarrow> (Inr (), put (CV_Str vi)))
      | DT_IPADDRESS \<Rightarrow> (case ValidateIP vi (ic_tag ic) (ic_value ic) False of Inl e \<Rightarrow> (Inl e, s) | Inr _ \<Rightarrow> (Inr (), put (CV_Str vi)))
      | DT_CHARPTR \<Rightarrow> (Inr (), put (CV_Str vi))
      | DT_INTEGER \<Rightarrow> (Inr (), put (CV_Int (GetInteger vi)))
      | DT_BOOLEAN \<Rightarrow> (Inr (), put (CV_Bool (GetBool vi)))
      | DT_NOTHING \<Rightarrow> (Inr (), s))"

definition read_value :: "build \<Rightarrow> initial_config \<Rightarrow> server \<Rightarrow> (string + unit) \<times> server" where
  "read_value b ic s =
     (case ConfValue_buf (b_maxbuf b) (config_data (Config s)) (ic_tag ic) (ic_value ic) (ic_default ic) 0 False of
        (_, item, t) \<Rightarrow>
          (case ic_valid ic (ic_tag ic) (ic_value ic) item (upd_config (\<lambda>c. c\<lparr>config_data := t\<rparr>) s) of
             (Inl e, s1) \<Rightarrow> (Inl e, s1)
           | (Inr vi, s1) \<Rightarrow> store_value ic vi s1))"

fun read_values :: "build \<Rightarrow> initial_config list \<Rightarrow> server \<Rightarrow> (string + unit) \<times> server" where
  "read_values b [] s = (Inr (), s)"
| "read_values b (ic # ics) s =
     (case read_value b ic s of (Inl e, s1) \<Rightarrow> (Inl e, s1) | (Inr _, s1) \<Rightarrow> read_values b ics s1)"

text \<open>The texts of the parser's errors, with the line end of \<open>std::endl\<close>.\<close>

definition conf_error_text :: "string \<Rightarrow> conf_error \<Rightarrow> string" where
  "conf_error_text fname e =
     (case e of
        CE_Open \<Rightarrow> ''File '' @ fname @ '' could not be opened.'' @ [LF]
      | CE_Line msg n \<Rightarrow> msg @ '': '' @ fname @ '':'' @ ConvNumeric (int n) @ [LF]
      | CE_End msg \<Rightarrow> msg @ '': '' @ fname @ [LF])"

text \<open>The first result is the error to report, or the lists of modules.\<close>

definition Read_config :: "build \<Rightarrow> server \<Rightarrow> (string + module_lists) \<times> server" where
  "Read_config b s =
     (case syscall (Sys_readfile (ConfigFileName s)) s of (r, s1) \<Rightarrow>
        (case LoadConf [] (if r_ret r < 0 then None else Some (r_data r)) of
           Inl e \<Rightarrow> (Inl (conf_error_text (ConfigFileName s) e), s1)
         | Inr newconfig \<Rightarrow>
             (case read_values b (config_values b s1) (upd_config (\<lambda>c. c\<lparr>config_data := newconfig\<rparr>) s1) of
                (Inl e, s2) \<Rightarrow> (Inl e, s2)
              | (Inr _, s2) \<Rightarrow>
                  let t = config_data (Config s2);
                      start = InitModule (GetAllModuleNames (\<lambda>_. \<lparr>v_flags = 0, v_api = 0\<rparr>) 0 (ModMgr s2));
                      (t', l) = read_modules (b_maxbuf b) 0 (ConfValueEnum t ''module'') t start
                  in (Inr (DoneModule l), upd_config (\<lambda>c. c\<lparr>config_data := t'\<rparr>) s2))))"

section \<open>The configuration as modules read it\<close>

text \<open>\<open>ConfigReader\<close> (\<open>src/modules.cpp\<close>). \<open>cr_data\<close> is \<open>None\<close> when \<open>data\<close> points at the configuration of
  the server, \<open>Some\<close> the object's own one (\<open>privatehash\<close>). \<open>readerror\<close>, which no code sets, is a field
  that keeps what the memory held.\<close>

record config_reader =
  cr_data :: "ConfigDataHash option"
  errorlog :: string
  readerror :: bool
  cr_error :: int

definition CONF_NO_ERROR :: int where "CONF_NO_ERROR = 0"
definition CONF_INT_NEGATIVE :: int where "CONF_INT_NEGATIVE = 0x80"
definition CONF_VALUE_NOT_FOUND :: int where "CONF_VALUE_NOT_FOUND = 0x100"
definition CONF_FILE_NOT_FOUND :: int where "CONF_FILE_NOT_FOUND = 0x200"

definition ConfigReader_new :: "bool \<Rightarrow> config_reader" where
  "ConfigReader_new mem = \<lparr>cr_data = None, errorlog = [], readerror = mem, cr_error = CONF_NO_ERROR\<rparr>"

text \<open>The second constructor keeps the entries made before an error; \<open>CONF_FILE_NOT_FOUND\<close> stands for any
  error of the file.\<close>

definition ConfigReader_file :: "bool \<Rightarrow> string \<Rightarrow> server \<Rightarrow> config_reader \<times> server" where
  "ConfigReader_file mem filename s =
     (case syscall (Sys_readfile filename) s of (r, s1) \<Rightarrow>
        let contents = (if r_ret r < 0 then None else Some (r_data r));
            c = \<lparr>cr_data = Some (LoadConf_left [] contents), errorlog = [], readerror = mem, cr_error = CONF_NO_ERROR\<rparr>
        in (case LoadConf [] contents of
              Inr t \<Rightarrow> (c, s1)
            | Inl e \<Rightarrow> (c\<lparr>errorlog := conf_error_text filename e, cr_error := CONF_FILE_NOT_FOUND\<rparr>, s1)))"

definition reader_data :: "config_reader \<times> server \<Rightarrow> ConfigDataHash" where
  "reader_data st = (case st of (c, s) \<Rightarrow> case cr_data c of Some t \<Rightarrow> t | None \<Rightarrow> config_data (Config s))"

definition set_reader_data :: "ConfigDataHash \<Rightarrow> config_reader \<times> server \<Rightarrow> config_reader \<times> server" where
  "set_reader_data t st = (case st of (c, s) \<Rightarrow>
     case cr_data c of Some _ \<Rightarrow> (c\<lparr>cr_data := Some t\<rparr>, s) | None \<Rightarrow> (c, upd_config (\<lambda>d. d\<lparr>config_data := t\<rparr>) s))"

definition ReadValue :: "string \<Rightarrow> string \<Rightarrow> string \<Rightarrow> nat \<Rightarrow> bool \<Rightarrow> config_reader \<times> server \<Rightarrow> string \<times> config_reader \<times> server" where
  "ReadValue tag name dflt index lf st =
     (case ConfValue (reader_data st) tag name dflt index [] lf of
        (ok, v, t) \<Rightarrow>
          (case set_reader_data t st of (c, s) \<Rightarrow>
             (v, (if ok then c else c\<lparr>cr_error := CONF_VALUE_NOT_FOUND\<rparr>), s)))"

definition ReadFlag :: "string \<Rightarrow> string \<Rightarrow> string \<Rightarrow> nat \<Rightarrow> config_reader \<times> server \<Rightarrow> bool \<times> config_reader \<times> server" where
  "ReadFlag tag name dflt index st =
     (case ConfValueBool (reader_data st) tag name dflt index of (b, t) \<Rightarrow> (b, set_reader_data t st))"

definition ReadInteger :: "string \<Rightarrow> string \<Rightarrow> string \<Rightarrow> nat \<Rightarrow> bool \<Rightarrow> config_reader \<times> server \<Rightarrow> int \<times> config_reader \<times> server" where
  "ReadInteger tag name dflt index need_positive st =
     (case ConfValueInteger (reader_data st) tag name dflt index of
        (r, t) \<Rightarrow>
          (case set_reader_data t st of (c, s) \<Rightarrow>
             (case r of
                None \<Rightarrow> (0, c\<lparr>cr_error := CONF_VALUE_NOT_FOUND\<rparr>, s)
              | Some n \<Rightarrow> if need_positive \<and> n < 0 then (0, c\<lparr>cr_error := CONF_INT_NEGATIVE\<rparr>, s) else (n, c, s))))"

definition GetError :: "config_reader \<Rightarrow> int \<times> config_reader" where
  "GetError c = (cr_error c, c\<lparr>cr_error := 0\<rparr>)"

definition Enumerate :: "string \<Rightarrow> config_reader \<times> server \<Rightarrow> nat" where
  "Enumerate tag st = ConfValueEnum (reader_data st) tag"

definition EnumerateValues :: "string \<Rightarrow> nat \<Rightarrow> config_reader \<times> server \<Rightarrow> nat" where
  "EnumerateValues tag index st = ConfVarEnum (reader_data st) tag index"

definition Verify :: "config_reader \<Rightarrow> bool" where "Verify c = readerror c"

lemma reader_data_set: "reader_data (set_reader_data t st) = t"
  by (auto simp: reader_data_def set_reader_data_def split: prod.splits option.splits)

lemma ReadInteger_positive:
  "ReadInteger tag name dflt index True st = (n, st') \<Longrightarrow> 0 \<le> n"
  by (auto simp: ReadInteger_def split: prod.splits option.splits if_splits)

section \<open>What holds after reading\<close>

text \<open>\<open>ServerConfig::ServerConfig\<close>; members that it does not set keep what the memory held.\<close>

definition ServerConfig_new :: "build \<Rightarrow> nat \<Rightarrow> server_config \<Rightarrow> server_config" where
  "ServerConfig_new b maxclients c =
     c\<lparr>CustomVersion := [], DocRoot := [], ModPath := [], MyExecutable := [], PID := [], log_file := False,
       forcedebug := False, nofork := False, writelog := True, NetBufferSize := 10240, SoftLimit := maxclients,
       MaxConn := b_somaxconn b, debugging := False, LogLevel := DEFAULT, StatCacheDuration := 2,
       NoAtime := True, FollowSymLinks := True, KeepAliveMax := 30\<rparr>"

text \<open>A property of the server that no setter and no validation function of a list of values can
  break survives the reading of that list.\<close>

definition keeps :: "(server \<Rightarrow> bool) \<Rightarrow> initial_config \<Rightarrow> bool" where
  "keeps P ic \<longleftrightarrow> (\<forall>v s. P s \<longrightarrow> P (upd_config (ic_set ic v) s)) \<and>
     (\<forall>tag val item s r s'. ic_valid ic tag val item s = (r, s') \<longrightarrow> P s \<longrightarrow> P s')"

definition ignores_data :: "(server \<Rightarrow> bool) \<Rightarrow> bool" where
  "ignores_data P \<longleftrightarrow> (\<forall>s t. P (upd_config (\<lambda>c. c\<lparr>config_data := t\<rparr>) s) \<longleftrightarrow> P s)"

text \<open>Reading one value: the validation function gets the item the configuration has, and the setter what
  the validation function made of it.\<close>

lemma read_value_cases:
  assumes "read_value b ic s = (r, s')"
  obtains item t v s1 where
    "ic_valid ic (ic_tag ic) (ic_value ic) item (upd_config (\<lambda>c. c\<lparr>config_data := t\<rparr>) s) = (v, s1)"
    "case v of Inl e \<Rightarrow> r = Inl e \<and> s' = s1 | Inr vi \<Rightarrow> store_value ic vi s1 = (r, s')"
proof -
  obtain x item t where c: "ConfValue_buf (b_maxbuf b) (config_data (Config s)) (ic_tag ic) (ic_value ic) (ic_default ic) 0 False = (x, item, t)"
    by (cases rule: prod_cases3)
  obtain v s1 where v: "ic_valid ic (ic_tag ic) (ic_value ic) item (upd_config (\<lambda>c. c\<lparr>config_data := t\<rparr>) s) = (v, s1)"
    by fastforce
  show ?thesis by (rule that [OF v]) (use assms c v in \<open>cases v; simp add: read_value_def\<close>)
qed

lemma keeps_read_value:
  assumes "keeps P ic" and "ignores_data P" and "read_value b ic s = (r, s')" and "P s"
  shows "P s'"
proof -
  obtain item t v s1 where v: "ic_valid ic (ic_tag ic) (ic_value ic) item (upd_config (\<lambda>c. c\<lparr>config_data := t\<rparr>) s) = (v, s1)"
    and r: "case v of Inl e \<Rightarrow> r = Inl e \<and> s' = s1 | Inr vi \<Rightarrow> store_value ic vi s1 = (r, s')"
    by (rule read_value_cases [OF assms(3)])
  have "P (upd_config (\<lambda>c. c\<lparr>config_data := t\<rparr>) s)" using assms(2,4) unfolding ignores_data_def by blast
  with v assms(1) have P1: "P s1" unfolding keeps_def by blast
  then have put: "P (upd_config (ic_set ic w) s1)" for w using assms(1) unfolding keeps_def by blast
  show ?thesis
    using r P1 put by (cases v) (auto simp: store_value_def Let_def split: ConfigDataType.splits sum.splits)
qed

lemma keeps_read_values:
  assumes "\<forall>ic\<in>set ics. keeps P ic" and "ignores_data P" and "read_values b ics s = (r, s')" and "P s"
  shows "P s'"
  using assms(1,3,4)
proof (induction ics arbitrary: s)
  case (Cons ic ics)
  obtain r1 s1 where v: "read_value b ic s = (r1, s1)" by fastforce
  have "P s1" by (rule keeps_read_value [OF _ assms(2) v]) (use Cons.prems in auto)
  with Cons v show ?case by (cases r1) auto
qed simp

lemma read_values_Cons:
  assumes "read_values b (ic # ics) s = (Inr u, s')"
  obtains s1 where "read_value b ic s = (Inr (), s1)" "read_values b ics s1 = (Inr u, s')"
proof -
  obtain r s1 where "read_value b ic s = (r, s1)" by fastforce
  with assms that show ?thesis by (cases r) auto
qed

lemma read_int_value:
  assumes "read_value b (int_value tag val d f V) s = (Inr u, s')"
  obtains item t vi s1 where "V tag val item (upd_config (\<lambda>c. c\<lparr>config_data := t\<rparr>) s) = (Inr vi, s1)"
    "s' = upd_config (f (GetInteger vi)) s1"
proof -
  have sel: "ic_valid (int_value tag val d f V) = V" "ic_tag (int_value tag val d f V) = tag"
    "ic_value (int_value tag val d f V) = val" by (simp_all add: int_value_def)
  from read_value_cases [OF assms, unfolded sel] obtain item t v s1
    where v: "V tag val item (upd_config (\<lambda>c. c\<lparr>config_data := t\<rparr>) s) = (v, s1)"
      and r: "case v of Inl e \<Rightarrow> Inr u = Inl e \<and> s' = s1 | Inr vi \<Rightarrow> store_value (int_value tag val d f V) vi s1 = (Inr u, s')"
    by blast
  with that show ?thesis by (cases v) (auto simp: store_value_def int_value_def set_int_def)
qed

definition same_limits :: "server \<Rightarrow> server \<Rightarrow> bool" where
  "same_limits s s' \<longleftrightarrow> MAXCLIENTS s' = MAXCLIENTS s \<and> SoftLimit (Config s') = SoftLimit (Config s) \<and>
     NetBufferSize (Config s') = NetBufferSize (Config s)"

lemma valid_same_limits:
  "ValidateDir tag val item s = (r, s') \<Longrightarrow> same_limits s s'"
  "ValidateSoftLimit tag val item s = (r, s') \<Longrightarrow> same_limits s s'"
  "ValidateNetBufferSize tag val item s = (r, s') \<Longrightarrow> same_limits s s'"
  "ValidateMaxConn tag val item s = (r, s') \<Longrightarrow> same_limits s s'"
  "ValidateLogLevel tag val item s = (r, s') \<Longrightarrow> same_limits s s'"
  "NoValidation tag val item s = (r, s') \<Longrightarrow> same_limits s s'"
proof -
  have io: "srv_io s s'" if "DirValid p s = (ok, s')" for p ok s'
    using that by (auto simp: DirValid_def Let_def split: prod.splits if_splits dest!: syscall_frame intro: io_frame_trans)
  show "ValidateDir tag val item s = (r, s') \<Longrightarrow> same_limits s s'"
    by (auto simp: ValidateDir_def same_limits_def split: prod.splits dest!: io simp: srv_io_fields)
qed (auto simp: ValidateSoftLimit_def ValidateNetBufferSize_def ValidateMaxConn_def ValidateLogLevel_def NoValidation_def same_limits_def)

text \<open>The two limits, as predicates that are established one after the other.\<close>

definition soft_ok :: "nat \<Rightarrow> server \<Rightarrow> bool" where
  "soft_ok n s \<longleftrightarrow> MAXCLIENTS s = n \<and> 1 \<le> SoftLimit (Config s) \<and> SoftLimit (Config s) \<le> n"

definition netbuf_ok :: "nat \<Rightarrow> server \<Rightarrow> bool" where
  "netbuf_ok n s \<longleftrightarrow> soft_ok n s \<and> 1024 \<le> NetBufferSize (Config s) \<and> NetBufferSize (Config s) \<le> 65535"

lemma GetInteger_item: "- (2 ^ 31) \<le> n \<Longrightarrow> n < 2 ^ 31 \<Longrightarrow> GetInteger (ValueItem_int n) = n"
proof -
  assume n: "- (2 ^ 31) \<le> n" "n < 2 ^ 31"
  have "\<forall>c\<in>set (ConvNumeric n). ord c \<noteq> 0"
    by (auto simp: ConvNumeric_def isdigit_c_def dest!: num_digits_isdigit)
  then have "c_str (ConvNumeric n) = ConvNumeric n" by (rule c_str_id)
  moreover have "ConvNumeric n \<noteq> []" by (simp add: ConvNumeric_def)
  ultimately show ?thesis using atoi_ConvNumeric [of n "[]"] n by (simp add: GetInteger_def ValueItem_int_def)
qed

lemma ignores_ok [simp]: "ignores_data (\<lambda>s. MAXCLIENTS s = n)" "ignores_data (soft_ok n)" "ignores_data (netbuf_ok n)"
  by (simp_all add: ignores_data_def soft_ok_def netbuf_ok_def)

definition limit_stable :: "(server \<Rightarrow> bool) \<Rightarrow> bool" where
  "limit_stable P \<longleftrightarrow> (\<forall>s s'. same_limits s s' \<longrightarrow> P s \<longrightarrow> P s')"

lemma limit_stable_ok [simp]: "limit_stable (\<lambda>s. MAXCLIENTS s = n)" "limit_stable (soft_ok n)" "limit_stable (netbuf_ok n)"
  by (simp_all add: limit_stable_def same_limits_def soft_ok_def netbuf_ok_def)

lemma keeps_quiet:
  assumes "limit_stable P" and "\<And>v c. SoftLimit (ic_set ic v c) = SoftLimit c \<and> NetBufferSize (ic_set ic v c) = NetBufferSize c"
    and "\<And>tag val item s r s'. ic_valid ic tag val item s = (r, s') \<Longrightarrow> same_limits s s'"
  shows "keeps P ic"
proof -
  have "same_limits s (upd_config (ic_set ic v) s)" for v s using assms(2) by (simp add: same_limits_def)
  with assms(1,3) show ?thesis unfolding keeps_def limit_stable_def by blast
qed

text \<open>Every value but the two limits.\<close>

definition other_value :: "initial_config \<Rightarrow> bool" where
  "other_value ic \<longleftrightarrow> (\<forall>v c. SoftLimit (ic_set ic v c) = SoftLimit c \<and> NetBufferSize (ic_set ic v c) = NetBufferSize c) \<and>
     (\<forall>tag val item s r s'. ic_valid ic tag val item s = (r, s') \<longrightarrow> same_limits s s')"

lemma other_values:
  "(\<And>x c. SoftLimit (f x c) = SoftLimit c \<and> NetBufferSize (f x c) = NetBufferSize c) \<Longrightarrow>
   (\<And>tag val item s r s'. V tag val item s = (r, s') \<Longrightarrow> same_limits s s') \<Longrightarrow>
   other_value (char_value tag val d f V)"
  "(\<And>x c. SoftLimit (g x c) = SoftLimit c \<and> NetBufferSize (g x c) = NetBufferSize c) \<Longrightarrow>
   (\<And>tag val item s r s'. V tag val item s = (r, s') \<Longrightarrow> same_limits s s') \<Longrightarrow>
   other_value (int_value tag val d g V)"
  "(\<And>x c. SoftLimit (h x c) = SoftLimit c \<and> NetBufferSize (h x c) = NetBufferSize c) \<Longrightarrow>
   (\<And>tag val item s r s'. V tag val item s = (r, s') \<Longrightarrow> same_limits s s') \<Longrightarrow>
   other_value (bool_value tag val d h V)"
  by (auto simp: other_value_def char_value_def int_value_def bool_value_def set_str_def set_int_def set_bool_def split: cfg_val.splits)

lemma keeps_other: "limit_stable P \<Longrightarrow> other_value ic \<Longrightarrow> keeps P ic"
  by (rule keeps_quiet) (auto simp: other_value_def)

lemma config_values_split:
  "\<exists>dir soft lvl net rest. config_values b s = dir # soft # lvl # net # rest \<and>
    soft = int_value ''server'' ''softlimit'' (ConvNumeric (int (MAXCLIENTS s))) (\<lambda>x c. c\<lparr>SoftLimit := to_uint32 x\<rparr>) ValidateSoftLimit \<and>
    net = int_value ''server'' ''netbuffersize'' ''10240'' (\<lambda>x c. c\<lparr>NetBufferSize := x\<rparr>) ValidateNetBufferSize \<and>
    (\<forall>ic\<in>set (dir # lvl # rest). other_value ic)"
proof -
  have "\<forall>ic\<in>set (nths (config_values b s) (- {1, 3})). other_value ic"
    by (simp add: config_values_def nths_Cons, intro conjI other_values) (auto dest: valid_same_limits)
  then show ?thesis by (simp add: config_values_def nths_Cons)
qed

lemma SoftLimit_set:
  assumes "1 \<le> n" and "int n < 2 ^ 31" and "ValidateSoftLimit tag val item s = (Inr vi, s1)" and "MAXCLIENTS s = n"
  shows "1 \<le> to_uint32 (GetInteger vi) \<and> to_uint32 (GetInteger vi) \<le> n"
proof -
  have "1 \<le> GetInteger vi \<and> GetInteger vi \<le> int n"
    using assms GetInteger_item [of "int n"] by (auto simp: ValidateSoftLimit_def split: if_splits)
  moreover from this assms(2) have "GetInteger vi mod 2 ^ 32 = GetInteger vi" by simp
  ultimately show ?thesis by (simp add: to_uint32_def le_nat_iff nat_le_iff)
qed

lemma NetBufferSize_set:
  assumes "ValidateNetBufferSize tag val item s = (Inr vi, s1)"
  shows "1024 \<le> GetInteger vi \<and> GetInteger vi \<le> 65535"
  using assms GetInteger_item [of 10240] by (auto simp: ValidateNetBufferSize_def split: if_splits)

lemma read_values_limits:
  assumes "read_values b (config_values b s) s1 = (Inr u, s')" and "MAXCLIENTS s = n" "MAXCLIENTS s1 = n"
    and "1 \<le> n" and "int n < 2 ^ 31"
  shows "netbuf_ok n s'"
proof -
  obtain dir soft lvl net rest where cv: "config_values b s = dir # soft # lvl # net # rest"
    and soft: "soft = int_value ''server'' ''softlimit'' (ConvNumeric (int (MAXCLIENTS s))) (\<lambda>x c. c\<lparr>SoftLimit := to_uint32 x\<rparr>) ValidateSoftLimit"
    and net: "net = int_value ''server'' ''netbuffersize'' ''10240'' (\<lambda>x c. c\<lparr>NetBufferSize := x\<rparr>) ValidateNetBufferSize"
    and other: "\<forall>ic\<in>set (dir # lvl # rest). other_value ic"
    using config_values_split [of b s] by blast
  obtain s2 where 1: "read_value b dir s1 = (Inr (), s2)" "read_values b (soft # lvl # net # rest) s2 = (Inr u, s')"
    using assms(1) cv by (metis read_values_Cons)
  obtain s3 where 2: "read_value b soft s2 = (Inr (), s3)" "read_values b (lvl # net # rest) s3 = (Inr u, s')"
    using 1(2) by (metis read_values_Cons)
  obtain s4 where 3: "read_value b lvl s3 = (Inr (), s4)" "read_values b (net # rest) s4 = (Inr u, s')"
    using 2(2) by (metis read_values_Cons)
  obtain s5 where 4: "read_value b net s4 = (Inr (), s5)" "read_values b rest s5 = (Inr u, s')"
    using 3(2) by (metis read_values_Cons)
  have m2: "MAXCLIENTS s2 = n"
    by (rule keeps_read_value [OF keeps_other [of "\<lambda>s. MAXCLIENTS s = n"] _ 1(1)]) (use other assms(3) in auto)
  have "soft_ok n s3"
  proof -
    obtain item t vi t1 where v: "ValidateSoftLimit ''server'' ''softlimit'' item (upd_config (\<lambda>c. c\<lparr>config_data := t\<rparr>) s2) = (Inr vi, t1)"
      and s3: "s3 = upd_config (\<lambda>c. c\<lparr>SoftLimit := to_uint32 (GetInteger vi)\<rparr>) t1"
      by (rule read_int_value [OF 2(1) [unfolded soft]])
    have "MAXCLIENTS t1 = n" using valid_same_limits(2) [OF v] m2 by (simp add: same_limits_def)
    with SoftLimit_set [OF assms(4,5) v] m2 s3 show ?thesis by (simp add: soft_ok_def)
  qed
  then have p4: "soft_ok n s4"
    by (rule keeps_read_value [OF keeps_other _ 3(1), rotated 3]) (use other in auto)
  have "netbuf_ok n s5"
  proof -
    obtain item t vi t1 where v: "ValidateNetBufferSize ''server'' ''netbuffersize'' item (upd_config (\<lambda>c. c\<lparr>config_data := t\<rparr>) s4) = (Inr vi, t1)"
      and s5: "s5 = upd_config (\<lambda>c. c\<lparr>NetBufferSize := GetInteger vi\<rparr>) t1"
      by (rule read_int_value [OF 4(1) [unfolded net]])
    have "soft_ok n t1" using valid_same_limits(3) [OF v] p4 by (simp add: same_limits_def soft_ok_def)
    with NetBufferSize_set [OF v] s5 show ?thesis by (simp add: netbuf_ok_def soft_ok_def)
  qed
  moreover have "\<forall>ic\<in>set rest. keeps (netbuf_ok n) ic" using other keeps_other [OF limit_stable_ok(3)] by simp
  ultimately show ?thesis using keeps_read_values [OF _ ignores_ok(3) 4(2)] by blast
qed

text \<open>Claim C30: after a configuration has been read without an error, the limit on connections lies between one
  and \<open>MAXCLIENTS\<close> and the size of the read buffer between 1024 and 65535, whatever the file says.\<close>

theorem Read_config_limits:
  assumes "Read_config b s = (Inr l, s')" and "1 \<le> MAXCLIENTS s" and "int (MAXCLIENTS s) < 2 ^ 31"
  shows "1 \<le> SoftLimit (Config s') \<and> SoftLimit (Config s') \<le> MAXCLIENTS s \<and>
    1024 \<le> NetBufferSize (Config s') \<and> NetBufferSize (Config s') \<le> 65535"
proof -
  obtain r s1 where f: "syscall (Sys_readfile (ConfigFileName s)) s = (r, s1)" by fastforce
  have m: "MAXCLIENTS s1 = MAXCLIENTS s" by (rule srv_io_fields [OF syscall_frame [OF f]])
  from assms(1) f obtain nc s2 t where rv: "read_values b (config_values b s1) (upd_config (\<lambda>c. c\<lparr>config_data := nc\<rparr>) s1) = (Inr (), s2)"
    and s': "s' = upd_config (\<lambda>c. c\<lparr>config_data := t\<rparr>) s2"
    by (auto simp: Read_config_def Let_def split: sum.splits prod.splits unit.splits)
  have "netbuf_ok (MAXCLIENTS s) s2"
    by (rule read_values_limits [OF rv]) (use m assms(2,3) in auto)
  then show ?thesis by (simp add: s' netbuf_ok_def soft_ok_def)
qed

definition build_demo :: build where
  "build_demo = \<lparr>b_somaxconn = 128, b_modpath = ''/mods'', b_maxbuf = 514\<rparr>"

definition cfg_demo :: "string list \<Rightarrow> server" where
  "cfg_demo ls = fs_demo\<lparr>world := (\<lambda>tr c. (quiet_kernel tr c)\<lparr>r_data :=
     (case c of Sys_readfile p \<Rightarrow> concat (map (\<lambda>l. l @ [LF]) ls) | _ \<Rightarrow> ''/srv'')\<rparr>)\<rparr>"

lemma cfg_demo_reads:
  "\<not> isl (fst (Read_config build_demo (cfg_demo [''server {'', ''document-root = /srv/www'', ''softlimit = 50'', ''netbuffersize = 1024'', ''}''])))"
  by code_simp

theorem Read_config_limits_witness:
  "\<exists>l s'. Read_config build_demo (cfg_demo [''server {'', ''document-root = /srv/www'', ''softlimit = 50'', ''netbuffersize = 1024'', ''}'']) = (Inr l, s') \<and>
     1 \<le> SoftLimit (Config s') \<and> SoftLimit (Config s') \<le> 32 \<and> 1024 \<le> NetBufferSize (Config s')"
proof -
  let ?s = "cfg_demo [''server {'', ''document-root = /srv/www'', ''softlimit = 50'', ''netbuffersize = 1024'', ''}'']"
  obtain l s' where r: "Read_config build_demo ?s = (Inr l, s')"
    using cfg_demo_reads by (metis isl_def prod.collapse sum.collapse(2))
  have "MAXCLIENTS ?s = 32" by (simp add: cfg_demo_def fs_demo_def)
  with r Read_config_limits [OF r] show ?thesis by simp
qed

text \<open>Claim C31: when the file does not parse, nothing of it takes effect: the configuration stays exactly as it
  was, and the error names the file.\<close>

theorem Read_config_parse_error:
  assumes "LoadConf [] (let r = world s (trace s) (Sys_readfile (ConfigFileName s)) in if r_ret r < 0 then None else Some (r_data r)) = Inl e"
    and "Read_config b s = (r, s')"
  shows "r = Inl (conf_error_text (ConfigFileName s) e) \<and> Config s' = Config s \<and> ModMgr s' = ModMgr s"
proof -
  obtain rep s1 where f: "syscall (Sys_readfile (ConfigFileName s)) s = (rep, s1)" by fastforce
  with assms syscall_reply [OF f] srv_io_fields [OF syscall_frame [OF f]] show ?thesis
    by (simp add: Read_config_def Let_def)
qed


theorem Read_config_parse_error_witness:
  "\<exists>s'. Read_config build_demo (cfg_demo [''server {'']) =
     (Inl (''Unterminated section at end of file: /etc/hottpd.conf'' @ [LF]), s') \<and> Config s' = Config (cfg_demo [''server {''])"
proof -
  let ?s = "cfg_demo [''server {'']"
  obtain r s' where r: "Read_config build_demo ?s = (r, s')" by fastforce
  have "LoadConf [] (let r = world ?s (trace ?s) (Sys_readfile (ConfigFileName ?s)) in if r_ret r < 0 then None else Some (r_data r)) =
      Inl (CE_End ''Unterminated section at end of file'')"
    by (simp add: cfg_demo_def fs_demo_def quiet_kernel_def LoadConf_def conf_init_def conf_char_def conf_step_defs
        conf_eol_def conf_eof_def)
  from Read_config_parse_error [OF this r] r show ?thesis
    by (simp add: conf_error_text_def cfg_demo_def fs_demo_def)
qed

end
