(* ===== verification/CullSteps.thy ===== *)
theory CullSteps
  imports ConnEvents
begin

text \<open>
  What holds of every operation of a connection without its invariant, with output of CGI programs
  coming in at any time: it keeps its address and its descriptor, never stops quitting, and is
  appended to the cull list exactly when it starts quitting, while the rest of the server
  (other connections, configuration, clock, listeners) stays as it is.
\<close>

definition kstep :: "nat \<times> int \<times> bool \<times> server \<Rightarrow> nat \<times> int \<times> bool \<times> server \<Rightarrow> bool" where
  "kstep a b \<longleftrightarrow> (case (a, b) of ((p, f, q, s), (p', f', q', s')) \<Rightarrow>
     p' = p \<and> f' = f \<and> (q \<longrightarrow> q') \<and> srv_same s s' \<and> culls s' = culls s @ (if q' \<and> \<not> q then [p] else []))"

abbreviation key :: "cstate \<Rightarrow> nat \<times> int \<times> bool \<times> server" where
  "key st \<equiv> (this_ptr (fst st), fd (fst st), quitting (fst st), snd st)"

definition csteps :: "(cstate \<Rightarrow> cstate option) \<Rightarrow> bool" where
  "csteps f \<longleftrightarrow> (\<forall>st st'. f st = Some st' \<longrightarrow> kstep (key st) (key st'))"

lemma cstepsD: "csteps f \<Longrightarrow> f st = Some st' \<Longrightarrow> kstep (key st) (key st')"
  unfolding csteps_def by blast

lemma cstepsD2:
  "csteps f \<Longrightarrow> f st = Some (c', s') \<Longrightarrow>
   kstep (this_ptr (fst st), fd (fst st), quitting (fst st), snd st) (this_ptr c', fd c', quitting c', s')"
  by (drule (1) cstepsD) simp

lemma cstepsI: "(\<And>c s st'. f (c, s) = Some st' \<Longrightarrow> kstep (this_ptr c, fd c, quitting c, s) (key st')) \<Longrightarrow> csteps f"
  unfolding csteps_def by auto

lemma kstep_refl [simp, intro]: "kstep a a"
  by (cases a) (simp add: kstep_def)

lemma kstep_trans: "kstep a b \<Longrightarrow> kstep b c \<Longrightarrow> kstep a c"
proof -
  assume 1: "kstep a b" and 2: "kstep b c"
  obtain p f q s where a: "a = (p, f, q, s)" by (cases a)
  obtain p' f' q' s' where b: "b = (p', f', q', s')" by (cases b)
  obtain p'' f'' q'' s'' where c: "c = (p'', f'', q'', s'')" by (cases c)
  have "srv_same s s''" using 1 2 srv_same_trans [of s s' s''] by (simp add: a b c kstep_def)
  then show ?thesis using 1 2 by (cases q; cases q') (simp_all add: a b c kstep_def)
qed

lemma kstep_srv: "srv_step s s' \<Longrightarrow> kstep (p, f, q, s) (p, f, q, s')"
  by (simp add: kstep_def srv_step_def)

lemma kstep_syscall: "syscall c s = (r, s') \<Longrightarrow> kstep (p, f, q, s) (p, f, q, s')"
proof -
  assume e: "syscall c s = (r, s')"
  note fr = syscall_frame [OF e]
  have "srv_same s s'" using cache_ok_io [OF fr] syscall_trace [OF e] by (auto simp: srv_same_def srv_io_fields [OF fr])
  then show ?thesis by (simp add: kstep_def srv_io_fields [OF fr])
qed

lemma kstep_Delete: "kstep (key st) (key (Delete st))"
  by (cases st) (auto simp: kstep_def Delete_def AddItem_def srv_same_def cache_ok_def stat_cache_def)

lemma kstep_then_Delete:
  "kstep k (this_ptr c, fd c, quitting c, s) \<Longrightarrow>
   kstep k (this_ptr (fst (Delete (c, s))), fd c, True, snd (Delete (c, s)))"
  using kstep_trans [OF _ kstep_Delete [of "(c, s)"], of k] by simp

lemma kstep_Close: "kstep (p, f, q, s) (p, f, q, snd (SE_Close sk s))"
  by (rule kstep_srv) simp

lemma conn_WantWrite_csteps: "csteps conn_WantWrite"
  by (rule cstepsI) (auto simp: conn_WantWrite_def dest!: WantWrite_srv_step intro: kstep_srv split: bind_splits)

lemma Write_csteps: "csteps (Write txt)"
  by (rule cstepsI)
    (auto simp: Write_def AddWriteBuf_def split: if_splits dest!: cstepsD [OF conn_WantWrite_csteps])

section \<open>Writing and the end of a request\<close>

lemma EndRequest_csteps:
  assumes "csteps chk"
  shows "csteps (EndRequest chk)"
proof (rule cstepsI)
  fix c s st' assume e: "EndRequest chk (c, s) = Some st'"
  show "kstep (this_ptr c, fd c, quitting c, s) (key st')"
  proof (cases "keepalive c")
    case False
    with e kstep_Delete [of "(c\<lparr>RequestsCompleted := RequestsCompleted c + 1, State := HTTP_FINISHED\<rparr>, s)"]
    show ?thesis by (simp add: EndRequest_def Let_def)
  next
    case True
    define s2 where "s2 = (if filefd c > - 1 then snd (SE_Close (filefd c) s) else s)"
    have 1: "kstep (this_ptr c, fd c, quitting c, s) (this_ptr c, fd c, quitting c, s2)"
      by (simp add: s2_def kstep_Close)
    from e True have "kstep (this_ptr c, fd c, quitting c, s2) (key st')"
      by (auto simp: EndRequest_def Let_def s2_def split: if_splits dest!: cstepsD [OF assms])
    with 1 show ?thesis by (rule kstep_trans)
  qed
qed

lemma ServeFile_kstep: "ServeFile sk file sent sz s = (re, sent', s') \<Longrightarrow> kstep (p, f, q, s) (p, f, q, s')"
  by (auto simp: ServeFile_def Let_def split: prod.splits if_splits
      dest!: kstep_syscall [where p = p and f = f and q = q] elim!: kstep_trans)

lemma SendStaticData_csteps:
  assumes "csteps chk"
  shows "csteps (SendStaticData chk)"
proof (rule cstepsI)
  fix c s st' assume e: "SendStaticData chk (c, s) = Some st'"
  define st1 where "st1 = (if filefd c < 0 then Delete (c, s) else (c, s))"
  obtain c1 s1 where st1: "st1 = (c1, s1)" by (cases st1)
  have 1: "kstep (this_ptr c, fd c, quitting c, s) (key (c1, s1))"
    using kstep_Delete [of "(c, s)"] by (simp add: st1 [symmetric] st1_def split: if_splits)
  obtain re sent s2 where f: "ServeFile (fd c1) (filefd c1) (rfilesent c1) (rfilesize c1) s1 = (re, sent, s2)"
    by (cases rule: prod_cases3)
  note 2 = ServeFile_kstep [OF f, of "this_ptr c1" "fd c1" "quitting c1"]
  have "kstep (this_ptr c1, fd c1, quitting c1, s2) (key st')"
    using e st1 f kstep_Delete [of "(c1\<lparr>rfilesent := sent\<rparr>, s2)"]
    by (auto simp: SendStaticData_def st1_def Let_def split: if_splits
        dest!: cstepsD [OF EndRequest_csteps [OF assms]] cstepsD [OF conn_WantWrite_csteps])
  with 1 2 show "kstep (this_ptr c, fd c, quitting c, s) (key st')" by (auto intro: kstep_trans)
qed

lemma flush_send_kstep:
  assumes "flush_send (c, s) = Some (go, st')"
  shows "kstep (this_ptr c, fd c, quitting c, s) (key st')"
proof (cases "sendq c \<noteq> [] \<and> fd c \<noteq> FD_MAGIC_NUMBER")
  case True
  obtain r s1 where call: "syscall (Sys_send (fd c) (sendq c)) s = (r, s1)" by fastforce
  note 1 = kstep_syscall [OF call, of "this_ptr c" "fd c" "quitting c"]
  have "kstep (this_ptr c, fd c, quitting c, s1) (key st')"
    using assms True call kstep_Delete [of "(c, s1)"]
    by (auto simp: flush_send_def SE_Send_def Let_def split: if_splits bind_splits
        dest!: cstepsD [OF conn_WantWrite_csteps])
  with 1 show ?thesis by (rule kstep_trans)
qed (use assms in \<open>auto simp: flush_send_def\<close>)

lemma flush_done_csteps:
  assumes "csteps chk"
  shows "csteps (flush_done chk)"
proof (rule cstepsI)
  fix c s st' assume e: "flush_done chk (c, s) = Some st'"
  show "kstep (this_ptr c, fd c, quitting c, s) (key st')"
  proof (cases "sendq c = []")
    case True
    with e obtain s1 where h: "foreach_mod (\<lambda>m. OnBufferFlushed m (this_ptr c)) (event_handlers s I_OnBufferFlushed) s = Some s1"
      by (auto simp: flush_done_def split: bind_splits)
    have 1: "kstep (this_ptr c, fd c, quitting c, s) (this_ptr c, fd c, quitting c, s1)"
      by (rule kstep_srv [OF foreach_mod_step [OF OnBufferFlushed_step h]])
    from e True h have "kstep (this_ptr c, fd c, quitting c, s1) (key st')"
      by (auto simp: flush_done_def split: if_splits dest!: cstepsD [OF EndRequest_csteps [OF assms]]
          cstepsD [OF SendStaticData_csteps [OF assms]])
    with 1 show ?thesis by (rule kstep_trans)
  qed (use e in \<open>auto simp: flush_done_def\<close>)
qed

lemma FlushWriteBuf_csteps:
  assumes "csteps chk"
  shows "csteps (FlushWriteBuf chk)"
proof (rule cstepsI)
  fix c s st' assume "FlushWriteBuf chk (c, s) = Some st'"
  then obtain go st1 where f: "flush_send (c, s) = Some (go, st1)" and
    r: "(if go then flush_done chk st1 else Some st1) = Some st'"
    by (auto simp: FlushWriteBuf_def split: bind_splits)
  from r have "kstep (key st1) (key st')"
    by (auto split: if_splits dest!: cstepsD [OF flush_done_csteps [OF assms]])
  with flush_send_kstep [OF f] show "kstep (this_ptr c, fd c, quitting c, s) (key st')" by (rule kstep_trans)
qed

section \<open>Responses\<close>

lemma write_headers_csteps: "csteps (write_headers sz response rtext rheaders)"
proof (rule cstepsI)
  fix c s st' assume e: "write_headers sz response rtext rheaders (c, s) = Some st'"
  define v where "v = (if http_version c = HTTP_1_0 then ''HTTP/1.0 '' else ''HTTP/1.1 '')"
  from e obtain st1 c2 s2 st3
    where w: "Write v (c\<lparr>State := HTTP_SEND_HEADERS\<rparr>, s) = Some st1"
      "Write (ConvNumeric response @ '' '' @ rtext @ CRLF) st1 = Some (c2, s2)"
      and w3: "Write (GetFormattedHeaders (fst (response_headers sz rheaders c2 s2)))
          (c2\<lparr>keepalive := snd (response_headers sz rheaders c2 s2)\<rparr>, s2) = Some st3"
      and w4: "Write CRLF st3 = Some st'"
    by (cases "response_headers sz rheaders c2 s2") (auto simp: write_headers_def v_def Let_def split: bind_splits prod.splits)
  have "kstep (key st1) (key (c2, s2))" by (rule cstepsD [OF Write_csteps w(2)])
  moreover have "kstep (this_ptr c, fd c, quitting c, s) (key st1)" using cstepsD [OF Write_csteps w(1)] by simp
  moreover have "kstep (key (c2, s2)) (key st3)" using cstepsD [OF Write_csteps w3] by simp
  ultimately show "kstep (this_ptr c, fd c, quitting c, s) (key st')"
    using cstepsD [OF Write_csteps w4] by (meson kstep_trans)
qed

lemma SendHeaders_csteps:
  assumes "csteps chk"
  shows "csteps (SendHeaders chk sz response rtext rheaders)"
proof (rule cstepsI)
  fix c s st' assume "SendHeaders chk sz response rtext rheaders (c, s) = Some st'"
  then obtain st1 where w: "write_headers sz response rtext rheaders (c, s) = Some st1"
    and r: "(if sz = 0 then EndRequest chk st1 else Some st1) = Some st'"
    by (auto simp: SendHeaders_def split: bind_splits)
  from r have "kstep (key st1) (key st')"
    by (auto split: if_splits dest!: cstepsD [OF EndRequest_csteps [OF assms]])
  with cstepsD [OF write_headers_csteps w] show "kstep (this_ptr c, fd c, quitting c, s) (key st')"
    by (auto intro: kstep_trans)
qed

lemma SendError_csteps:
  assumes chk: "csteps chk"
  shows "csteps (SendError chk code txt fatal)"
proof (rule cstepsI)
  fix c s st' assume "SendError chk code txt fatal (c, s) = Some st'"
  then obtain c1 s1 c2 s2 c3 s3
    where h: "SendHeaders chk (length (error_page txt)) code txt (SetHeader ''Content-Type'' ''text/html'' []) (c\<lparr>ResponseBackend := False\<rparr>, s) = Some (c1, s1)"
      and w: "Write (error_page txt) (c1\<lparr>State := HTTP_SEND_DATA\<rparr>, s1) = Some (c2, s2)"
      and f: "FlushWriteBuf chk (c2\<lparr>ResponseBufferDone := True\<rparr>, s2) = Some (c3, s3)"
      and st': "st' = (if fatal then c3\<lparr>keepalive := False\<rparr> else c3, s3)"
    by (auto simp: SendError_def Let_def split: bind_splits)
  have "kstep (this_ptr c, fd c, quitting c, s) (key (c1, s1))"
    using cstepsD [OF SendHeaders_csteps [OF chk] h] by simp
  moreover have "kstep (key (c1, s1)) (key (c2, s2))" using cstepsD [OF Write_csteps w] by simp
  moreover have "kstep (key (c2, s2)) (key st')"
    using cstepsD [OF FlushWriteBuf_csteps [OF chk] f] by (simp add: st')
  ultimately show "kstep (this_ptr c, fd c, quitting c, s) (key st')" by (meson kstep_trans)
qed

lemma error_csteps:
  assumes "csteps chk"
  shows "csteps (path_error chk fatal)" "csteps (open_error chk)"
  by (rule cstepsI, auto simp: path_error_def open_error_def split: errcode.splits
      dest!: cstepsD [OF SendError_csteps [OF assms]])+

lemma ServeData_csteps:
  assumes chk: "csteps chk"
  shows "csteps (ServeData chk)"
proof (rule cstepsI)
  fix c s st' assume e: "ServeData chk (c, s) = Some st'"
  then obtain p ofst s1 where p: "CheckFilePath (DocRoot (Config s)) (uri c) s = Some (p, ofst, s1)"
    by (auto simp: ServeData_def split: bind_splits)
  have 1: "kstep (this_ptr c, fd c, quitting c, s) (this_ptr c, fd c, quitting c, s1)"
    by (rule kstep_srv [OF CheckFilePath_srv_step [OF p]])
  have "kstep (this_ptr c, fd c, quitting c, s1) (key st')"
  proof (cases "p = []")
    case True
    with e p show ?thesis by (auto simp: ServeData_def Let_def dest!: cstepsD [OF error_csteps(1) [OF chk]])
  next
    case False
    define s2 where "s2 = (if NoAtime (Config s1) then snd (syscall Sys_geteuid s1) else s1)"
    define s3 where "s3 = (if filefd c > - 1 then snd (SE_Close (filefd c) s2) else s2)"
    have 2: "kstep (this_ptr c, fd c, quitting c, s1) (this_ptr c, fd c, quitting c, s2)"
      by (cases "syscall Sys_geteuid s1") (auto simp: s2_def dest: kstep_syscall)
    have 3: "kstep (this_ptr c, fd c, quitting c, s2) (this_ptr c, fd c, quitting c, s3)"
      by (simp add: s3_def kstep_Close)
    from e p False obtain stp na where ofst: "ofst = Some stp" and
      r: "(case syscall (Sys_open (c_str p) na) s3 of (r, s4) \<Rightarrow>
          let c2 = c\<lparr>upath := p, filefd := r_ret r\<rparr> in
          if filefd c2 < 0 then open_error chk (c2, s4)
          else SendHeaders chk (nat (st_size stp)) 200 ''OK'' []
                 (c2\<lparr>rfilesize := st_size stp, rfilesent := 0, ResponseBackend := True\<rparr>, s4)) = Some st'"
    proof -
      from e p False obtain stp where ofst: "ofst = Some stp"
        by (cases ofst) (auto simp: ServeData_def Let_def)
      obtain g sg where g: "syscall Sys_geteuid s1 = (g, sg)" by fastforce
      show ?thesis
        by (rule that [OF ofst, of "NoAtime (Config s1) \<and> st_uid stp = r_ret g"], cases "NoAtime (Config s1)"; cases "filefd c > - 1")
          (use e p False g in \<open>simp_all add: ServeData_def Let_def s2_def s3_def ofst\<close>)
    qed
    obtain rr s4 where call: "syscall (Sys_open (c_str p) na) s3 = (rr, s4)" by fastforce
    have "kstep (this_ptr c, fd c, quitting c, s4) (key st')"
      using r call by (auto simp: Let_def split: if_splits
          dest!: cstepsD [OF error_csteps(2) [OF chk]] cstepsD [OF SendHeaders_csteps [OF chk]])
    with 2 3 kstep_syscall [OF call, of "this_ptr c" "fd c" "quitting c"] show ?thesis by (meson kstep_trans)
  qed
  with 1 show "kstep (this_ptr c, fd c, quitting c, s) (key st')" by (rule kstep_trans)
qed

section \<open>Requests\<close>

definition hsteps :: "(cstate \<Rightarrow> (int \<times> cstate) option) \<Rightarrow> bool" where
  "hsteps f \<longleftrightarrow> (\<forall>st res st'. f st = Some (res, st') \<longrightarrow> kstep (key st) (key st'))"

lemma hstepsI: "(\<And>c s res st'. f (c, s) = Some (res, st') \<Longrightarrow> kstep (this_ptr c, fd c, quitting c, s) (key st')) \<Longrightarrow> hsteps f"
  unfolding hsteps_def by auto

lemma hstepsD: "hsteps f \<Longrightarrow> f st = Some (res, st') \<Longrightarrow> kstep (key st) (key st')"
  unfolding hsteps_def by blast

lemma Test_hsteps:
  assumes chk: "csteps chk"
  shows "hsteps (Test_OnPreRequest chk)"
proof (rule hstepsI)
  fix c s res st' assume "Test_OnPreRequest chk (c, s) = Some (res, st')"
  then obtain c1 s1 c2 s2 where h: "SendHeaders chk 4 200 ''OK'' [] (c, s) = Some (c1, s1)"
    and w: "Write ''lawl'' (c1\<lparr>State := HTTP_SEND_DATA\<rparr>, s1) = Some (c2, s2)"
    and st': "st' = (c2\<lparr>ResponseBufferDone := True\<rparr>, s2)"
    by (auto simp: Test_OnPreRequest_def split: bind_splits)
  have "kstep (this_ptr c, fd c, quitting c, s) (key (c1, s1))" using cstepsD [OF SendHeaders_csteps [OF chk] h] by simp
  moreover have "kstep (key (c1, s1)) (key st')" using cstepsD [OF Write_csteps w] by (simp add: st')
  ultimately show "kstep (this_ptr c, fd c, quitting c, s) (key st')" by (rule kstep_trans)
qed

lemma returning_csteps: "csteps f \<Longrightarrow> returning (f st) = Some (res, st') \<Longrightarrow> kstep (key st) (key st')"
  by (auto simp: returning_def dest: cstepsD)

lemma CGI_spawn_hsteps:
  assumes chk: "csteps chk"
  shows "hsteps (CGI_spawn chk)"
proof (rule hstepsI)
  fix c s res st' assume e: "CGI_spawn chk (c, s) = Some (res, st')"
  let ?k = "\<lambda>s. (this_ptr c, fd c, quitting c, s)"
  obtain p1 s1 p2 s2 f s3 where calls: "syscall Sys_pipe s = (p1, s1)" "syscall Sys_pipe s1 = (p2, s2)" "syscall Sys_fork s2 = (f, s3)"
    by (metis surj_pair)
  have ss: "kstep (?k s) (?k s1)" "kstep (?k s) (?k s2)" "kstep (?k s) (?k s3)"
    by (meson calls kstep_syscall kstep_trans)+
  have fail: "kstep (?k sx) (key st')" if "returning (SendError chk 500 ''Internal error'' True (c, sx)) = Some (res, st')" for sx
    using returning_csteps [OF SendError_csteps [OF chk] that] by simp
  have adopt: "kstep (?k s3) (key st')" if "CGI_parent (r_pair p1) (r_pair p2) (c, s3) = Some (res, st')"
    using CGI_parent_step [OF that] by (simp add: kstep_srv)
  show "kstep (?k s) (key st')"
    using e calls fail [of s1] fail [of s2] fail [of s3] adopt ss
    by (auto simp: CGI_spawn_def split: if_splits intro: kstep_trans)
qed


lemma CGI_OnPreRequest_hsteps:
  assumes chk: "csteps chk"
  shows "hsteps (CGI_OnPreRequest chk file)"
proof (rule hstepsI)
  fix c s res st' assume e: "CGI_OnPreRequest chk file (c, s) = Some (res, st')"
  let ?k = "\<lambda>s. (this_ptr c, fd c, quitting c, s)"
  consider (pass) "st' = (c, s)" | (full) "returning (SendError chk 500 ''Internal error'' True (c, s)) = Some (res, st')"
    | (bad) p ofst s1 where "CheckFilePath (DocRoot (Config s)) (uri c) s = Some (p, ofst, s1)"
        "returning (path_error chk True (c, s1)) = Some (res, st')"
    | (run) p ofst s1 where "CheckFilePath (DocRoot (Config s)) (uri c) s = Some (p, ofst, s1)"
        "CGI_spawn chk (c, s1) = Some (res, st')"
    using e by (auto simp: CGI_OnPreRequest_def Let_def split: option.splits if_splits bind_splits)
  then show "kstep (?k s) (key st')"
  proof cases
    case full
    with returning_csteps [OF SendError_csteps [OF chk]] show ?thesis by fastforce
  next
    case bad
    have "kstep (?k s1) (key st')" using returning_csteps [OF error_csteps(1) [OF chk] bad(2)] by simp
    with kstep_srv [OF CheckFilePath_srv_step [OF bad(1)]] show ?thesis by (rule kstep_trans)
  next
    case run
    have "kstep (?k s1) (key st')" using hstepsD [OF CGI_spawn_hsteps [OF chk] run(2)] by simp
    with kstep_srv [OF CheckFilePath_srv_step [OF run(1)]] show ?thesis by (rule kstep_trans)
  qed simp
qed

lemma OnPreRequest_hsteps: "csteps chk \<Longrightarrow> hsteps (OnPreRequest chk file m)"
  by (cases m) (auto simp: OnPreRequest_def hsteps_def
      dest: hstepsD [OF CGI_OnPreRequest_hsteps] hstepsD [OF Test_hsteps])

lemma foreach_result_hsteps:
  "(\<And>m. hsteps (f m)) \<Longrightarrow> foreach_result f ms st = Some (res, st') \<Longrightarrow> kstep (key st) (key st')"
proof (induction ms arbitrary: st)
  case (Cons m ms)
  from Cons.prems(2) obtain r st1 where f: "f m st = Some (r, st1)"
    and r: "(if r \<noteq> 0 then Some (r, st1) else foreach_result f ms st1) = Some (res, st')"
    by (auto split: bind_splits)
  from r Cons.IH [OF Cons.prems(1)] have "kstep (key st1) (key st')" by (auto split: if_splits)
  with hstepsD [OF Cons.prems(1) f] show ?case by (rule kstep_trans)
qed auto

lemma answer_request_csteps:
  assumes chk: "csteps chk"
  shows "csteps (answer_request chk)"
proof (rule cstepsI)
  fix c s st' assume e: "answer_request chk (c, s) = Some st'"
  obtain u q where uq: "HandleURI (uri c) (uriquery c) = (u, q)" by fastforce
  define fl where "fl = (case rfind_char (CHR ''/'') u of Some pos \<Rightarrow> drop (pos + 1) u | None \<Rightarrow> u)"
  from e uq obtain res c1 s1 where f: "foreach_result (OnPreRequest chk fl) (event_handlers s I_OnPreRequest) (c\<lparr>uri := u, uriquery := q\<rparr>, s) = Some (res, c1, s1)"
    and r: "(if res = 1 then Some (c1, s1)
     else if http_method c1 \<noteq> ''GET'' \<and> http_method c1 \<noteq> ''POST'' then SendError chk 501 ''Not Implemented'' True (c1, s1)
     else ServeData chk (c1, s1)) = Some st'"
    by (auto simp: answer_request_def fl_def Let_def split: bind_splits)
  have "kstep (this_ptr c, fd c, quitting c, s) (key (c1, s1))"
    using foreach_result_hsteps [OF OnPreRequest_hsteps [OF chk] f] by simp
  moreover have "kstep (key (c1, s1)) (key st')"
    using r by (auto split: if_splits dest!: cstepsD [OF SendError_csteps [OF chk]] cstepsD [OF ServeData_csteps [OF chk]])
  ultimately show "kstep (this_ptr c, fd c, quitting c, s) (key st')" by (rule kstep_trans)
qed

lemma check_parsed_csteps:
  assumes chk: "csteps chk"
  shows "csteps (check_parsed chk)"
proof (rule cstepsI)
  fix c s st' assume e: "check_parsed chk (c, s) = Some st'"
  show "kstep (this_ptr c, fd c, quitting c, s) (key st')"
  proof (cases "http_method c = [] \<or> uri c = [] \<or> http_version c = HTTP_UNSPECIFIED")
    case True
    with e show ?thesis by (auto simp: check_parsed_def dest!: cstepsD [OF SendError_csteps [OF chk]])
  next
    case False
    define c1 where "c1 = connection_header (c\<lparr>http_method := map toupper_c (http_method c)\<rparr>) s"
    define c2 where "c2 = (if IsSet ''Content-Length'' (conn_headers c1)
                 then c1\<lparr>RequestBodyLength := to_uint32 (atoi (c_str (GetHeader ''Content-Length'' (conn_headers c1))))\<rparr>
                 else c1)"
    have same: "this_ptr c2 = this_ptr c" "fd c2 = fd c" "quitting c2 = quitting c"
      by (simp_all add: c2_def c1_def connection_header_def Let_def)
    have "(if IsSet ''Content-Length'' (conn_headers c2) \<and> RequestBodyLength c2 > to_uint32 (MaxPostBody (Config s)) then
            SendError chk 413 ''Request Entity Too Large'' True (c2, s)
          else if IsSet ''Transfer-Encoding'' (conn_headers c2) then
            SendError chk 500 ''Internal Server Error'' True (c2, s)
          else if RequestBodyLength c2 > 0 then
            if http_method c2 \<noteq> ''POST'' then SendError chk 500 ''Internal Server Error'' True (c2, s)
            else Some (c2\<lparr>State := HTTP_RECV_REQBODY\<rparr>, s)
          else answer_request chk (c2, s)) = Some st'"
      using e False unfolding check_parsed_def c2_def c1_def by (simp only: prod.case Let_def if_False)
    then show ?thesis
      by (auto simp: same split: if_splits dest!: cstepsD [OF SendError_csteps [OF chk]] cstepsD [OF answer_request_csteps [OF chk]])
  qed
qed

lemma CheckRequest_body_csteps:
  assumes chk: "csteps chk"
  shows "csteps (CheckRequest_body chk newpos)"
proof (rule cstepsI)
  fix c s st' assume e: "CheckRequest_body chk newpos (c, s) = Some st'"
  show "kstep (this_ptr c, fd c, quitting c, s) (key st')"
    using e parse_block_same [of c "requestbuf c"]
    by (auto simp: CheckRequest_body_def same_but_request_def split: option.splits parse_result.splits
        dest!: cstepsD [OF SendError_csteps [OF chk]] cstepsD [OF check_parsed_csteps [OF chk]])
qed

lemma CheckRequest_csteps: "csteps (CheckRequest fuel newpos)"
proof (induction fuel arbitrary: newpos)
  case (Suc fuel)
  from CheckRequest_body_csteps [OF Suc] show ?case by (simp add: csteps_def)
qed (simp add: csteps_def)

lemma check0_csteps: "csteps check0"
  using CheckRequest_csteps unfolding csteps_def check0_def by blast

section \<open>Events\<close>

lemma AddBuffer_kstep:
  assumes "AddBuffer a (c, s) = Some (ok, st')"
  shows "kstep (this_ptr c, fd c, quitting c, s) (key st')"
  using assms
  by (auto simp: AddBuffer_def Let_def split: if_splits bind_splits
      dest!: cstepsD [OF ServeData_csteps [OF check0_csteps]] cstepsD [OF CheckRequest_body_csteps [OF CheckRequest_csteps]])

lemma ReadData_csteps: "csteps ReadData"
proof (rule cstepsI)
  fix c s st' assume e: "ReadData (c, s) = Some st'"
  show "kstep (this_ptr c, fd c, quitting c, s) (key st')"
  proof (cases "fd c = FD_MAGIC_NUMBER")
    case False
    obtain r s1 where call: "syscall (Sys_read (fd c) 65535) s = (r, s1)" by fastforce
    note 1 = kstep_syscall [OF call, of "this_ptr c" "fd c" "quitting c"]
    have "kstep (this_ptr c, fd c, quitting c, s1) (key st')"
      using e False call kstep_Delete [of "(c, s1)"]
      by (auto simp: ReadData_def Let_def split: if_splits bind_splits
          dest!: AddBuffer_kstep intro: kstep_then_Delete)
    with 1 show ?thesis by (rule kstep_trans)
  qed (use e in \<open>auto simp: ReadData_def\<close>)
qed

lemma HandleEvent_csteps: "csteps (Connection_HandleEvent et)"
proof (rule cstepsI)
  fix c s st' assume e: "Connection_HandleEvent et (c, s) = Some st'"
  show "kstep (this_ptr c, fd c, quitting c, s) (key st')"
    using e kstep_Delete [of "(c\<lparr>LastSocketEvent := TIME s\<rparr>, s)"]
    by (auto simp: Connection_HandleEvent_def Let_def split: event_type.splits if_splits
        dest!: cstepsD [OF ReadData_csteps] cstepsD [OF SendStaticData_csteps [OF check0_csteps]]
          cstepsD [OF FlushWriteBuf_csteps [OF check0_csteps]])
qed

lemma CGI_Close_csteps: "csteps (CGI_Close SendResponse n)"
proof (rule cstepsI)
  fix c s st' assume e: "CGI_Close SendResponse n (c, s) = Some st'"
  let ?k = "\<lambda>s. (this_ptr c, fd c, quitting c, s)"
  from e obtain r was_open s1 where r: "cgis s n = Some r" and cl: "CGI_Close_socket n s = Some (was_open, s1)"
    by (auto simp: CGI_Close_def split: bind_splits)
  have "kstep (?k s1) (key st')"
  proof (cases "was_open \<and> SendResponse")
    case True
    with e r cl obtain c1 s2 where h: "SendHeaders check0 (length (cgi_rbuf r)) 200 ''OK'' [] (c, s1) = Some (c1, s2)"
      by (auto simp: CGI_Close_def split: bind_splits)
    with True e r cl obtain r2 where r2: "cgis s2 n = Some r2" by (auto simp: CGI_Close_def split: bind_splits)
    with True e r cl h obtain c2 s3 where w: "Write (cgi_rbuf r2) (c1\<lparr>State := HTTP_SEND_DATA\<rparr>, s2) = Some (c2, s3)"
      and st': "st' = (c2\<lparr>ResponseBufferDone := True\<rparr>, s3)"
      by (auto simp: CGI_Close_def split: bind_splits)
    have "kstep (?k s1) (key (c1, s2))" using cstepsD [OF SendHeaders_csteps [OF check0_csteps] h] by simp
    moreover have "kstep (key (c1, s2)) (key st')" using cstepsD [OF Write_csteps w] by (simp add: st')
    ultimately show ?thesis by (rule kstep_trans)
  qed (use e r cl in \<open>auto simp: CGI_Close_def split: if_splits\<close>)
  with kstep_srv [OF CGI_Close_socket_step [OF cl]] show "kstep (?k s) (key st')" by (rule kstep_trans)
qed

lemma CGI_OnRead_csteps: "csteps (CGI_OnRead n)"
proof (rule cstepsI)
  fix c s st' assume e: "CGI_OnRead n (c, s) = Some st'"
  let ?k = "\<lambda>s. (this_ptr c, fd c, quitting c, s)"
  from e obtain r where r: "cgis s n = Some r" by (auto simp: CGI_OnRead_def split: bind_splits)
  obtain rep s1 where call: "syscall (Sys_read (cgi_fd r) 65535) s = (rep, s1)" by fastforce
  define s2 where "s2 = s1\<lparr>cgis := (cgis s1)(n \<mapsto> r\<lparr>cgi_rbuf := cgi_rbuf r @ c_str (r_data rep)\<rparr>)\<rparr>"
  have 2: "kstep (?k s1) (?k s2)" unfolding s2_def by (rule kstep_srv) simp
  have "kstep (?k s1) (key st')"
    using e r call 2
    by (auto simp: CGI_OnRead_def s2_def Let_def split: if_splits dest!: cstepsD [OF CGI_Close_csteps] intro: kstep_trans)
  with kstep_syscall [OF call] show "kstep (?k s) (key st')" by (rule kstep_trans)
qed

lemma CGI_HandleEvent_csteps: "csteps (CGI_HandleEvent et n)"
  by (rule cstepsI)
    (auto simp: CGI_HandleEvent_def split: event_type.splits dest!: cstepsD [OF CGI_OnRead_csteps] cstepsD [OF CGI_Close_csteps])

end
