(* ===== verification/Lifecycle.thy ===== *)
theory Lifecycle
  imports CullSteps
begin

text \<open>
  The life of connections: \<open>ConnectionManager\<close> (\<open>src/connectionmanager.cpp\<close>), the addresses of a
  connection (\<open>src/connections.cpp\<close>), \<open>CullList::Apply\<close> (\<open>src/cull_list.cpp\<close>), the timeouts of
  \<open>InspIRCd::Run\<close> (\<open>src/inspircd.cpp\<close>) and the cleaning up of CGI requests
  (\<open>src/modules/m_cgi.cpp\<close>). \<open>None\<close> is the use of an object that is gone, or a loop that never ends.
\<close>

section \<open>Addresses\<close>

text \<open>Addresses are texts in the form of \<open>inet_ntop\<close>. A build with \<open>IPV6\<close> also has \<open>SUPPORT_IP6LINKS\<close>,
  as \<open>configure\<close> sets it; without it there are no sockets of the other family, and an unknown family
  is not stored. A port is kept in 16 bits.\<close>

definition SetSockAddr :: "bool \<Rightarrow> string \<Rightarrow> int \<Rightarrow> server \<Rightarrow> conn \<Rightarrow> conn" where
  "SetSockAddr v6 mip port s c =
     (if v6 \<and> \<not> IPV6 s then c else c\<lparr>privip := Some (v6, mip, port mod 2 ^ 16)\<rparr>)"

definition GetPort :: "conn \<Rightarrow> int" where
  "GetPort c = (case privip c of None \<Rightarrow> 0 | Some (v6, mip, port) \<Rightarrow> port)"

datatype protocol_family = PF_NONE | PF_INET | PF_INET6

definition GetProtocolFamily :: "conn \<Rightarrow> protocol_family" where
  "GetProtocolFamily c = (case privip c of None \<Rightarrow> PF_NONE | Some (v6, mip, port) \<Rightarrow> if v6 then PF_INET6 else PF_INET)"

definition GetIPString :: "conn \<Rightarrow> string" where
  "GetIPString c =
     (case privip c of
        None \<Rightarrow> []
      | Some (v6, mip, port) \<Rightarrow> if v6 \<and> mip \<noteq> [] \<and> hd mip = CHR '':'' then CHR ''0'' # mip else mip)"

section \<open>Coming and going\<close>

definition put_conn :: "conn \<Rightarrow> server \<Rightarrow> server" where
  "put_conn c s = s\<lparr>conns := (conns s)(this_ptr c \<mapsto> c)\<rparr>"

text \<open>\<open>OnConnectionConnect\<close> of the modules only logs.\<close>

definition OnConnectionConnect :: "hmodule \<Rightarrow> nat \<Rightarrow> server \<Rightarrow> server option" where
  "OnConnectionConnect m p s = Some s"

text \<open>\<open>ConnectionManager::Add\<close>. The object is made first, with the time of its base class.\<close>

definition ConnectionManager_Add :: "int \<Rightarrow> int \<Rightarrow> bool \<Rightarrow> string \<Rightarrow> server \<Rightarrow> server option" where
  "ConnectionManager_Add socket port v6 ipaddr s =
     (case syscall Sys_time s of (t, s1) \<Rightarrow>
        let p = next_addr s1;
            c0 = SetSockAddr v6 ipaddr port s1 ((Connection_new p (r_ret t) s1)\<lparr>fd := socket\<rparr>);
            c = c0\<lparr>ip := GetIPString c0\<rparr>;
            s2 = s1\<lparr>next_addr := p + 1, local_connections := local_connections s1 @ [p]\<rparr>
        in do {
          (ok, s3) \<leftarrow> AddFd (H_Conn p) socket s2;
          if \<not> ok then (case Delete (c, s3) of (c', s4) \<Rightarrow> Some (put_conn c' s4))
          else foreach_mod (\<lambda>m. OnConnectionConnect m p) (event_handlers s3 I_OnConnectionConnect) (put_conn c s3)
        })"

text \<open>\<open>Connections->Delete\<close> of a connection in the heap.\<close>

definition delete_conn :: "nat \<Rightarrow> server \<Rightarrow> server option" where
  "delete_conn a s = do { c \<leftarrow> conns s a; (case Delete (c, s) of (c', s') \<Rightarrow> Some (put_conn c' s')) }"

definition CloseSocket :: "conn \<Rightarrow> server \<Rightarrow> server" where
  "CloseSocket c s = snd (SE_Close (fd c) (snd (SE_Shutdown (fd c) 2 s)))"

text \<open>The destructor.\<close>

definition Connection_destroy :: "conn \<Rightarrow> server \<Rightarrow> server" where
  "Connection_destroy c s =
     (let s1 = (if filefd c > - 1 then snd (SE_Close (filefd c) s) else s)
      in s1\<lparr>conns := (conns s1)(this_ptr c := None)\<rparr>)"

text \<open>One round of \<open>CullList::Apply\<close>, for the first connection of the list.\<close>

definition cull_one :: "nat \<Rightarrow> server \<Rightarrow> server option" where
  "cull_one a s = do {
     c \<leftarrow> conns s a;
     s1 \<leftarrow> foreach_mod (\<lambda>m. OnConnectionDisconnect m a) (event_handlers s I_OnConnectionDisconnect) s;
     (_, s2) \<leftarrow> DelFd (H_Conn a) (fd c) False s1;
     let s3 = CloseSocket c s2;
     let s4 = s3\<lparr>local_connections := remove1 a (local_connections s3)\<rparr>;
     let s5 = Connection_destroy c s4;
     Some (s5\<lparr>culls := tl (culls s5)\<rparr>)
   }"

partial_function (option) cull_loop :: "server \<Rightarrow> server option" where
  "cull_loop s = (case culls s of [] \<Rightarrow> Some s | a # as \<Rightarrow> do { s' \<leftarrow> cull_one a s; cull_loop s' })"

definition CullList_Apply :: "server \<Rightarrow> (nat \<times> server) option" where
  "CullList_Apply s = map_option (Pair (length (culls s))) (cull_loop s)"

section \<open>Timeouts\<close>

definition timed_out :: "conn \<Rightarrow> server \<Rightarrow> bool" where
  "timed_out c s \<longleftrightarrow> TIME s \<ge> age c + TimeoutTotalLifetime (Config s) \<or>
     TIME s \<ge> LastSocketEvent c + TimeoutIdleLifetime (Config s)"

definition timeout_conn :: "nat \<Rightarrow> server \<Rightarrow> server option" where
  "timeout_conn a s = do {
     c \<leftarrow> conns s a;
     if TIME s \<ge> age c + TimeoutTotalLifetime (Config s) then delete_conn a s
     else if TIME s \<ge> LastSocketEvent c + TimeoutIdleLifetime (Config s) then delete_conn a s
     else Some s
   }"

fun timeout_loop :: "nat list \<Rightarrow> server \<Rightarrow> server option" where
  "timeout_loop [] s = Some s"
| "timeout_loop (a # as) s = do { s' \<leftarrow> timeout_conn a s; timeout_loop as s' }"

definition timeout_connections :: "server \<Rightarrow> server option" where
  "timeout_connections s = timeout_loop (local_connections s) s"

section \<open>Finished CGI requests\<close>

text \<open>The first finished request in the map; \<open>None\<close> is an object that is gone.\<close>

fun cgi_first_done :: "(nat \<Rightarrow> cgi_request option) \<Rightarrow> (nat \<times> nat) list \<Rightarrow> (nat \<times> nat) option option" where
  "cgi_first_done h [] = Some None"
| "cgi_first_done h ((p, n) # m) =
     (case h n of None \<Rightarrow> None | Some r \<Rightarrow> if cgi_done r then Some (Some (p, n)) else cgi_first_done h m)"

partial_function (option) CGI_OnBackgroundTimer :: "server \<Rightarrow> server option" where
  "CGI_OnBackgroundTimer s = do {
     found \<leftarrow> cgi_first_done (cgis s) (CGIRequests s);
     (case found of
        None \<Rightarrow> Some s
      | Some (p, n) \<Rightarrow> do {
          s1 \<leftarrow> CGI_destroy n s;
          CGI_OnBackgroundTimer (s1\<lparr>CGIRequests := om_erase nat_less p (CGIRequests s1)\<rparr>)
        })
   }"

definition OnBackgroundTimer :: "hmodule \<Rightarrow> server \<Rightarrow> server option" where
  "OnBackgroundTimer m s = (case m of M_CGI \<Rightarrow> CGI_OnBackgroundTimer s | _ \<Rightarrow> Some s)"

section \<open>The invariant\<close>

text \<open>The list of connections names every connection that exists, once, and the cull list those that
  are quitting, once.\<close>

definition life_inv :: "server \<Rightarrow> bool" where
  "life_inv s \<longleftrightarrow> distinct (local_connections s) \<and> set (local_connections s) = dom (conns s) \<and>
     (\<forall>a c. conns s a = Some c \<longrightarrow> this_ptr c = a \<and> a < next_addr s) \<and>
     distinct (culls s) \<and> (\<forall>a. a \<in> set (culls s) \<longleftrightarrow> (\<exists>c. conns s a = Some c \<and> quitting c))"

lemma life_inv_srv_step: "srv_step s s' \<Longrightarrow> life_inv s \<Longrightarrow> life_inv s'"
  unfolding life_inv_def srv_step_def srv_same_def by (metis less_le_trans)

lemma life_inv_put:
  assumes inv: "life_inv s" and c: "conns s a = Some c" and k: "kstep (key (c, s)) (key (c', s'))"
  shows "life_inv (put_conn c' s')"
proof -
  have a: "this_ptr c = a" "a < next_addr s" using inv c by (auto simp: life_inv_def)
  have same: "local_connections s' = local_connections s" "conns s' = conns s" "next_addr s \<le> next_addr s'"
    "this_ptr c' = a" and q: "quitting c \<longrightarrow> quitting c'"
    "culls s' = culls s @ (if quitting c' \<and> \<not> quitting c then [a] else [])"
    using k a(1) by (simp_all add: kstep_def srv_same_def)
  have "distinct (local_connections s)" "set (local_connections s) = dom (conns s)"
    and heap: "\<And>b d. conns s b = Some d \<Longrightarrow> this_ptr d = b \<and> b < next_addr s"
    and cu: "distinct (culls s)" "\<And>b. b \<in> set (culls s) \<longleftrightarrow> (\<exists>d. conns s b = Some d \<and> quitting d)"
    using inv unfolding life_inv_def by blast+
  moreover have "a \<notin> set (culls s)" if "\<not> quitting c" using that cu(2) [of a] c by simp
  ultimately have "distinct (culls s')" and "\<And>b. b \<in> set (culls s') \<longleftrightarrow> (\<exists>d. ((conns s)(a \<mapsto> c')) b = Some d \<and> quitting d)"
    using q c by (auto simp: cu)
  moreover have "\<forall>b d. ((conns s)(a \<mapsto> c')) b = Some d \<longrightarrow> this_ptr d = b \<and> b < next_addr s'"
    using heap same a(2) by (auto split: if_splits intro: less_le_trans)
  moreover have "set (local_connections s) = dom ((conns s)(a \<mapsto> c'))"
    using \<open>set (local_connections s) = dom (conns s)\<close> c by auto
  moreover have "local_connections (put_conn c' s') = local_connections s" "conns (put_conn c' s') = (conns s)(a \<mapsto> c')"
    "next_addr (put_conn c' s') = next_addr s'" "culls (put_conn c' s') = culls s'"
    using same by (simp_all add: put_conn_def)
  ultimately show ?thesis
    using \<open>distinct (local_connections s)\<close> unfolding life_inv_def by (simp only:) blast
qed

lemma life_inv_new:
  assumes inv: "life_inv s" and p: "next_addr s \<le> p" "p < next_addr s'" "this_ptr c = p"
    and s': "local_connections s' = local_connections s @ [p]" "conns s' = (conns s)(p \<mapsto> c)"
      "culls s' = culls s @ (if quitting c then [p] else [])"
  shows "life_inv s'"
proof -
  have l: "distinct (local_connections s)" "set (local_connections s) = dom (conns s)"
    and heap: "\<And>b d. conns s b = Some d \<Longrightarrow> this_ptr d = b \<and> b < next_addr s"
    and cu: "distinct (culls s)" "\<And>b. b \<in> set (culls s) \<longleftrightarrow> (\<exists>d. conns s b = Some d \<and> quitting d)"
    using inv unfolding life_inv_def by blast+
  have fresh: "conns s p = None" using heap [of p] p(1) by (cases "conns s p") auto
  then have "p \<notin> set (local_connections s)" "p \<notin> set (culls s)" using l(2) cu(2) by auto
  then have "distinct (local_connections s')" "distinct (culls s')" "set (local_connections s') = dom (conns s')"
    using l cu(1) by (auto simp: s')
  moreover have "\<forall>b d. conns s' b = Some d \<longrightarrow> this_ptr d = b \<and> b < next_addr s'"
  proof (intro allI impI)
    fix b d assume "conns s' b = Some d"
    with heap [of b d] p show "this_ptr d = b \<and> b < next_addr s'" by (auto simp: s' split: if_splits)
  qed
  moreover have "\<forall>b. b \<in> set (culls s') \<longleftrightarrow> (\<exists>d. conns s' b = Some d \<and> quitting d)"
    using fresh by (auto simp: s' cu(2))
  ultimately show ?thesis unfolding life_inv_def by blast
qed

lemma AddFd_rest: "AddFd eh sk (s :: server) = Some (b, s') \<Longrightarrow>
    local_connections s' = local_connections s \<and> conns s' = conns s \<and> culls s' = culls s \<and> next_addr s' = next_addr s"
  by (drule AddFd_frame) (simp add: srv_io_fields)

lemma foreach_connect [simp]: "foreach_mod (\<lambda>m. OnConnectionConnect m p) ms s = Some s"
  by (induction ms) (simp_all add: OnConnectionConnect_def)

lemma SetSockAddr_sel [simp]:
  "this_ptr (SetSockAddr v6 mip port s c) = this_ptr c" "fd (SetSockAddr v6 mip port s c) = fd c"
  "quitting (SetSockAddr v6 mip port s c) = quitting c"
  by (simp_all add: SetSockAddr_def)

lemma Add_result:
  assumes "ConnectionManager_Add socket port v6 ipaddr s = Some s'"
  shows "\<exists>c. next_addr s' = next_addr s + 1 \<and> this_ptr c = next_addr s \<and> fd c = socket \<and>
    local_connections s' = local_connections s @ [next_addr s] \<and> conns s' = (conns s)(next_addr s \<mapsto> c) \<and>
    culls s' = culls s @ (if quitting c then [next_addr s] else []) \<and> listeners s' = listeners s \<and>
    Config s' = Config s \<and> MAXCLIENTS s' = MAXCLIENTS s \<and> world s' = world s \<and> ShuttingDown s' = ShuttingDown s"
proof -
  obtain t s1 where call: "syscall Sys_time s = (t, s1)" by fastforce
  note io1 = srv_io_fields [OF syscall_frame [OF call]]
  define p where "p = next_addr s1"
  define c0 where "c0 = SetSockAddr v6 ipaddr port s1 ((Connection_new p (r_ret t) s1)\<lparr>fd := socket\<rparr>)"
  define c where "c = c0\<lparr>ip := GetIPString c0\<rparr>"
  have c: "this_ptr c = p" "fd c = socket" "\<not> quitting c" by (simp_all add: c_def c0_def Connection_new_def)
  define s2 where "s2 = s1\<lparr>next_addr := p + 1, local_connections := local_connections s1 @ [p]\<rparr>"
  from assms call obtain ok s3 where add: "AddFd (H_Conn p) socket s2 = Some (ok, s3)"
    and s': "s' = (if ok then put_conn c s3 else put_conn (fst (Delete (c, s3))) (snd (Delete (c, s3))))"
    by (cases "AddFd (H_Conn p) socket s2")
      (auto simp: ConnectionManager_Add_def Let_def p_def c0_def c_def s2_def case_prod_beta split: if_splits)
  note io3 = srv_io_fields [OF AddFd_frame [OF add]]
  show ?thesis
  proof (cases ok)
    case True
    then show ?thesis using c io1 io3 by (intro exI [of _ c]) (simp add: s' put_conn_def s2_def p_def)
  next
    case False
    then show ?thesis using c io1 io3
      by (intro exI [of _ "fst (Delete (c, s3))"]) (simp add: s' put_conn_def s2_def p_def Delete_def AddItem_def)
  qed
qed

lemma life_inv_Add: "life_inv s \<Longrightarrow> ConnectionManager_Add socket port v6 ipaddr s = Some s' \<Longrightarrow> life_inv s'"
  using Add_result [of socket port v6 ipaddr s s'] life_inv_new [of s "next_addr s" s'] by fastforce

lemma kstep_Delete_parts:
  "Delete (c, s) = (c', s') \<Longrightarrow> kstep (this_ptr c, fd c, quitting c, s) (this_ptr c', fd c', quitting c', s')"
  using kstep_Delete [of "(c, s)"] by simp

lemma delete_conn_inv: "life_inv s \<Longrightarrow> delete_conn a s = Some s' \<Longrightarrow> life_inv s'"
  by (auto simp: delete_conn_def split: bind_splits prod.splits intro!: life_inv_put dest: kstep_Delete_parts)

lemma timeout_conn_inv: "life_inv s \<Longrightarrow> timeout_conn a s = Some s' \<Longrightarrow> life_inv s'"
  by (auto simp: timeout_conn_def split: bind_splits if_splits intro: delete_conn_inv)

lemma timeout_loop_inv: "life_inv s \<Longrightarrow> timeout_loop as s = Some s' \<Longrightarrow> life_inv s'"
  by (induction as s rule: timeout_loop.induct) (auto split: bind_splits intro: timeout_conn_inv)

section \<open>Culling\<close>

lemma life_inv_cull:
  assumes inv: "life_inv s" and a: "culls s = a # as"
    and s': "local_connections s' = remove1 a (local_connections s)" "conns s' = (conns s)(a := None)" "culls s' = as"
      "next_addr s \<le> next_addr s'"
  shows "life_inv s'"
proof -
  have l: "distinct (local_connections s)" "set (local_connections s) = dom (conns s)"
    and heap: "\<And>b d. conns s b = Some d \<Longrightarrow> this_ptr d = b \<and> b < next_addr s"
    and cu: "distinct (culls s)" "\<And>b. b \<in> set (culls s) \<longleftrightarrow> (\<exists>d. conns s b = Some d \<and> quitting d)"
    using inv unfolding life_inv_def by blast+
  have "distinct (local_connections s')" "distinct (culls s')" "set (local_connections s') = dom (conns s')"
    using l cu(1) by (auto simp: s' a)
  moreover have "\<forall>b d. conns s' b = Some d \<longrightarrow> this_ptr d = b \<and> b < next_addr s'"
  proof (intro allI impI)
    fix b d assume "conns s' b = Some d"
    with heap [of b d] s'(4) show "this_ptr d = b \<and> b < next_addr s'" by (auto simp: s'(2) split: if_splits)
  qed
  moreover have "\<forall>b. b \<in> set (culls s') \<longleftrightarrow> (\<exists>d. conns s' b = Some d \<and> quitting d)"
  proof
    fix b
    have "b \<in> set (culls s') \<longleftrightarrow> b \<in> set (culls s) \<and> b \<noteq> a" using cu(1) by (auto simp: s' a)
    with cu(2) [of b] show "b \<in> set (culls s') \<longleftrightarrow> (\<exists>d. conns s' b = Some d \<and> quitting d)" by (auto simp: s')
  qed
  ultimately show ?thesis unfolding life_inv_def by blast
qed

lemma srv_step_rest: "srv_step s s' \<Longrightarrow> conns s' = conns s \<and> local_connections s' = local_connections s \<and>
    culls s' = culls s \<and> next_addr s \<le> next_addr s' \<and> event_handlers s' = event_handlers s"
  by (simp add: srv_step_def srv_same_def)

lemma CloseSocket_step [simp]: "srv_step s (CloseSocket c s)"
  unfolding CloseSocket_def by (meson SE_Close_step SE_Shutdown_step srv_step_trans)

text \<open>A round is steps of the server up to the closed socket, and then the connection goes.\<close>

lemma cull_one_steps:
  assumes "cull_one a s = Some s'"
  obtains c s3 s5 where "conns s a = Some c" "srv_step s s3"
    "srv_step (s3\<lparr>local_connections := remove1 a (local_connections s3)\<rparr>) s5"
    "s' = s5\<lparr>conns := (conns s5)(this_ptr c := None), culls := tl (culls s5)\<rparr>"
proof -
  from assms obtain c s1 ok s2 where c: "conns s a = Some c"
    and h: "foreach_mod (\<lambda>m. OnConnectionDisconnect m a) (event_handlers s I_OnConnectionDisconnect) s = Some s1"
    and d: "DelFd (H_Conn a) (fd c) False s1 = Some (ok, s2)"
    and s': "s' = (let s3 = CloseSocket c s2;
       s4 = s3\<lparr>local_connections := remove1 a (local_connections s3)\<rparr>; s5 = Connection_destroy c s4
       in s5\<lparr>culls := tl (culls s5)\<rparr>)"
    by (auto simp: cull_one_def Let_def split: bind_splits)
  define s3 where "s3 = CloseSocket c s2"
  define s4 where "s4 = s3\<lparr>local_connections := remove1 a (local_connections s3)\<rparr>"
  define s5 where "s5 = (if filefd c > - 1 then snd (SE_Close (filefd c) s4) else s4)"
  have "srv_step s s3" unfolding s3_def
    by (rule srv_step_trans [OF foreach_mod_step [OF OnConnectionDisconnect_step h] srv_step_trans [OF DelFd_srv_step [OF d] CloseSocket_step]])
  moreover have "srv_step s4 s5" by (simp add: s5_def)
  moreover have "s' = s5\<lparr>conns := (conns s5)(this_ptr c := None), culls := tl (culls s5)\<rparr>"
    by (simp add: s' Connection_destroy_def s3_def [symmetric] s4_def [symmetric] s5_def Let_def)
  ultimately show ?thesis using c s4_def that by blast
qed

lemma cull_one_result:
  assumes one: "cull_one a s = Some s'" and inv: "life_inv s"
  shows "local_connections s' = remove1 a (local_connections s) \<and> conns s' = (conns s)(a := None) \<and>
    culls s' = tl (culls s) \<and> next_addr s \<le> next_addr s'"
  using one
proof (rule cull_one_steps)
  fix c s3 s5
  assume c: "conns s a = Some c" and st: "srv_step s s3" "srv_step (s3\<lparr>local_connections := remove1 a (local_connections s3)\<rparr>) s5"
    and s': "s' = s5\<lparr>conns := (conns s5)(this_ptr c := None), culls := tl (culls s5)\<rparr>"
  have "this_ptr c = a" using inv c by (auto simp: life_inv_def)
  with srv_step_rest [OF st(1)] srv_step_rest [OF st(2)] show ?thesis by (simp add: s')
qed

lemma cull_one_frame:
  assumes one: "cull_one a s = Some s'"
  shows "Config s' = Config s \<and> listeners s' = listeners s \<and> ShuttingDown s' = ShuttingDown s \<and> next_addr s \<le> next_addr s'"
  using one by (rule cull_one_steps) (simp add: srv_step_def srv_same_def)

lemma cull_loop_frame:
  assumes ret: "cull_loop s = Some s'"
  shows "Config s' = Config s \<and> listeners s' = listeners s \<and> ShuttingDown s' = ShuttingDown s \<and> next_addr s \<le> next_addr s'"
proof (rule cull_loop.raw_induct [where P = "\<lambda>s s'. Config s' = Config s \<and> listeners s' = listeners s \<and>
    ShuttingDown s' = ShuttingDown s \<and> next_addr s \<le> next_addr s'", OF _ ret])
  fix f s s'
  assume IH: "\<And>s s'. f s = Some s' \<Longrightarrow> Config s' = Config s \<and> listeners s' = listeners s \<and>
      ShuttingDown s' = ShuttingDown s \<and> next_addr s \<le> next_addr s'"
    and e: "(case culls s of [] \<Rightarrow> Some s | a # as \<Rightarrow> do { s' \<leftarrow> cull_one a s; f s' }) = Some s'"
  show "Config s' = Config s \<and> listeners s' = listeners s \<and> ShuttingDown s' = ShuttingDown s \<and> next_addr s \<le> next_addr s'"
  proof (cases "culls s")
    case (Cons a as)
    with e obtain s1 where "cull_one a s = Some s1" "f s1 = Some s'" by (auto split: bind_splits)
    with cull_one_frame [of a s s1] IH [of s1 s'] show ?thesis by simp
  qed (use e in simp)
qed

lemma cull_loop_result:
  assumes ret: "cull_loop s = Some s'"
  shows "life_inv s \<longrightarrow> life_inv s' \<and> culls s' = [] \<and>
    local_connections s' = filter (\<lambda>a. a \<notin> set (culls s)) (local_connections s) \<and> conns s' = conns s |` (- set (culls s))"
proof (rule cull_loop.raw_induct [where P = "\<lambda>s s'. life_inv s \<longrightarrow> life_inv s' \<and> culls s' = [] \<and>
    local_connections s' = filter (\<lambda>a. a \<notin> set (culls s)) (local_connections s) \<and> conns s' = conns s |` (- set (culls s))", OF _ ret])
  fix f s s'
  assume IH: "\<And>s s'. f s = Some s' \<Longrightarrow> life_inv s \<longrightarrow> life_inv s' \<and> culls s' = [] \<and>
      local_connections s' = filter (\<lambda>a. a \<notin> set (culls s)) (local_connections s) \<and> conns s' = conns s |` (- set (culls s))"
    and e: "(case culls s of [] \<Rightarrow> Some s | a # as \<Rightarrow> do { s' \<leftarrow> cull_one a s; f s' }) = Some s'"
  show "life_inv s \<longrightarrow> life_inv s' \<and> culls s' = [] \<and>
      local_connections s' = filter (\<lambda>a. a \<notin> set (culls s)) (local_connections s) \<and> conns s' = conns s |` (- set (culls s))"
  proof
    assume inv: "life_inv s"
    show "life_inv s' \<and> culls s' = [] \<and>
      local_connections s' = filter (\<lambda>a. a \<notin> set (culls s)) (local_connections s) \<and> conns s' = conns s |` (- set (culls s))"
    proof (cases "culls s")
      case Nil
      with e inv show ?thesis by (simp add: restrict_map_def)
    next
      case (Cons a as)
      with e obtain s1 where one: "cull_one a s = Some s1" and f: "f s1 = Some s'" by (auto split: bind_splits)
      note r = cull_one_result [OF one inv]
      have inv1: "life_inv s1" using r Cons by (intro life_inv_cull [OF inv Cons]) auto
      have d: "distinct (local_connections s)" using inv by (simp add: life_inv_def)
      have "filter (\<lambda>b. b \<notin> set as) (remove1 a (local_connections s)) = filter (\<lambda>b. b \<notin> set (a # as)) (local_connections s)"
        using d by (auto simp: distinct_remove1_removeAll removeAll_filter_not_eq intro: filter_cong)
      moreover have "((conns s)(a := None)) |` (- set as) = conns s |` (- set (a # as))"
        by (auto simp: restrict_map_def)
      ultimately show ?thesis using IH [OF f] inv1 r Cons by simp
    qed
  qed
qed


section \<open>The loops end\<close>

interpretation cgimap: key_order nat_less "\<lambda>p. p"
  by unfold_locales simp

definition cgi_ok :: "server \<Rightarrow> bool" where
  "cgi_ok s \<longleftrightarrow> cgimap.om_inv (CGIRequests s) \<and> distinct (map snd (CGIRequests s)) \<and>
     (\<forall>n\<in>snd ` set (CGIRequests s). \<exists>r. cgis s n = Some r \<and> cgi_fd r \<noteq> MAX_DESCRIPTORS (SE s))"

lemma om_erase_found:
  "om_find lt k m = Some v \<Longrightarrow> \<exists>pre k' post. m = pre @ (k', v) # post \<and> om_erase lt k m = pre @ post"
proof (induction m)
  case (Cons e m)
  obtain k' v' where e: "e = (k', v')" by (cases e)
  show ?case
  proof (cases "lt k k'")
    case False
    show ?thesis
    proof (cases "lt k' k")
      case True
      with Cons.prems False e obtain pre k'' post where "m = pre @ (k'', v) # post" "om_erase lt k m = pre @ post"
        using Cons.IH by (auto simp: om_find.simps(2))
      with True False e show ?thesis
        by (intro exI [of _ "e # pre"] exI [of _ k''] exI [of _ post]) (simp add: om_erase.simps(2))
    next
      case f: False
      with Cons.prems False e show ?thesis
        by (intro exI [of _ "[]"]) (simp add: om_find.simps(2) om_erase.simps(2))
    qed
  qed (use Cons.prems e in \<open>simp add: om_find.simps(2)\<close>)
qed simp

lemma DelFd_total:
  "sk \<noteq> MAX_DESCRIPTORS (SE s) \<Longrightarrow> \<exists>b s'. DelFd eh sk force s = Some (b, s')"
  by (cases "engine_kind (SE s)")
    (auto simp: DelFd_def epoll_DelFd_def kqueue_DelFd_def ports_DelFd_def select_DelFd_def set_ref_def syscall_def Let_def)

lemma DelFd_MAX: "DelFd eh sk force s = Some (b, s') \<Longrightarrow> MAX_DESCRIPTORS (SE s') = MAX_DESCRIPTORS (SE s)"
  by (cases "engine_kind (SE s)")
    (auto simp: DelFd_def epoll_DelFd_def kqueue_DelFd_def ports_DelFd_def select_DelFd_def set_ref_def syscall_def Let_def
      split: if_splits bind_splits)

lemma SE_calls_SE [simp]: "SE (snd (SE_Close sk s)) = SE s" "SE (snd (SE_Shutdown sk how s)) = SE s"
  by (auto simp: SE_Close_def SE_Shutdown_def split: prod.splits dest: syscall_SE')

lemma SE_calls_rest [simp]:
  "cgis (snd (SE_Close sk (s :: server))) = cgis s" "CGIRequests (snd (SE_Close sk s)) = CGIRequests s"
  "cgis (snd (SE_Shutdown sk how s)) = cgis s" "CGIRequests (snd (SE_Shutdown sk how s)) = CGIRequests s"
  by (auto simp: SE_Close_def SE_Shutdown_def srv_io_fields dest!: syscall_frame split: prod.splits)

lemma CGI_destroy_total:
  assumes "cgis s n = Some r" and "cgi_fd r \<noteq> MAX_DESCRIPTORS (SE s)"
  shows "\<exists>s'. CGI_destroy n s = Some s' \<and> cgis s' = (cgis s)(n := None) \<and> CGIRequests s' = CGIRequests s \<and>
    MAX_DESCRIPTORS (SE s') = MAX_DESCRIPTORS (SE s)"
proof (cases "cgi_fd r > - 1")
  case True
  obtain b s1 where d: "DelFd (H_Cgi n) (cgi_fd r) False s = Some (b, s1)" using DelFd_total assms(2) by blast
  note io = srv_io_fields [OF DelFd_frame [OF d]]
  show ?thesis
    using assms(1) True d DelFd_MAX [OF d] io
    by (auto simp: CGI_destroy_def CGI_Close_socket_def Let_def case_prod_beta)
next
  case False
  then show ?thesis using assms(1) by (simp add: CGI_destroy_def CGI_Close_socket_def)
qed

text \<open>Taking a request out of the map and out of the heap.\<close>

lemma cgi_ok_remove:
  assumes ok: "cgi_ok s" and f: "om_find nat_less p (CGIRequests s) = Some n"
  shows "\<exists>s1. CGI_destroy n s = Some s1 \<and> cgi_ok (s1\<lparr>CGIRequests := om_erase nat_less p (CGIRequests s1)\<rparr>) \<and>
    MAX_DESCRIPTORS (SE s1) = MAX_DESCRIPTORS (SE s) \<and>
    length (om_erase nat_less p (CGIRequests s1)) < length (CGIRequests s)"
proof -
  obtain pre k post where m: "CGIRequests s = pre @ (k, n) # post" "om_erase nat_less p (CGIRequests s) = pre @ post"
    using om_erase_found [OF f] by blast
  obtain r where r: "cgis s n = Some r" "cgi_fd r \<noteq> MAX_DESCRIPTORS (SE s)"
    using ok unfolding cgi_ok_def by (auto simp: m(1))
  obtain s1 where s1: "CGI_destroy n s = Some s1" "cgis s1 = (cgis s)(n := None)" "CGIRequests s1 = CGIRequests s"
    "MAX_DESCRIPTORS (SE s1) = MAX_DESCRIPTORS (SE s)" using CGI_destroy_total [OF r] by blast
  have "cgimap.om_inv (om_erase nat_less p (CGIRequests s))" using ok by (simp add: cgi_ok_def cgimap.om_inv_erase)
  moreover have "distinct (map snd (pre @ post))" "n \<notin> snd ` set (pre @ post)" using ok by (auto simp: cgi_ok_def m(1))
  moreover have "\<exists>r. ((cgis s)(n := None)) n' = Some r \<and> cgi_fd r \<noteq> MAX_DESCRIPTORS (SE s)" if "n' \<in> snd ` set (pre @ post)" for n'
    using that ok calculation(3) unfolding cgi_ok_def m(1) by (auto simp: image_iff)
  ultimately have "cgi_ok (s1\<lparr>CGIRequests := om_erase nat_less p (CGIRequests s1)\<rparr>)"
    unfolding cgi_ok_def by (simp add: s1 m(2))
  then show ?thesis using s1 m by auto
qed

lemma CGI_forget_total:
  assumes ok: "cgi_ok s"
  shows "\<exists>s'. CGI_forget p s = Some s' \<and> cgi_ok s' \<and> MAX_DESCRIPTORS (SE s') = MAX_DESCRIPTORS (SE s)"
proof (cases "om_find nat_less p (CGIRequests s)")
  case (Some n)
  from cgi_ok_remove [OF ok Some] Some show ?thesis by (auto simp: CGI_forget_def)
qed (use ok in \<open>simp add: CGI_forget_def\<close>)

lemma OnConnectionDisconnect_total:
  assumes "cgi_ok s"
  shows "\<exists>s'. foreach_mod (\<lambda>m. OnConnectionDisconnect m p) ms s = Some s' \<and> cgi_ok s' \<and>
    MAX_DESCRIPTORS (SE s') = MAX_DESCRIPTORS (SE s)"
  using assms
proof (induction ms arbitrary: s)
  case (Cons m ms)
  obtain s1 where 1: "OnConnectionDisconnect m p s = Some s1" "cgi_ok s1" "MAX_DESCRIPTORS (SE s1) = MAX_DESCRIPTORS (SE s)"
    using CGI_forget_total [OF Cons.prems, of p] Cons.prems by (cases m) (auto simp: OnConnectionDisconnect_def)
  from Cons.IH [OF 1(2)] 1 show ?case by auto
qed simp

lemma cgi_ok_cong: "CGIRequests s' = CGIRequests s \<Longrightarrow> cgis s' = cgis s \<Longrightarrow>
    MAX_DESCRIPTORS (SE s') = MAX_DESCRIPTORS (SE s) \<Longrightarrow> cgi_ok s' = cgi_ok s"
  by (simp add: cgi_ok_def)

lemma cull_one_total:
  assumes ok: "cgi_ok s" and c: "conns s a = Some c" "fd c \<noteq> MAX_DESCRIPTORS (SE s)"
  shows "\<exists>s'. cull_one a s = Some s' \<and> cgi_ok s' \<and> MAX_DESCRIPTORS (SE s') = MAX_DESCRIPTORS (SE s)"
proof -
  obtain s1 where h: "foreach_mod (\<lambda>m. OnConnectionDisconnect m a) (event_handlers s I_OnConnectionDisconnect) s = Some s1"
    "cgi_ok s1" "MAX_DESCRIPTORS (SE s1) = MAX_DESCRIPTORS (SE s)" using OnConnectionDisconnect_total [OF ok] by blast
  obtain b s2 where d: "DelFd (H_Conn a) (fd c) False s1 = Some (b, s2)" using DelFd_total c(2) h(3) by metis
  note io = srv_io_fields [OF DelFd_frame [OF d]]
  show ?thesis
    using c(1) h d DelFd_MAX [OF d] io
    by (auto simp: cull_one_def CloseSocket_def Connection_destroy_def Let_def intro: cgi_ok_cong [THEN iffD1, of s1])
qed


lemma quiet_prefix: "srv_step s s' \<Longrightarrow> \<exists>new. trace s' = trace s @ new"
  by (auto simp: srv_step_def quiet_def)

lemma CloseSocket_trace:
  "\<exists>r r'. trace (CloseSocket c s) = trace s @ [(Sys_shutdown (fd c) 2, r), (Sys_close (fd c), r')]"
  by (auto simp: CloseSocket_def SE_Close_def SE_Shutdown_def dest!: syscall_trace split: prod.splits)

lemma disconnect_step:
  "foreach_mod (\<lambda>m. OnConnectionDisconnect m a) ms s = Some s' \<Longrightarrow> srv_step s s'"
  by (rule foreach_mod_step [rotated]) (auto dest: OnConnectionDisconnect_step)

lemma cull_one_closes:
  assumes "cull_one a s = Some s'" and c: "conns s a = Some c"
  shows "\<exists>new. trace s' = trace s @ new \<and> Sys_close (fd c) \<in> fst ` set new"
proof -
  from assms obtain s1 ok s2
    where h: "foreach_mod (\<lambda>m. OnConnectionDisconnect m a) (event_handlers s I_OnConnectionDisconnect) s = Some s1"
      and d: "DelFd (H_Conn a) (fd c) False s1 = Some (ok, s2)"
      and s': "s' = (let s3 = CloseSocket c s2;
         s4 = s3\<lparr>local_connections := remove1 a (local_connections s3)\<rparr>; s5 = Connection_destroy c s4
         in s5\<lparr>culls := tl (culls s5)\<rparr>)"
    by (auto simp: cull_one_def Let_def split: bind_splits)
  obtain n1 where n1: "trace s2 = trace s @ n1"
    using quiet_prefix [OF srv_step_trans [OF disconnect_step [OF h] DelFd_srv_step [OF d]]] by blast
  obtain r r' where cl: "trace (CloseSocket c s2) = trace s2 @ [(Sys_shutdown (fd c) 2, r), (Sys_close (fd c), r')]"
    using CloseSocket_trace by blast
  define s4 where "s4 = (CloseSocket c s2)\<lparr>local_connections := remove1 a (local_connections (CloseSocket c s2))\<rparr>"
  define s5 where "s5 = (if filefd c > - 1 then snd (SE_Close (filefd c) s4) else s4)"
  have "srv_step s4 s5" by (simp add: s5_def)
  then obtain n2 where "trace s5 = trace s4 @ n2" using quiet_prefix by blast
  then have "trace s' = trace s @ (n1 @ [(Sys_shutdown (fd c) 2, r), (Sys_close (fd c), r')] @ n2)"
    by (auto simp: s' Connection_destroy_def s4_def s5_def Let_def cl n1)
  then show ?thesis by (intro exI conjI) auto
qed

lemma cull_loop_total:
  assumes "life_inv s" and "cgi_ok s" and "\<forall>a\<in>set (culls s). fd (the (conns s a)) \<noteq> MAX_DESCRIPTORS (SE s)"
  shows "\<exists>s' new. cull_loop s = Some s' \<and> trace s' = trace s @ new \<and>
    (\<forall>a\<in>set (culls s). Sys_close (fd (the (conns s a))) \<in> fst ` set new)"
  using assms
proof (induction "culls s" arbitrary: s)
  case Nil
  have "cull_loop s = Some s" using Nil(1) by (subst cull_loop.simps) (simp split: list.splits)
  with Nil(1) show ?case by auto
next
  case (Cons a as)
  note cu = Cons.hyps(2) [symmetric]
  obtain c where c: "conns s a = Some c" using Cons.prems(1) cu unfolding life_inv_def by (metis list.set_intros(1))
  have "fd c \<noteq> MAX_DESCRIPTORS (SE s)" using Cons.prems(3) cu c by auto
  from cull_one_total [OF Cons.prems(2) c this] obtain s1
    where one: "cull_one a s = Some s1" and ok: "cgi_ok s1" "MAX_DESCRIPTORS (SE s1) = MAX_DESCRIPTORS (SE s)" by blast
  note r = cull_one_result [OF one Cons.prems(1)]
  have inv: "life_inv s1" using r cu by (intro life_inv_cull [OF Cons.prems(1) cu]) auto
  have a: "a \<notin> set as" using Cons.prems(1) cu by (auto simp: life_inv_def)
  then have same: "conns s1 b = conns s b" if "b \<in> set as" for b using r that by auto
  obtain n1 where n1: "trace s1 = trace s @ n1" "Sys_close (fd c) \<in> fst ` set n1" using cull_one_closes [OF one c] by blast
  obtain s' n2 where rest: "cull_loop s1 = Some s'" "trace s' = trace s1 @ n2"
    "\<forall>b\<in>set as. Sys_close (fd (the (conns s1 b))) \<in> fst ` set n2"
    using Cons.hyps(1) [OF _ inv ok(1)] r cu same Cons.prems(3) ok(2) by auto
  have "cull_loop s = Some s'" using one rest(1) cu by (subst cull_loop.simps) simp
  moreover have "trace s' = trace s @ (n1 @ n2)" using rest(2) n1(1) by simp
  moreover have "\<forall>b\<in>set (culls s). Sys_close (fd (the (conns s b))) \<in> fst ` set (n1 @ n2)"
    using rest(3) same n1(2) c cu by auto
  ultimately show ?case by blast
qed

text \<open>Claim C32: culling always ends, and does exactly its job: the cull list is empty afterwards, the
  connections that were on it and no others are gone from the list of connections (whose order
  stays) and from memory, and the socket of each of them has been closed.\<close>

theorem culling:
  assumes "life_inv s" and "cgi_ok s" and "\<forall>a\<in>set (culls s). fd (the (conns s a)) \<noteq> MAX_DESCRIPTORS (SE s)"
  shows "\<exists>s' new. CullList_Apply s = Some (length (culls s), s') \<and> life_inv s' \<and> culls s' = [] \<and>
    local_connections s' = filter (\<lambda>a. a \<notin> set (culls s)) (local_connections s) \<and>
    conns s' = conns s |` (- set (culls s)) \<and>
    trace s' = trace s @ new \<and> (\<forall>a\<in>set (culls s). Sys_close (fd (the (conns s a))) \<in> fst ` set new)"
proof -
  obtain s' new where "cull_loop s = Some s'" "trace s' = trace s @ new"
    "\<forall>a\<in>set (culls s). Sys_close (fd (the (conns s a))) \<in> fst ` set new" using cull_loop_total [OF assms] by blast
  with cull_loop_result [of s s'] assms(1) show ?thesis by (auto simp: CullList_Apply_def)
qed

text \<open>A server with two connections, the first of which is quitting and has a running CGI request.\<close>

definition cull_demo :: server where
  "cull_demo = fs_demo\<lparr>next_addr := 4, local_connections := [1, 2], culls := [1],
     conns := [1 \<mapsto> (Connection_new 1 990 fs_demo)\<lparr>fd := 5, quitting := True, State := HTTP_FINISHED\<rparr>,
               2 \<mapsto> (Connection_new 2 995 fs_demo)\<lparr>fd := 6\<rparr>],
     CGIRequests := [(1, 3)], total_cgi_processes := 1,
     cgis := [3 \<mapsto> \<lparr>cgi_fd = 7, cgi_conn = 1, cgi_rbuf = [], cgi_done = False\<rparr>]\<rparr>"

lemma cull_demo_ok: "life_inv cull_demo" "cgi_ok cull_demo"
  "\<forall>a\<in>set (culls cull_demo). fd (the (conns cull_demo a)) \<noteq> MAX_DESCRIPTORS (SE cull_demo)"
  by (auto simp: life_inv_def cgi_ok_def cull_demo_def Connection_new_def fs_demo_def engine_new_def split: if_splits)

theorem culling_witness:
  "\<exists>s'. CullList_Apply cull_demo = Some (1, s') \<and> local_connections s' = [2] \<and> conns s' 1 = None \<and> conns s' 2 \<noteq> None"
proof -
  obtain s' where "CullList_Apply cull_demo = Some (length (culls cull_demo), s')"
    "local_connections s' = filter (\<lambda>a. a \<notin> set (culls cull_demo)) (local_connections cull_demo)"
    "conns s' = conns cull_demo |` (- set (culls cull_demo))" using culling [OF cull_demo_ok] by blast
  then show ?thesis by (simp add: cull_demo_def)
qed

text \<open>The timer of the CGI module.\<close>

lemma cgi_first_done_result:
  assumes "\<forall>n\<in>snd ` set m. h n \<noteq> None"
  shows "\<exists>f. cgi_first_done h m = Some f \<and>
    (case f of None \<Rightarrow> \<forall>n\<in>snd ` set m. \<not> cgi_done (the (h n)) | Some (p, n) \<Rightarrow> (p, n) \<in> set m)"
  using assms
proof (induction h m rule: cgi_first_done.induct)
  case (2 h p n m)
  then obtain r where r: "h n = Some r" by auto
  show ?case
  proof (cases "cgi_done r")
    case False
    from 2 r False obtain f where "cgi_first_done h m = Some f"
      "case f of None \<Rightarrow> \<forall>n\<in>snd ` set m. \<not> cgi_done (the (h n)) | Some (p, n) \<Rightarrow> (p, n) \<in> set m" by auto
    with r False show ?thesis by (intro exI [of _ f]) (auto split: option.splits)
  qed (use r in simp)
qed simp

lemma om_find_member:
  "cgimap.om_inv m \<Longrightarrow> (p, n) \<in> set m \<Longrightarrow> om_find nat_less p m = Some n"
  by (induction m) (auto, fastforce+)

lemma CGI_timer_total:
  assumes "cgi_ok s"
  shows "\<exists>s'. CGI_OnBackgroundTimer s = Some s' \<and> cgi_ok s' \<and> (\<forall>n\<in>snd ` set (CGIRequests s'). \<not> cgi_done (the (cgis s' n)))"
  using assms
proof (induction "length (CGIRequests s)" arbitrary: s rule: less_induct)
  case less
  have "\<forall>n\<in>snd ` set (CGIRequests s). cgis s n \<noteq> None" using less.prems by (auto simp: cgi_ok_def)
  from cgi_first_done_result [OF this] obtain f where f: "cgi_first_done (cgis s) (CGIRequests s) = Some f"
    and r: "case f of None \<Rightarrow> \<forall>n\<in>snd ` set (CGIRequests s). \<not> cgi_done (the (cgis s n)) | Some (p, n) \<Rightarrow> (p, n) \<in> set (CGIRequests s)"
    by blast
  show ?case
  proof (cases f)
    case None
    have "CGI_OnBackgroundTimer s = Some s" by (subst CGI_OnBackgroundTimer.simps) (simp add: f None)
    with r None less.prems show ?thesis by simp
  next
    case (Some pn)
    obtain p n where pn: "pn = (p, n)" by (cases pn)
    have "om_find nat_less p (CGIRequests s) = Some n"
      using r less.prems by (intro om_find_member) (auto simp: Some pn cgi_ok_def)
    from cgi_ok_remove [OF less.prems this] obtain s1 where s1: "CGI_destroy n s = Some s1"
      "cgi_ok (s1\<lparr>CGIRequests := om_erase nat_less p (CGIRequests s1)\<rparr>)"
      "length (om_erase nat_less p (CGIRequests s1)) < length (CGIRequests s)" by blast
    have "CGI_OnBackgroundTimer s = CGI_OnBackgroundTimer (s1\<lparr>CGIRequests := om_erase nat_less p (CGIRequests s1)\<rparr>)"
      by (subst CGI_OnBackgroundTimer.simps) (simp add: f Some pn s1(1))
    with less.hyps [OF _ s1(2)] s1(3) show ?thesis by simp
  qed
qed

lemma CGI_timer_step: 
  assumes ret: "CGI_OnBackgroundTimer s = Some s'"
  shows "srv_step s s'"
proof (rule CGI_OnBackgroundTimer.raw_induct [where P = srv_step, OF _ ret])
  fix f s s'
  assume IH: "\<And>s s'. f s = Some s' \<Longrightarrow> srv_step s s'"
    and e: "do { found \<leftarrow> cgi_first_done (cgis s) (CGIRequests s);
       (case found of None \<Rightarrow> Some s
        | Some (p, n) \<Rightarrow> do { s1 \<leftarrow> CGI_destroy n s; f (s1\<lparr>CGIRequests := om_erase nat_less p (CGIRequests s1)\<rparr>) }) } = Some s'"
  from e consider "s' = s" | p n s1 where "CGI_destroy n s = Some s1" "f (s1\<lparr>CGIRequests := om_erase nat_less p (CGIRequests s1)\<rparr>) = Some s'"
    by (auto split: bind_splits option.splits)
  then show "srv_step s s'"
  proof cases
    case 2
    show ?thesis
      by (rule srv_step_trans [OF CGI_destroy_step [OF 2(1)] srv_step_trans [OF srv_step_update(4) IH [OF 2(2)]]])
  qed simp
qed

lemma OnBackgroundTimer_step: "OnBackgroundTimer m s = Some s' \<Longrightarrow> srv_step s s'"
  by (cases m) (auto simp: OnBackgroundTimer_def dest: CGI_timer_step)


section \<open>Who times out\<close>

definition finish :: "conn \<Rightarrow> conn" where
  "finish c = c\<lparr>quitting := True, State := HTTP_FINISHED\<rparr>"

lemma timeout_conn_eq:
  assumes "conns s a = Some c" and "this_ptr c = a"
  shows "timeout_conn a s = Some (if timed_out c s
    then s\<lparr>culls := culls s @ (if quitting c then [] else [a]), conns := (conns s)(a \<mapsto> finish c)\<rparr> else s)"
  using assms
  by (auto simp: timeout_conn_def timed_out_def delete_conn_def Delete_def AddItem_def put_conn_def finish_def)

lemma timeout_loop_eq:
  assumes "distinct as" and "\<forall>a\<in>set as. \<exists>c. conns s a = Some c \<and> this_ptr c = a"
  shows "\<exists>s'. timeout_loop as s = Some s' \<and> TIME s' = TIME s \<and> Config s' = Config s \<and>
    local_connections s' = local_connections s \<and>
    culls s' = culls s @ filter (\<lambda>a. timed_out (the (conns s a)) s \<and> \<not> quitting (the (conns s a))) as \<and>
    (\<forall>b. conns s' b = (if b \<in> set as \<and> timed_out (the (conns s b)) s then Some (finish (the (conns s b))) else conns s b))"
  using assms
proof (induction as arbitrary: s)
  case (Cons a as)
  from Cons.prems(2) obtain c where c: "conns s a = Some c" "this_ptr c = a" by auto
  define s1 where "s1 = (if timed_out c s
    then s\<lparr>culls := culls s @ (if quitting c then [] else [a]), conns := (conns s)(a \<mapsto> finish c)\<rparr> else s)"
  have 1: "timeout_conn a s = Some s1" using timeout_conn_eq [OF c] by (simp add: s1_def)
  have same: "conns s1 b = conns s b" if "b \<noteq> a" for b using that by (simp add: s1_def)
  have time: "timed_out d s1 = timed_out d s" for d by (simp add: timed_out_def s1_def)
  have a: "a \<notin> set as" "distinct as" using Cons.prems(1) by auto
  have "\<forall>b\<in>set as. \<exists>c. conns s1 b = Some c \<and> this_ptr c = b"
    using Cons.prems(2) same a(1) by (metis list.set_intros(2))
  from Cons.IH [OF a(2) this] obtain s' where s': "timeout_loop as s1 = Some s'" "TIME s' = TIME s1" "Config s' = Config s1"
    "local_connections s' = local_connections s1"
    "culls s' = culls s1 @ filter (\<lambda>a. timed_out (the (conns s1 a)) s1 \<and> \<not> quitting (the (conns s1 a))) as"
    "\<forall>b. conns s' b = (if b \<in> set as \<and> timed_out (the (conns s1 b)) s1 then Some (finish (the (conns s1 b))) else conns s1 b)"
    by blast
  have "filter (\<lambda>a. timed_out (the (conns s1 a)) s1 \<and> \<not> quitting (the (conns s1 a))) as =
      filter (\<lambda>a. timed_out (the (conns s a)) s \<and> \<not> quitting (the (conns s a))) as"
  proof (rule filter_cong)
    fix b assume "b \<in> set as"
    with a(1) same [of b] have "conns s1 b = conns s b" by blast
    then show "(timed_out (the (conns s1 b)) s1 \<and> \<not> quitting (the (conns s1 b))) =
        (timed_out (the (conns s b)) s \<and> \<not> quitting (the (conns s b)))" by (simp add: time)
  qed simp
  then have "culls s' = culls s @ filter (\<lambda>a. timed_out (the (conns s a)) s \<and> \<not> quitting (the (conns s a))) (a # as)"
    using s'(5) c by (simp add: s1_def)
  moreover have "conns s' b = (if b \<in> set (a # as) \<and> timed_out (the (conns s b)) s then Some (finish (the (conns s b))) else conns s b)" for b
  proof (cases "b = a")
    case True
    then show ?thesis using s'(6) a(1) c by (simp add: s1_def)
  next
    case False
    then show ?thesis using s'(6) same [OF False] by (simp add: time)
  qed
  ultimately show ?case using s'(1-4) 1 by (simp add: s1_def)
qed simp

text \<open>Claim C33: a sweep for timeouts puts on the cull list exactly the connections that are too old or have been
  idle for too long and that were not quitting already, each once and in the order of the list of
  connections; those are marked as finished and all others are left as they are.\<close>

theorem timeouts_exact:
  assumes "life_inv s"
  shows "\<exists>s'. timeout_connections s = Some s' \<and> life_inv s' \<and> local_connections s' = local_connections s \<and>
    culls s' = culls s @ filter (\<lambda>a. timed_out (the (conns s a)) s \<and> \<not> quitting (the (conns s a))) (local_connections s) \<and>
    (\<forall>a\<in>set (local_connections s). conns s' a =
       Some (if timed_out (the (conns s a)) s then finish (the (conns s a)) else the (conns s a)))"
proof -
  have d: "distinct (local_connections s)" and heap: "\<forall>a\<in>set (local_connections s). \<exists>c. conns s a = Some c \<and> this_ptr c = a"
    using assms unfolding life_inv_def by auto
  from timeout_loop_eq [OF d heap] obtain s' where s': "timeout_loop (local_connections s) s = Some s'"
    "local_connections s' = local_connections s"
    "culls s' = culls s @ filter (\<lambda>a. timed_out (the (conns s a)) s \<and> \<not> quitting (the (conns s a))) (local_connections s)"
    "\<forall>b. conns s' b = (if b \<in> set (local_connections s) \<and> timed_out (the (conns s b)) s then Some (finish (the (conns s b))) else conns s b)"
    by blast
  have "conns s' a = Some (if timed_out (the (conns s a)) s then finish (the (conns s a)) else the (conns s a))"
    if "a \<in> set (local_connections s)" for a using s'(4) heap that by fastforce
  moreover have "life_inv s'" using timeout_loop_inv [OF assms s'(1)] .
  ultimately show ?thesis using s' by (simp add: timeout_connections_def)
qed

theorem timeouts_exact_witness:
  "\<exists>s' c. timeout_connections (cull_demo\<lparr>TIME := 1060\<rparr>) = Some s' \<and> culls s' = [1, 2] \<and> conns s' 2 = Some c \<and> quitting c"
proof -
  let ?s = "cull_demo\<lparr>TIME := 1060\<rparr>"
  have inv: "life_inv ?s" using cull_demo_ok(1) by (simp add: life_inv_def)
  have f: "timed_out (the (conns ?s 1)) ?s" "timed_out (the (conns ?s 2)) ?s" "quitting (the (conns ?s 1))" "\<not> quitting (the (conns ?s 2))"
    by (simp_all add: timed_out_def cull_demo_def Connection_new_def fs_demo_def)
  have l: "local_connections ?s = [1, 2]" "culls ?s = [1]" by (simp_all add: cull_demo_def)
  from timeouts_exact [OF inv] f l show ?thesis by (auto simp: finish_def simp del: One_nat_def)
qed

end
