(* ===== verification/Listen.thy ===== *)
theory Listen
  imports Lifecycle PortParser Cidr ConfigLookup
begin

text \<open>
  Listening sockets (\<open>src/socket.cpp\<close>): opening and binding them, \<open>ListenSocket\<close> with the loop that
  accepts connections, and \<open>InspIRCd::BindPorts\<close>, which brings the listeners in line with the
  configuration. A listener lives in the map \<open>listeners\<close>; \<open>None\<close> is the use of one that is gone,
  or a loop that does not end.
\<close>

section \<open>Opening and binding\<close>

text \<open>The result is a descriptor, or \<open>ERROR\<close>, which is \<open>-1\<close>.\<close>

definition OpenTCPSocket :: "string \<Rightarrow> server \<Rightarrow> int \<times> server" where
  "OpenTCPSocket addr s =
     (case syscall (Sys_socket (IPV6 s \<and> (CHR '':'' \<in> set addr \<or> addr = []))) s of (r, s1) \<Rightarrow>
        if r_ret r < 0 then (- 1, s1)
        else (r_ret r, snd (syscall (Sys_setsockopt (r_ret r) ''SO_LINGER'')
                             (snd (syscall (Sys_setsockopt (r_ret r) ''SO_REUSEADDR'') s1)))))"

text \<open>The address that is bound, with the wildcard of the family that is chosen for an empty one.\<close>

definition bind_target :: "string \<Rightarrow> int \<Rightarrow> server \<Rightarrow> string \<times> int" where
  "bind_target addr port s =
     (if addr \<noteq> [] then (addr, port mod 2 ^ 16)
      else if \<not> IPV6 s then (''0.0.0.0'', port mod 2 ^ 16)
      else if port = - 1 then (''0.0.0.0'', 0) else (''::'', port mod 2 ^ 16))"

text \<open>The string result is what the caller's buffer \<open>addr\<close> holds afterwards.\<close>

definition BindSocket :: "pton \<Rightarrow> int \<Rightarrow> int \<Rightarrow> string \<Rightarrow> bool \<Rightarrow> server \<Rightarrow> bool \<times> string \<times> server" where
  "BindSocket inet_pton sockfd port addr0 dolisten s =
     (let addr = (if addr0 \<noteq> [] \<and> hd addr0 = CHR ''*'' then [] else addr0) in
      if addr \<noteq> [] \<and> inet_pton (IPV6 s \<and> CHR '':'' \<in> set addr) addr = None then (False, addr, s)
      else
        (case SE_Bind sockfd (fst (bind_target addr port s)) (snd (bind_target addr port s)) s of (ret, s1) \<Rightarrow>
           if ret < 0 then (False, addr, s1)
           else if dolisten then
             (case SE_Listen sockfd (MaxConn (Config s1)) s1 of (l, s2) \<Rightarrow>
                if l = - 1 then (False, addr, s2) else (True, addr, snd (NonBlocking sockfd s2)))
           else (True, addr, s1)))"

section \<open>\<open>ListenSocket\<close>\<close>

text \<open>The constructor: the address of the object. A socket that cannot be bound is not closed; the object only
  forgets it.\<close>

definition ListenSocket_new :: "pton \<Rightarrow> int \<Rightarrow> string \<Rightarrow> server \<Rightarrow> (nat \<times> server) option" where
  "ListenSocket_new inet_pton port addr s =
     (let p = next_addr s;
          (fd0, s1) = OpenTCPSocket addr (s\<lparr>next_addr := p + 1\<rparr>)
      in if fd0 > - 1 then
           (case BindSocket inet_pton fd0 port addr True s1 of (ok, addr', s2) \<Rightarrow>
              let fd1 = (if ok then fd0 else - 1);
                  l = \<lparr>ls_fd = fd1, ls_v6 = IPV6 s \<and> (addr' = [] \<or> CHR '':'' \<in> set addr'), bind_addr = addr, bind_port = port\<rparr>
              in do {
                (_, s3) \<leftarrow> AddFd (H_Listen p) fd1 s2;
                Some (p, s3\<lparr>listeners := (listeners s3)(p \<mapsto> l)\<rparr>)
              })
         else
           Some (p, s1\<lparr>listeners := (listeners s1)(p \<mapsto> \<lparr>ls_fd = fd0, ls_v6 = False, bind_addr = addr, bind_port = port\<rparr>)\<rparr>))"

text \<open>\<open>delete\<close>: the socket is closed only when it could be shut down.\<close>

definition ListenSocket_delete :: "nat \<Rightarrow> server \<Rightarrow> server option" where
  "ListenSocket_delete p s = do {
     l \<leftarrow> listeners s p;
     if ls_fd l > - 1 then do {
       (_, s1) \<leftarrow> DelFd (H_Listen p) (ls_fd l) False s;
       (case SE_Shutdown (ls_fd l) 2 s1 of (r, s2) \<Rightarrow>
          let s3 = (if r \<noteq> 0 then s2 else snd (SE_Close (ls_fd l) s2))
          in Some (s3\<lparr>listeners := (listeners s3)(p := None)\<rparr>))
     } else Some (s\<lparr>listeners := (listeners s)(p := None)\<rparr>)
   }"

text \<open>No more connections are accepted at the soft limit or just below \<open>MAXCLIENTS\<close>.\<close>

definition accept_full :: "server \<Rightarrow> bool" where
  "accept_full s \<longleftrightarrow> length (local_connections s) + 1 > SoftLimit (Config s) \<or>
     length (local_connections s) + 1 \<ge> MAXCLIENTS s"

text \<open>One round of the loop; the first result is whether it goes on. A failed \<open>accept\<close> gives \<open>-1\<close>, which as
  an \<open>unsigned int\<close> is above every limit, so that the last two calls are made on it too.
  The reply of \<open>accept\<close> carries the peer's address, that of \<open>getsockname\<close> the local port. Every engine
  that is modelled sets \<open>CanMultiaccept\<close>.\<close>

definition accept_one :: "listen_socket \<Rightarrow> server \<Rightarrow> (bool \<times> server) option" where
  "accept_one l s =
     (if accept_full s then Some (False, s)
      else
        (case SE_Accept (ls_fd l) s of (r, s1) \<Rightarrow>
           let nfd = r_ret r in
           if int (to_uint32 nfd) \<ge> MAX_DESCRIPTORS (SE s1) then
             Some (False, snd (SE_Shutdown nfd 2 (snd (SE_Close nfd s1))))
           else if nfd > - 1 then
             (case SE_GetSockName (ls_fd l) s1 of (g, s2) \<Rightarrow>
                if r_ret g = 0 then do {
                  s3 \<leftarrow> ConnectionManager_Add nfd (fst (r_pair g)) (ls_v6 l) (r_data r) (snd (NonBlocking nfd s2));
                  Some (True, s3)
                } else Some (True, snd (SE_Close nfd (snd (SE_Shutdown nfd 2 s2)))))
           else Some (False, snd (SE_Close nfd (snd (SE_Shutdown nfd 2 s1))))))"

partial_function (option) accept_loop :: "nat \<Rightarrow> server \<Rightarrow> server option" where
  "accept_loop p s = do {
     l \<leftarrow> listeners s p;
     (go, s1) \<leftarrow> accept_one l s;
     if go then accept_loop p s1 else Some s1
   }"

definition ListenSocket_HandleEvent :: "nat \<Rightarrow> server \<Rightarrow> server option" where
  "ListenSocket_HandleEvent p s = accept_loop p s"

section \<open>What accepting keeps\<close>

definition accept_step :: "server \<Rightarrow> server \<Rightarrow> bool" where
  "accept_step s s' \<longleftrightarrow> (life_inv s \<longrightarrow> life_inv s') \<and> Config s' = Config s \<and> MAXCLIENTS s' = MAXCLIENTS s \<and>
     listeners s' = listeners s \<and> ShuttingDown s' = ShuttingDown s \<and> next_addr s \<le> next_addr s' \<and> (\<exists>new. local_connections s' = local_connections s @ new) \<and>
     length (local_connections s') \<le> max (length (local_connections s)) (min (SoftLimit (Config s)) (MAXCLIENTS s - 1))"

lemma accept_step_trans:
  assumes "accept_step s s'" and "accept_step s' s''"
  shows "accept_step s s''"
proof -
  from assms have "Config s' = Config s" "MAXCLIENTS s' = MAXCLIENTS s" by (auto simp: accept_step_def)
  with assms show ?thesis unfolding accept_step_def by (auto simp: max_def split: if_splits)
qed

lemma accept_step_srv: "srv_step s s' \<Longrightarrow> accept_step s s'"
  using life_inv_srv_step [of s s'] by (auto simp: accept_step_def srv_step_def srv_same_def)

lemma srv_step_calls:
  "SE_Accept sk s = (r, s') \<Longrightarrow> srv_step s s'" "SE_GetSockName sk s = (r, s') \<Longrightarrow> srv_step s s'"
  by (auto simp: SE_Accept_def SE_GetSockName_def silent_call_def dest: syscall_srv_step)

lemma NonBlocking_step [simp]: "srv_step s (snd (NonBlocking sk s))"
proof -
  obtain r s1 where 1: "syscall (Sys_getfl sk) s = (r, s1)" by fastforce
  obtain r' s2 where 2: "syscall (Sys_setfl_nonblock sk (r_ret r)) s1 = (r', s2)" by fastforce
  have "srv_step s s2"
    by (rule srv_step_trans [OF syscall_srv_step [OF 1] syscall_srv_step [OF 2]]) (simp_all add: silent_call_def)
  then show ?thesis by (simp add: NonBlocking_def 1 2)
qed

lemma accept_step_Add:
  assumes "srv_step s s1" and add: "ConnectionManager_Add nfd port v6 ipaddr s1 = Some s'" and "\<not> accept_full s"
  shows "accept_step s s'"
proof -
  from Add_result [OF add] obtain c where r: "local_connections s' = local_connections s1 @ [next_addr s1]"
    "listeners s' = listeners s1" "Config s' = Config s1" "MAXCLIENTS s' = MAXCLIENTS s1" "next_addr s1 \<le> next_addr s'" "ShuttingDown s' = ShuttingDown s1" by fastforce
  have s1: "next_addr s \<le> next_addr s1" "local_connections s1 = local_connections s" "listeners s1 = listeners s" "Config s1 = Config s" "MAXCLIENTS s1 = MAXCLIENTS s"
    "ShuttingDown s1 = ShuttingDown s"
    using assms(1) by (simp_all add: srv_step_def srv_same_def)
  have "life_inv s \<Longrightarrow> life_inv s'" using life_inv_Add [OF _ add] life_inv_srv_step [OF assms(1)] by blast
  with r s1 assms(3) show ?thesis by (auto simp: accept_step_def accept_full_def)
qed

lemma accept_one_step:
  assumes "accept_one l s = Some (go, s')"
  shows "accept_step s s'"
proof (cases "accept_full s")
  case False
  obtain r s1 where a: "SE_Accept (ls_fd l) s = (r, s1)" by fastforce
  note st1 = srv_step_calls(1) [OF a]
  obtain g s2 where n: "SE_GetSockName (ls_fd l) s1 = (g, s2)" by fastforce
  note st2 = srv_step_calls(2) [OF n]
  have close: "srv_step s (snd (SE_Close nfd (snd (SE_Shutdown nfd 2 sx))))"
    "srv_step s (snd (SE_Shutdown nfd 2 (snd (SE_Close nfd sx))))" if "srv_step s sx" for nfd sx
    using that by (meson SE_Close_step SE_Shutdown_step srv_step_trans)+
  have nb: "srv_step s (snd (NonBlocking nfd s2))" for nfd by (meson st1 st2 NonBlocking_step srv_step_trans)
  show ?thesis
    using assms False a n close [OF st1] close [OF srv_step_trans [OF st1 st2]] accept_step_Add [OF nb _ False]
    by (auto simp: accept_one_def Let_def split: if_splits bind_splits intro: accept_step_srv)
qed (use assms in \<open>auto simp: accept_one_def intro: accept_step_srv\<close>)

lemma accept_loop_step:
  assumes ret: "accept_loop p s = Some s'"
  shows "accept_step s s'"
proof (rule accept_loop.raw_induct [where P = "\<lambda>p. accept_step", OF _ ret])
  fix f p s s'
  assume IH: "\<And>p s s'. f p s = Some s' \<Longrightarrow> accept_step s s'"
    and e: "do { l \<leftarrow> listeners s p; (go, s1) \<leftarrow> accept_one l s; if go then f p s1 else Some s1 } = Some s'"
  from e obtain l go s1 where one: "accept_one l s = Some (go, s1)" and r: "(if go then f p s1 else Some s1) = Some s'"
    by (auto split: bind_splits)
  from r IH [of p s1 s'] have "accept_step s1 s' \<or> s' = s1" by (auto split: if_splits)
  with accept_one_step [OF one] show "accept_step s s'" using accept_step_trans by blast
qed

text \<open>Claim C34: whatever the kernel offers, accepting connections never takes the number of connections above
  the soft limit nor to \<open>MAXCLIENTS\<close> (beyond what there was before), adds new connections at the
  end of the list only, and keeps the lists of connections consistent.\<close>

theorem accept_within_limits:
  assumes "ListenSocket_HandleEvent p s = Some s'" and "life_inv s"
  shows "life_inv s' \<and> (\<exists>new. local_connections s' = local_connections s @ new) \<and>
    length (local_connections s') \<le> max (length (local_connections s)) (min (SoftLimit (Config s)) (MAXCLIENTS s - 1))"
  using accept_loop_step [of p s s'] assms by (auto simp: ListenSocket_HandleEvent_def accept_step_def)

section \<open>When accepting ends\<close>

lemma Add_total:
  assumes "0 \<le> nfd" and "nfd < MAX_DESCRIPTORS (SE s)"
  shows "\<exists>s'. ConnectionManager_Add nfd port v6 ipaddr s = Some s'"
proof -
  obtain t s1 where call: "syscall Sys_time s = (t, s1)" by fastforce
  have m: "MAX_DESCRIPTORS (SE s1) = MAX_DESCRIPTORS (SE s)" using syscall_SE' [OF call] by simp
  have "\<exists>b s'. AddFd eh nfd sx = Some (b, s')" if "MAX_DESCRIPTORS (SE sx) = MAX_DESCRIPTORS (SE s)" for eh and sx :: server
    using assms that by (cases "engine_kind (SE sx)")
      (auto simp: AddFd_def epoll_AddFd_def kqueue_AddFd_def ports_AddFd_def select_AddFd_def ref_at_def set_ref_def
        syscall_def Let_def)
  then obtain ok s3 where "AddFd (H_Conn (next_addr s1)) nfd
      (s1\<lparr>next_addr := next_addr s1 + 1, local_connections := local_connections s1 @ [next_addr s1]\<rparr>) = Some (ok, s3)"
    using m by fastforce
  with call show ?thesis by (cases ok) (auto simp: ConnectionManager_Add_def Let_def split: prod.splits)
qed


text \<open>How often \<open>getsockname\<close> has failed for a descriptor.\<close>

definition unnamed :: "int \<Rightarrow> (syscall \<times> reply) list \<Rightarrow> nat" where
  "unnamed sk tr = length (filter (\<lambda>(c, r). c = Sys_getsockname sk \<and> r_ret r \<noteq> 0) tr)"

lemma unnamed_append [simp]: "unnamed sk (tr @ tr') = unnamed sk tr + unnamed sk tr'"
  by (simp add: unnamed_def)

definition extends :: "server \<Rightarrow> server \<Rightarrow> bool" where
  "extends s s' \<longleftrightarrow> (\<exists>new. trace s' = trace s @ new)"

lemma extends_trans [trans]: "extends s s' \<Longrightarrow> extends s' s'' \<Longrightarrow> extends s s''"
  by (auto simp: extends_def)

lemma extends_srv: "srv_step s s' \<Longrightarrow> extends s s'"
  by (auto simp: extends_def srv_step_def quiet_def)

lemma extends_unnamed: "extends s s' \<Longrightarrow> unnamed sk (trace s) \<le> unnamed sk (trace s')"
  by (auto simp: extends_def)

lemma extends_Add:
  assumes "ConnectionManager_Add nfd port v6 ipaddr s = Some s'"
  shows "extends s s'"
proof -
  obtain t s1 where call: "syscall Sys_time s = (t, s1)" by fastforce
  obtain ok s3 where add: "AddFd (H_Conn (next_addr s1)) nfd
      (s1\<lparr>next_addr := next_addr s1 + 1, local_connections := local_connections s1 @ [next_addr s1]\<rparr>) = Some (ok, s3)"
    and tr: "trace s' = trace s3"
    using assms call
    by (auto simp: ConnectionManager_Add_def Let_def put_conn_def Delete_def AddItem_def split: bind_splits if_splits prod.splits)
  from extends_srv [OF AddFd_srv_step [OF add]] have "extends s1 s3" by (simp add: extends_def)
  with syscall_trace [OF call] tr show ?thesis by (auto simp: extends_def)
qed

definition accept_int :: "((syscall \<times> reply) list \<Rightarrow> syscall \<Rightarrow> reply) \<Rightarrow> bool" where
  "accept_int w \<longleftrightarrow> (\<forall>tr sk. - (2 ^ 31) \<le> r_ret (w tr (Sys_accept sk)) \<and> r_ret (w tr (Sys_accept sk)) < 2 ^ 31)"

lemma NonBlocking_SE [simp]: "SE (snd (NonBlocking sk s)) = SE s"
  by (auto simp: NonBlocking_def dest!: syscall_SE' split: prod.splits)

text \<open>Every round that is not the last has taken a connection or failed to name it.\<close>

lemma accept_one_total:
  assumes k: "accept_int (world s)"
  shows "\<exists>go s'. accept_one l s = Some (go, s') \<and> world s' = world s \<and>
    (go \<longrightarrow> \<not> accept_full s \<and> length (local_connections s') \<le> length (local_connections s) + 1 \<and>
       length (local_connections s) + unnamed (ls_fd l) (trace s) < length (local_connections s') + unnamed (ls_fd l) (trace s') \<and>
       ((\<forall>tr sk. r_ret (world s tr (Sys_getsockname sk)) = 0) \<longrightarrow> length (local_connections s') = length (local_connections s) + 1))"
proof (cases "accept_full s")
  case True
  then show ?thesis by (auto simp: accept_one_def)
next
  case False
  obtain r s1 where a: "SE_Accept (ls_fd l) s = (r, s1)" by fastforce
  have st1: "srv_step s s1" by (rule srv_step_calls(1) [OF a])
  then have w1: "world s1 = world s" by (simp add: srv_step_def srv_same_def)
  have rng: "- (2 ^ 31) \<le> r_ret r" "r_ret r < 2 ^ 31"
    using k a syscall_reply [of "Sys_accept (ls_fd l)" s r s1] by (auto simp: SE_Accept_def accept_int_def)
  have step2: "srv_step sx (snd (SE_Close nfd (snd (SE_Shutdown nfd 2 sx))))"
    "srv_step sx (snd (SE_Shutdown nfd 2 (snd (SE_Close nfd sx))))" for nfd and sx :: server
    by (meson SE_Close_step SE_Shutdown_step srv_step_trans)+
  then have cl: "world (snd (SE_Close nfd (snd (SE_Shutdown nfd 2 sx)))) = world sx"
    "world (snd (SE_Shutdown nfd 2 (snd (SE_Close nfd sx)))) = world sx" for nfd and sx :: server
    by (metis srv_step_def srv_same_def)+
  show ?thesis
  proof (cases "int (to_uint32 (r_ret r)) \<ge> MAX_DESCRIPTORS (SE s1)")
    case True
    with False a w1 cl show ?thesis by (auto simp: accept_one_def Let_def)
  next
    case big: False
    show ?thesis
    proof (cases "r_ret r > - 1")
      case True
      then have u: "int (to_uint32 (r_ret r)) = r_ret r" using rng by (simp add: to_uint32_def)
      obtain g s2 where n: "SE_GetSockName (ls_fd l) s1 = (g, s2)" by fastforce
      have st2: "srv_step s1 s2" by (rule srv_step_calls(2) [OF n])
      have st12: "srv_step s s2" by (rule srv_step_trans [OF st1 st2])
      have SE2: "SE s2 = SE s1" using n syscall_SE' by (auto simp: SE_GetSockName_def)
      show ?thesis
      proof (cases "r_ret g = 0")
        case g: True
        have nbs: "srv_step s (snd (NonBlocking (r_ret r) s2))" by (meson st12 NonBlocking_step srv_step_trans)
        then have nb: "world (snd (NonBlocking (r_ret r) s2)) = world s"
          "local_connections (snd (NonBlocking (r_ret r) s2)) = local_connections s" by (simp_all add: srv_step_def srv_same_def)
        obtain s3 where add: "ConnectionManager_Add (r_ret r) (fst (r_pair g)) (ls_v6 l) (r_data r) (snd (NonBlocking (r_ret r) s2)) = Some s3"
          using Add_total [of "r_ret r" "snd (NonBlocking (r_ret r) s2)"] True big u SE2 by fastforce
        have "accept_one l s = Some (True, s3)" using False a big True n g add by (simp add: accept_one_def Let_def)
        moreover have "world s3 = world s" "length (local_connections s3) = length (local_connections s) + 1"
          using Add_result [OF add] nb by auto
        moreover have "unnamed (ls_fd l) (trace s) \<le> unnamed (ls_fd l) (trace s3)"
          by (rule extends_unnamed) (rule extends_trans [OF extends_srv [OF nbs] extends_Add [OF add]])
        ultimately show ?thesis using False by auto
      next
        case g: False
        let ?s3 = "snd (SE_Close (r_ret r) (snd (SE_Shutdown (r_ret r) 2 s2)))"
        have one: "accept_one l s = Some (True, ?s3)" using False a big True n g by (simp add: accept_one_def Let_def)
        have s3: "srv_step s ?s3" by (rule srv_step_trans [OF st12 step2(1)])
        have "trace s2 = trace s1 @ [(Sys_getsockname (ls_fd l), g)]"
          using n syscall_trace [of "Sys_getsockname (ls_fd l)" s1 g s2] by (simp add: SE_GetSockName_def)
        then have "unnamed (ls_fd l) (trace s2) = unnamed (ls_fd l) (trace s1) + 1" using g by (simp add: unnamed_def)
        moreover have "unnamed (ls_fd l) (trace s) \<le> unnamed (ls_fd l) (trace s1)" by (rule extends_unnamed [OF extends_srv [OF st1]])
        moreover have "unnamed (ls_fd l) (trace s2) \<le> unnamed (ls_fd l) (trace ?s3)"
          by (rule extends_unnamed [OF extends_srv [OF step2(1)]])
        moreover have "world ?s3 = world s" "local_connections ?s3 = local_connections s"
          using s3 by (simp_all add: srv_step_def srv_same_def)
        moreover have "\<not> (\<forall>tr sk. r_ret (world s tr (Sys_getsockname sk)) = 0)"
          using g n w1 syscall_reply [of "Sys_getsockname (ls_fd l)" s1 g s2] by (auto simp: SE_GetSockName_def)
        ultimately show ?thesis using False one by auto
      qed
    next
      case neg: False
      have "accept_one l s = Some (False, snd (SE_Close (r_ret r) (snd (SE_Shutdown (r_ret r) 2 s1))))"
        using False a big neg by (simp add: accept_one_def Let_def)
      then show ?thesis using w1 cl by auto
    qed
  qed
qed

text \<open>The state after \<open>k\<close> rounds, when the loop goes on after each of them.\<close>

fun accept_rounds :: "nat \<Rightarrow> nat \<Rightarrow> server \<Rightarrow> server option" where
  "accept_rounds 0 p s = Some s"
| "accept_rounds (Suc k) p s = do {
     l \<leftarrow> listeners s p;
     (go, s1) \<leftarrow> accept_one l s;
     if go then accept_rounds k p s1 else None
   }"

lemma accept_rounds_count:
  "accept_rounds k p s = Some s' \<Longrightarrow> listeners s p = Some l \<Longrightarrow> accept_int (world s) \<Longrightarrow>
    length (local_connections s) + unnamed (ls_fd l) (trace s) + k \<le> length (local_connections s') + unnamed (ls_fd l) (trace s') \<and>
    length (local_connections s') \<le> max (length (local_connections s)) (SoftLimit (Config s))"
proof (induction k p s rule: accept_rounds.induct)
  case (2 k p s)
  from accept_one_total [OF "2.prems"(3), of l] obtain go s1 where one: "accept_one l s = Some (go, s1)" "world s1 = world s"
    "go \<longrightarrow> \<not> accept_full s \<and> length (local_connections s1) \<le> length (local_connections s) + 1 \<and>
       length (local_connections s) + unnamed (ls_fd l) (trace s) < length (local_connections s1) + unnamed (ls_fd l) (trace s1)"
    by blast
  with "2.prems" have go: go and rest: "accept_rounds k p s1 = Some s'" by (auto split: if_splits)
  have st: "Config s1 = Config s" "listeners s1 = listeners s" using accept_one_step [OF one(1)] by (auto simp: accept_step_def)
  from "2.IH" [OF "2.prems"(2) one(1) refl go rest] st one(2) "2.prems"(2,3)
  have "length (local_connections s1) + unnamed (ls_fd l) (trace s1) + k \<le> length (local_connections s') + unnamed (ls_fd l) (trace s')"
    "length (local_connections s') \<le> max (length (local_connections s1)) (SoftLimit (Config s))" by simp_all
  with one(3) go show ?case by (auto simp: accept_full_def max_def split: if_splits)
qed simp

lemma accept_rounds_all:
  "listeners s p = Some l \<Longrightarrow> accept_int (world s) \<Longrightarrow> accept_loop p s = None \<Longrightarrow> \<exists>s'. accept_rounds k p s = Some s'"
proof (induction k arbitrary: s)
  case (Suc k)
  from accept_one_total [OF Suc.prems(2), of l] obtain go s1 where one: "accept_one l s = Some (go, s1)" "world s1 = world s" by blast
  have st: "listeners s1 = listeners s" using accept_one_step [OF one(1)] by (auto simp: accept_step_def)
  from Suc.prems(1,3) one(1) have go: go and "accept_loop p s1 = None"
    by (subst (asm) accept_loop.simps; simp split: if_splits)+
  with Suc.IH [of s1] st one Suc.prems show ?case by simp
qed simp

lemma accept_loop_ends:
  assumes l: "listeners s p = Some l" and w: "accept_int (world s)"
  shows "(\<exists>s'. ListenSocket_HandleEvent p s = Some s') \<or>
    (\<forall>N. \<exists>s'. accept_rounds (SoftLimit (Config s) + N) p s = Some s' \<and> unnamed (ls_fd l) (trace s) + N \<le> unnamed (ls_fd l) (trace s'))"
proof (cases "accept_loop p s")
  case None
  have "\<exists>s'. accept_rounds (SoftLimit (Config s) + N) p s = Some s' \<and> unnamed (ls_fd l) (trace s) + N \<le> unnamed (ls_fd l) (trace s')" for N
  proof -
    obtain s' where r: "accept_rounds (SoftLimit (Config s) + N) p s = Some s'" using accept_rounds_all [OF l w None] by blast
    from accept_rounds_count [OF r l w] r show ?thesis by (intro exI [of _ s']) (auto simp: max_def split: if_splits)
  qed
  then show ?thesis by blast
qed (simp add: ListenSocket_HandleEvent_def)

text \<open>Claim C35: accepting ends: the limits stop the loop, unless the kernel fails for ever to tell the local
  name of the listening socket. If the handler does not return, then for every \<open>N\<close> there are \<open>N\<close>
  failures of \<open>getsockname\<close> on it within the first \<open>N\<close> rounds beyond the soft limit: a connection
  that is turned away for that is not counted. That \<open>accept\<close> returns an \<open>int\<close> is all that is asked
  of the kernel.\<close>

theorem accept_ends:
  assumes "listeners s p = Some l"
    and "\<forall>tr sk. - (2 ^ 31) \<le> r_ret (world s tr (Sys_accept sk)) \<and> r_ret (world s tr (Sys_accept sk)) < 2 ^ 31"
  shows "(\<exists>s'. ListenSocket_HandleEvent p s = Some s') \<or>
    (\<forall>N. \<exists>s'. accept_rounds (SoftLimit (Config s) + N) p s = Some s' \<and> unnamed (ls_fd l) (trace s) + N \<le> unnamed (ls_fd l) (trace s'))"
  by (rule accept_loop_ends [OF assms(1)]) (use assms(2) in \<open>simp add: accept_int_def\<close>)

text \<open>When the name can always be told, every round takes a connection, and the limits do stop the loop.\<close>

lemma accept_rounds_named:
  "accept_rounds k p s = Some s' \<Longrightarrow> accept_int (world s) \<Longrightarrow> \<forall>tr sk. r_ret (world s tr (Sys_getsockname sk)) = 0 \<Longrightarrow>
    length (local_connections s') = length (local_connections s) + k"
proof (induction k p s rule: accept_rounds.induct)
  case (2 k p s)
  then obtain l where l: "listeners s p = Some l" by (auto split: bind_splits)
  from accept_one_total [OF "2.prems"(2), of l] obtain go s1 where one: "accept_one l s = Some (go, s1)" "world s1 = world s"
    "go \<longrightarrow> (\<forall>tr sk. r_ret (world s tr (Sys_getsockname sk)) = 0) \<longrightarrow> length (local_connections s1) = length (local_connections s) + 1"
    by blast
  with "2.prems" l have go: go and rest: "accept_rounds k p s1 = Some s'" by (auto split: if_splits)
  from "2.IH" [OF l one(1) refl go rest] one(2,3) go "2.prems"(2,3) show ?case by simp
qed simp

lemma accept_named_stop:
  assumes "listeners s p = Some l" "accept_int (world s)" "\<forall>tr sk. r_ret (world s tr (Sys_getsockname sk)) = 0"
  shows "accept_rounds (SoftLimit (Config s) + 1) p s = None"
proof (rule ccontr)
  assume "accept_rounds (SoftLimit (Config s) + 1) p s \<noteq> None"
  then obtain s' where r: "accept_rounds (SoftLimit (Config s) + 1) p s = Some s'" by blast
  from accept_rounds_count [OF r assms(1,2)] accept_rounds_named [OF r assms(2,3)]
  have "length (local_connections s) + SoftLimit (Config s) + 1 \<le> max (length (local_connections s)) (SoftLimit (Config s))" by simp
  then show False by (simp add: max_def split: if_splits)
qed

lemma accept_named_ends:
  assumes "listeners s p = Some l" "accept_int (world s)" "\<forall>tr sk. r_ret (world s tr (Sys_getsockname sk)) = 0"
  shows "\<exists>s'. ListenSocket_HandleEvent p s = Some s'"
  using accept_loop_ends [OF assms(1,2)] accept_named_stop [OF assms] by (metis option.distinct(1))

text \<open>A listener that is offered one connection after the other, and may take two more.\<close>

definition listen_demo :: server where
  "listen_demo = fs_demo\<lparr>world := (\<lambda>tr c. (quiet_kernel tr c)\<lparr>
       r_ret := (case c of Sys_accept sk \<Rightarrow> 10 + int (length tr) mod 50 | _ \<Rightarrow> 0), r_data := ''192.0.2.7''\<rparr>),
     Config := (Config fs_demo)\<lparr>SoftLimit := 2\<rparr>,
     listeners := [9 \<mapsto> \<lparr>ls_fd = 4, ls_v6 = False, bind_addr = [], bind_port = 80\<rparr>], next_addr := 10\<rparr>"

lemma listen_demo_ok: "life_inv listen_demo" "listeners listen_demo 9 = Some \<lparr>ls_fd = 4, ls_v6 = False, bind_addr = [], bind_port = 80\<rparr>"
  "accept_int (world listen_demo)" "\<forall>tr sk. r_ret (world listen_demo tr (Sys_getsockname sk)) = 0"
proof -
  have "- (2 ^ 31) \<le> 10 + n mod 50 \<and> 10 + n mod 50 < 2 ^ 31" for n :: int
    using pos_mod_bound [of 50 n] pos_mod_sign [of 50 n] by (simp del: pos_mod_bound pos_mod_sign)
  then show "accept_int (world listen_demo)" by (simp add: listen_demo_def accept_int_def)
qed (simp_all add: listen_demo_def life_inv_def fs_demo_def)

theorem accept_ends_witness: "\<exists>s'. ListenSocket_HandleEvent 9 listen_demo = Some s'"
proof -
  from accept_ends [OF listen_demo_ok(2) listen_demo_ok(3) [unfolded accept_int_def]] accept_named_stop [OF listen_demo_ok(2-4)] show ?thesis
    by (metis option.distinct(1))
qed

theorem accept_within_limits_witness:
  "\<exists>s'. ListenSocket_HandleEvent 9 listen_demo = Some s' \<and> life_inv s' \<and> length (local_connections s') \<le> 2"
proof -
  obtain s' where r: "ListenSocket_HandleEvent 9 listen_demo = Some s'" using accept_named_ends [OF listen_demo_ok(2-4)] by blast
  have "SoftLimit (Config listen_demo) = 2" "local_connections listen_demo = []" by (simp_all add: listen_demo_def fs_demo_def)
  with accept_within_limits [OF r listen_demo_ok(1)] r show ?thesis by auto
qed

end
