(* ===== verification/Ports.thy ===== *)
theory Ports
  imports Listen
begin

text \<open>
  \<open>InspIRCd::BindPorts\<close> (\<open>src/socket.cpp\<close>): listeners are opened for what the sections \<open>bind\<close> of the
  configuration ask for and are not there yet, and those that nothing asks for any more are closed.
\<close>

text \<open>The variables of the function: what is returned, and the copy of the addresses at the start.\<close>

record bind_state =
  bs_bound :: int
  ports_found :: int
  failed_ports :: "(string \<times> int) list"
  old_ports :: "(string \<times> int) list"

definition ls_name :: "listen_socket \<Rightarrow> string \<times> int" where
  "ls_name l = (bind_addr l, bind_port l)"

text \<open>What the listeners are called that the vector \<open>ports\<close> points at; a dangling pointer is \<open>None\<close>.\<close>

fun port_names :: "(nat \<Rightarrow> listen_socket option) \<Rightarrow> nat list \<Rightarrow> (string \<times> int) list option" where
  "port_names h [] = Some []"
| "port_names h (p # ps) = do { l \<leftarrow> h p; ns \<leftarrow> port_names h ps; Some (ls_name l # ns) }"

text \<open>For every listener of that name, one entry is taken from the copy.\<close>

definition keep_port :: "string \<times> int \<Rightarrow> (string \<times> int) list \<Rightarrow> bind_state \<Rightarrow> bind_state" where
  "keep_port nm names b = b\<lparr>old_ports := (remove1 nm ^^ count_list names nm) (old_ports b)\<rparr>"

text \<open>One port of one section.\<close>

definition bind_one :: "pton \<Rightarrow> string \<Rightarrow> int \<Rightarrow> bind_state \<times> server \<Rightarrow> (bind_state \<times> server) option" where
  "bind_one inet_pton addr portno st = (case st of (b, s) \<Rightarrow> do {
     names \<leftarrow> port_names (listeners s) (ports (Config s));
     if (addr, portno) \<in> set names then Some (keep_port (addr, portno) names b, s)
     else do {
       (p, s1) \<leftarrow> ListenSocket_new inet_pton portno addr s;
       l \<leftarrow> listeners s1 p;
       if ls_fd l > - 1 then
         Some (b\<lparr>bs_bound := bs_bound b + 1, ports_found := ports_found b + 1\<rparr>,
               s1\<lparr>Config := (Config s1)\<lparr>ports := ports (Config s1) @ [p]\<rparr>\<rparr>)
       else Some (b\<lparr>failed_ports := failed_ports b @ [(addr, portno)], ports_found := ports_found b + 1\<rparr>, s1)
     }
   })"

text \<open>The ports of one section. \<open>Addr\<close> is emptied when it is a star, but only once there is a port.\<close>

partial_function (option) bind_range :: "pton \<Rightarrow> string \<Rightarrow> portparser \<Rightarrow> bind_state \<times> server \<Rightarrow> (bind_state \<times> server) option" where
  "bind_range inet_pton addr0 pp st =
     (case pp_GetToken pp of (portno, pp') \<Rightarrow>
        if portno = 0 then Some st
        else
          let addr = (if addr0 \<noteq> [] \<and> hd addr0 = CHR ''*'' then [] else addr0) in do {
            st' \<leftarrow> bind_one inet_pton addr portno st;
            bind_range inet_pton addr pp' st'
          })"

text \<open>The sections from the \<open>n\<close>-th on.\<close>

fun bind_sections :: "pton \<Rightarrow> nat \<Rightarrow> nat \<Rightarrow> nat \<Rightarrow> bind_state \<times> server \<Rightarrow> (bind_state \<times> server) option" where
  "bind_sections inet_pton maxbuf n 0 st = Some st"
| "bind_sections inet_pton maxbuf n (Suc k) (b, s) =
     (case ConfValue_buf maxbuf (config_data (Config s)) ''bind'' ''port'' [] n False of
        (_, configToken, t1) \<Rightarrow>
          (case ConfValue_buf maxbuf t1 ''bind'' ''address'' [] n False of
             (_, Addr, t2) \<Rightarrow> do {
               st' \<leftarrow> bind_range inet_pton Addr (portparser_new configToken False)
                       (b, s\<lparr>Config := (Config s)\<lparr>config_data := t2\<rparr>\<rparr>);
               bind_sections inet_pton maxbuf (n + 1) k st'
             }))"

text \<open>Closing: for each name that is left in the copy, the first listener that has it.\<close>

fun first_port :: "(nat \<Rightarrow> listen_socket option) \<Rightarrow> string \<times> int \<Rightarrow> nat list \<Rightarrow> nat option option" where
  "first_port h nm [] = Some None"
| "first_port h nm (p # ps) = do { l \<leftarrow> h p; if ls_name l = nm then Some (Some p) else first_port h nm ps }"

fun close_removed :: "(string \<times> int) list \<Rightarrow> server \<Rightarrow> server option" where
  "close_removed [] s = Some s"
| "close_removed (nm # nms) s = do {
     f \<leftarrow> first_port (listeners s) nm (ports (Config s));
     (case f of
        None \<Rightarrow> close_removed nms s
      | Some p \<Rightarrow> do {
          s1 \<leftarrow> ListenSocket_delete p s;
          close_removed nms (s1\<lparr>Config := (Config s1)\<lparr>ports := remove1 p (ports (Config s1))\<rparr>\<rparr>)
        })
   }"

definition BindPorts :: "pton \<Rightarrow> nat \<Rightarrow> server \<Rightarrow> (bind_state \<times> server) option" where
  "BindPorts inet_pton maxbuf s = do {
     names \<leftarrow> port_names (listeners s) (ports (Config s));
     (b, s1) \<leftarrow> bind_sections inet_pton maxbuf 0 (ConfValueEnum (config_data (Config s)) ''bind'')
                  (\<lparr>bs_bound = 0, ports_found = 0, failed_ports = [], old_ports = names\<rparr>, s);
     if ports (Config s) \<noteq> [] then do { s2 \<leftarrow> close_removed (old_ports b) s1; Some (b, s2) }
     else Some (b, s1)
   }"

section \<open>The listeners stay consistent\<close>

definition ports_ok :: "server \<Rightarrow> bool" where
  "ports_ok s \<longleftrightarrow> (\<forall>p l. listeners s p = Some l \<longrightarrow> p < next_addr s) \<and>
     (\<forall>p\<in>set (ports (Config s)). \<exists>l. listeners s p = Some l \<and> ls_fd l > - 1) \<and>
     distinct (map (\<lambda>p. ls_name (the (listeners s p))) (ports (Config s)))"

definition accounted :: "bind_state \<Rightarrow> bool" where
  "accounted b \<longleftrightarrow> 0 \<le> bs_bound b \<and> ports_found b = bs_bound b + int (length (failed_ports b))"

lemma port_names_ok:
  "\<forall>p\<in>set ps. h p \<noteq> None \<Longrightarrow> port_names h ps = Some (map (\<lambda>p. ls_name (the (h p))) ps)"
  by (induction ps) auto

lemma OpenTCPSocket_step: "OpenTCPSocket addr s = (r, s') \<Longrightarrow> srv_step s s'"
proof -
  assume e: "OpenTCPSocket addr s = (r, s')"
  obtain q s1 where 1: "syscall (Sys_socket (IPV6 s \<and> (CHR '':'' \<in> set addr \<or> addr = []))) s = (q, s1)" by fastforce
  obtain q2 s2 where 2: "syscall (Sys_setsockopt (r_ret q) ''SO_REUSEADDR'') s1 = (q2, s2)" by fastforce
  obtain q3 s3 where 3: "syscall (Sys_setsockopt (r_ret q) ''SO_LINGER'') s2 = (q3, s3)" by fastforce
  have "srv_step s s1" "srv_step s1 s2" "srv_step s2 s3"
    by (simp_all add: syscall_srv_step [OF 1] syscall_srv_step [OF 2] syscall_srv_step [OF 3] silent_call_def)
  with e 1 2 3 show ?thesis by (auto simp: OpenTCPSocket_def split: if_splits intro: srv_step_trans)
qed

lemma BindSocket_step:
  assumes "BindSocket inet_pton sk port addr dolisten s = (ok, addr', s')"
  shows "srv_step s s'"
proof -
  define a where "a = (if addr \<noteq> [] \<and> hd addr = CHR ''*'' then [] else addr)"
  obtain r s1 where 1: "syscall (Sys_bind sk (fst (bind_target a port s)) (snd (bind_target a port s))) s = (r, s1)" by fastforce
  obtain l s2 where 2: "syscall (Sys_listen sk (MaxConn (Config s1))) s1 = (l, s2)" by fastforce
  have st: "srv_step s s1" "srv_step s1 s2"
    by (simp_all add: syscall_srv_step [OF 1] syscall_srv_step [OF 2] silent_call_def)
  then have "srv_step s s2" "srv_step s (snd (NonBlocking sk s2))" by (meson NonBlocking_step srv_step_trans)+
  with assms 1 2 st show ?thesis
    unfolding BindSocket_def a_def [symmetric] by (auto simp: SE_Bind_def SE_Listen_def Let_def split: if_splits)
qed

text \<open>What neither opening nor closing a listener touches.\<close>

definition life_same :: "server \<Rightarrow> server \<Rightarrow> bool" where
  "life_same s s' \<longleftrightarrow> conns s' = conns s \<and> local_connections s' = local_connections s \<and> culls s' = culls s \<and>
     next_addr s \<le> next_addr s' \<and> MAXCLIENTS s' = MAXCLIENTS s \<and> ShuttingDown s' = ShuttingDown s \<and> ModMgr s' = ModMgr s"

lemma life_same_inv: "life_same s s' \<Longrightarrow> life_inv s \<Longrightarrow> life_inv s'"
  unfolding life_same_def life_inv_def by (metis less_le_trans)

lemma life_same_trans: "life_same s s' \<Longrightarrow> life_same s' s'' \<Longrightarrow> life_same s s''"
  by (simp add: life_same_def)

lemma life_same_refl [simp]: "life_same s s"
  by (simp add: life_same_def)

lemma life_same_step: "srv_step s s' \<Longrightarrow> life_same s s' \<and> Config s' = Config s \<and> listeners s' = listeners s"
  by (simp add: srv_step_def srv_same_def life_same_def)

lemma ListenSocket_new_result:
  assumes "ListenSocket_new inet_pton port addr s = Some (p, s')"
  shows "p = next_addr s \<and> p < next_addr s' \<and> Config s' = Config s \<and> life_same s s' \<and>
    (\<exists>l. listeners s' = (listeners s)(p \<mapsto> l) \<and> ls_name l = (addr, port))"
proof -
  define s0 where "s0 = s\<lparr>next_addr := next_addr s + 1\<rparr>"
  have s0: "life_same s s0" "Config s0 = Config s" "listeners s0 = listeners s" "next_addr s0 = next_addr s + 1"
    by (simp_all add: s0_def life_same_def)
  obtain fd0 s1 where o1: "OpenTCPSocket addr s0 = (fd0, s1)" by fastforce
  note 1 = life_same_step [OF OpenTCPSocket_step [OF o1]]
  show ?thesis
  proof (cases "fd0 > - 1")
    case True
    obtain ok addr' s2 where b: "BindSocket inet_pton fd0 port addr True s1 = (ok, addr', s2)" by (cases rule: prod_cases3)
    note 2 = life_same_step [OF BindSocket_step [OF b]]
    from assms True o1 b obtain added s3 l where a: "AddFd (H_Listen (next_addr s)) (if ok then fd0 else - 1) s2 = Some (added, s3)"
      and r: "p = next_addr s" "s' = s3\<lparr>listeners := (listeners s3)(p \<mapsto> l)\<rparr>" "ls_name l = (addr, port)"
      by (auto simp: ListenSocket_new_def Let_def s0_def ls_name_def split: bind_splits)
    note 3 = life_same_step [OF AddFd_srv_step [OF a]]
    show ?thesis using r 1 2 3 s0 by (auto simp: life_same_def)
  next
    case False
    with assms o1 obtain l where r: "p = next_addr s" "s' = s1\<lparr>listeners := (listeners s1)(p \<mapsto> l)\<rparr>" "ls_name l = (addr, port)"
      by (auto simp: ListenSocket_new_def Let_def s0_def ls_name_def)
    show ?thesis using r 1 s0 by (auto simp: life_same_def)
  qed
qed

lemma ListenSocket_delete_result:
  assumes "ListenSocket_delete p s = Some s'"
  shows "Config s' = Config s \<and> life_same s s' \<and> listeners s' = (listeners s)(p := None)"
proof -
  from assms obtain l where l: "listeners s p = Some l" by (auto simp: ListenSocket_delete_def split: bind_splits)
  show ?thesis
  proof (cases "ls_fd l > - 1")
    case True
    with assms l obtain ok s1 where d: "DelFd (H_Listen p) (ls_fd l) False s = Some (ok, s1)"
      by (auto simp: ListenSocket_delete_def split: bind_splits)
    define s3 where "s3 = (if fst (SE_Shutdown (ls_fd l) 2 s1) \<noteq> 0 then snd (SE_Shutdown (ls_fd l) 2 s1)
      else snd (SE_Close (ls_fd l) (snd (SE_Shutdown (ls_fd l) 2 s1))))"
    have "srv_step s s3"
    proof -
      have sh: "srv_step s (snd (SE_Shutdown (ls_fd l) 2 s1))" by (rule srv_step_trans [OF DelFd_srv_step [OF d] SE_Shutdown_step])
      then have "srv_step s (snd (SE_Close (ls_fd l) (snd (SE_Shutdown (ls_fd l) 2 s1))))" by (rule srv_step_trans) simp
      with sh show ?thesis unfolding s3_def by (simp split: if_split)
    qed
    moreover have "s' = s3\<lparr>listeners := (listeners s3)(p := None)\<rparr>"
      using assms l True d by (simp add: ListenSocket_delete_def s3_def Let_def case_prod_beta)
    ultimately show ?thesis using life_same_step [of s s3] by (auto simp: life_same_def)
  qed (use assms l in \<open>auto simp: ListenSocket_delete_def life_same_def\<close>)
qed

lemma ListenSocket_delete_total:
  assumes l: "listeners s p = Some l" and m: "ls_fd l \<noteq> MAX_DESCRIPTORS (SE s)"
  shows "\<exists>s'. ListenSocket_delete p s = Some s' \<and> MAX_DESCRIPTORS (SE s') = MAX_DESCRIPTORS (SE s)"
proof (cases "ls_fd l > - 1")
  case True
  obtain b s1 where d: "DelFd (H_Listen p) (ls_fd l) False s = Some (b, s1)" using DelFd_total [OF m] by blast
  then show ?thesis using l True DelFd_MAX [OF d] by (auto simp: ListenSocket_delete_def Let_def case_prod_beta)
qed (use l in \<open>simp add: ListenSocket_delete_def\<close>)

lemma ListenSocket_delete_shutting:
  assumes "ListenSocket_delete p s = Some s'"
  shows "ShuttingDown s' = ShuttingDown s"
proof -
  from assms obtain l where l: "listeners s p = Some l" by (auto simp: ListenSocket_delete_def split: bind_splits)
  have st: "ShuttingDown s2 = ShuttingDown s1" if "srv_step s1 s2" for s1 s2 using that by (simp add: srv_step_def srv_same_def)
  have "ShuttingDown (snd (SE_Shutdown sk how s1)) = ShuttingDown s1" "ShuttingDown (snd (SE_Close sk s1)) = ShuttingDown s1" for sk how and s1 :: server
    using st [OF SE_Shutdown_step] st [OF SE_Close_step] by blast+
  with assms l show ?thesis by (auto simp: ListenSocket_delete_def Let_def case_prod_beta split: if_splits bind_splits dest!: DelFd_srv_step st)
qed

lemma ports_ok_new:
  assumes ok: "ports_ok s" and p: "p = next_addr s" "p < next_addr s'" and l: "ls_name l = nm"
    and s': "listeners s' = (listeners s)(p \<mapsto> l)"
      "ports (Config s') = ports (Config s) @ (if ls_fd l > - 1 then [p] else [])"
    and new: "nm \<notin> set (map (\<lambda>p. ls_name (the (listeners s p))) (ports (Config s)))"
  shows "ports_ok s'"
proof -
  have old: "\<And>q l. listeners s q = Some l \<Longrightarrow> q < next_addr s"
    and live: "\<And>q. q \<in> set (ports (Config s)) \<Longrightarrow> \<exists>l. listeners s q = Some l \<and> ls_fd l > - 1"
    and d: "distinct (map (\<lambda>p. ls_name (the (listeners s p))) (ports (Config s)))" using ok unfolding ports_ok_def by blast+
  have np: "p \<notin> set (ports (Config s))" using live [of p] old [of p] p(1) by auto
  then have "map (\<lambda>q. ls_name (the (listeners s' q))) (ports (Config s)) = map (\<lambda>q. ls_name (the (listeners s q))) (ports (Config s))"
    by (auto simp: s'(1))
  then have "distinct (map (\<lambda>q. ls_name (the (listeners s' q))) (ports (Config s')))"
    using d new l np unfolding s'(2) by (auto simp: s'(1) simp del: map_eq_conv)
  moreover have "q < next_addr s'" if "listeners s' q = Some k" for q k
    using that old [of q k] p by (auto simp: s'(1) split: if_splits)
  moreover have "\<exists>k. listeners s' q = Some k \<and> ls_fd k > - 1" if "q \<in> set (ports (Config s'))" for q
    using that live [of q] np by (auto simp: s' split: if_splits)
  ultimately show ?thesis unfolding ports_ok_def by blast
qed

definition bind_kept :: "bind_state \<times> server \<Rightarrow> bind_state \<times> server \<Rightarrow> bool" where
  "bind_kept st st' \<longleftrightarrow> life_same (snd st) (snd st') \<and>
     (ports_ok (snd st) \<and> accounted (fst st) \<longrightarrow> ports_ok (snd st') \<and> accounted (fst st'))"

lemma bind_kept_trans: "bind_kept st st' \<Longrightarrow> bind_kept st' st'' \<Longrightarrow> bind_kept st st''"
  by (auto simp: bind_kept_def intro: life_same_trans)

lemma bind_kept_refl [simp]: "bind_kept st st"
  by (simp add: bind_kept_def)

lemma bind_one_kept:
  assumes "bind_one inet_pton addr portno (b, s) = Some (b', s')"
  shows "bind_kept (b, s) (b', s')"
proof -
  from assms obtain names where n: "port_names (listeners s) (ports (Config s)) = Some names"
    by (auto simp: bind_one_def split: bind_splits)
  show ?thesis
  proof (cases "(addr, portno) \<in> set names")
    case True
    with assms n show ?thesis by (auto simp: bind_one_def bind_kept_def keep_port_def accounted_def)
  next
    case False
    with assms n obtain p s1 l where new: "ListenSocket_new inet_pton portno addr s = Some (p, s1)" and l: "listeners s1 p = Some l"
      and r: "(if ls_fd l > - 1 then
         Some (b\<lparr>bs_bound := bs_bound b + 1, ports_found := ports_found b + 1\<rparr>,
               s1\<lparr>Config := (Config s1)\<lparr>ports := ports (Config s1) @ [p]\<rparr>\<rparr>)
       else Some (b\<lparr>failed_ports := failed_ports b @ [(addr, portno)], ports_found := ports_found b + 1\<rparr>, s1)) = Some (b', s')"
      by (auto simp: bind_one_def split: bind_splits)
    note x = ListenSocket_new_result [OF new]
    have life: "life_same s s'" using r x by (auto simp: life_same_def split: if_splits)
    have acc: "accounted b \<Longrightarrow> accounted b'" using r by (auto simp: accounted_def split: if_splits)
    have "ports_ok s'" if ok: "ports_ok s"
    proof (rule ports_ok_new [OF ok, where p = p and l = l and nm = "(addr, portno)"])
      show "p = next_addr s" "p < next_addr s'" "ls_name l = (addr, portno)" "listeners s' = (listeners s)(p \<mapsto> l)"
        "ports (Config s') = ports (Config s) @ (if ls_fd l > - 1 then [p] else [])"
        using r x l by (auto split: if_splits)
      have "names = map (\<lambda>p. ls_name (the (listeners s p))) (ports (Config s))"
      proof -
        have "\<forall>p\<in>set (ports (Config s)). listeners s p \<noteq> None" using ok by (auto simp: ports_ok_def)
        with n port_names_ok show ?thesis by fastforce
      qed
      with False show "(addr, portno) \<notin> set (map (\<lambda>p. ls_name (the (listeners s p))) (ports (Config s)))" by simp
    qed
    with life acc show ?thesis by (simp add: bind_kept_def)
  qed
qed

lemma bind_range_kept:
  assumes ret: "bind_range inet_pton addr pp st = Some st'"
  shows "bind_kept st st'"
proof (rule bind_range.raw_induct [where P = "\<lambda>inet_pton addr pp. bind_kept", OF _ ret])
  fix f inet_pton addr0 pp st st'
  assume IH: "\<And>inet_pton addr pp st st'. f inet_pton addr pp st = Some st' \<Longrightarrow> bind_kept st st'"
    and e: "(case pp_GetToken pp of (portno, pp') \<Rightarrow>
        if portno = 0 then Some st
        else let addr = (if addr0 \<noteq> [] \<and> hd addr0 = CHR ''*'' then [] else addr0) in do {
          st' \<leftarrow> bind_one inet_pton addr portno st; f inet_pton addr pp' st' }) = Some st'"
  obtain b s where st: "st = (b, s)" by (cases st)
  obtain portno pp' where t: "pp_GetToken pp = (portno, pp')" by fastforce
  show "bind_kept st st'"
  proof (cases "portno = 0")
    case False
    with e t obtain addr b1 s1 where "bind_one inet_pton addr portno (b, s) = Some (b1, s1)" "f inet_pton addr pp' (b1, s1) = Some st'"
      by (auto simp: Let_def st split: bind_splits)
    with IH bind_one_kept show ?thesis unfolding st using bind_kept_trans by blast
  qed (use e t in simp)
qed

lemma bind_sections_kept: "bind_sections inet_pton maxbuf n k st = Some st' \<Longrightarrow> bind_kept st st'"
proof (induction inet_pton maxbuf n k st rule: bind_sections.induct)
  case (2 inet_pton maxbuf n k b s)
  obtain x1 tok t1 where c1: "ConfValue_buf maxbuf (config_data (Config s)) ''bind'' ''port'' [] n False = (x1, tok, t1)"
    by (cases rule: prod_cases3)
  obtain x2 ad t2 where c2: "ConfValue_buf maxbuf t1 ''bind'' ''address'' [] n False = (x2, ad, t2)" by (cases rule: prod_cases3)
  let ?s = "s\<lparr>Config := (Config s)\<lparr>config_data := t2\<rparr>\<rparr>"
  from "2.prems" c1 c2 obtain st1 where r: "bind_range inet_pton ad (portparser_new tok False) (b, ?s) = Some st1"
    "bind_sections inet_pton maxbuf (n + 1) k st1 = Some st'" by (auto split: bind_splits)
  have "bind_kept (b, s) (b, ?s)" by (simp add: bind_kept_def life_same_def ports_ok_def)
  moreover have "bind_kept st1 st'" using "2.IH" c1 c2 r by (metis surj_pair)
  ultimately show ?case using bind_range_kept [OF r(1)] bind_kept_trans by blast
qed simp

lemma first_port_member: "first_port h nm ps = Some (Some p) \<Longrightarrow> p \<in> set ps"
  by (induction h nm ps rule: first_port.induct) (auto split: bind_splits if_splits)

lemma close_removed_kept:
  "close_removed nms s = Some s' \<Longrightarrow> life_same s s' \<and> (ports_ok s \<longrightarrow> ports_ok s')"
proof (induction nms s rule: close_removed.induct)
  case (2 nm nms s)
  then obtain f where f: "first_port (listeners s) nm (ports (Config s)) = Some f" by (auto split: bind_splits)
  show ?case
  proof (cases f)
    case None
    with 2 f show ?thesis by simp
  next
    case (Some p)
    with 2 f obtain s1 where d: "ListenSocket_delete p s = Some s1"
      and r: "close_removed nms (s1\<lparr>Config := (Config s1)\<lparr>ports := remove1 p (ports (Config s1))\<rparr>\<rparr>) = Some s'"
      by (auto split: bind_splits)
    let ?s = "s1\<lparr>Config := (Config s1)\<lparr>ports := remove1 p (ports (Config s1))\<rparr>\<rparr>"
    note x = ListenSocket_delete_result [OF d]
    have "ports_ok ?s" if ok: "ports_ok s"
    proof -
      have d: "distinct (map (\<lambda>p. ls_name (the (listeners s p))) (ports (Config s)))"
        and old: "\<And>q l. listeners s q = Some l \<Longrightarrow> q < next_addr s"
        and live: "\<And>q. q \<in> set (ports (Config s)) \<Longrightarrow> \<exists>l. listeners s q = Some l \<and> ls_fd l > - 1"
        using ok unfolding ports_ok_def by blast+
      have ps: "set (remove1 p (ports (Config s))) = set (ports (Config s)) - {p}" "distinct (ports (Config s))"
        using d by (simp_all add: distinct_map)
      have m: "map (\<lambda>q. ls_name (the (listeners ?s q))) (ports (Config ?s)) = map (\<lambda>q. ls_name (the (listeners s q))) (remove1 p (ports (Config s)))"
        using x ps by auto
      have "distinct (map (\<lambda>q. ls_name (the (listeners s q))) (remove1 p (ports (Config s))))"
        using d ps by (auto simp: distinct_map inj_on_def distinct_remove1)
      moreover have "q < next_addr ?s" if "listeners ?s q = Some k" for q k
        using that old [of q k] x by (auto simp: life_same_def split: if_splits)
      moreover have "\<exists>k. listeners ?s q = Some k \<and> ls_fd k > - 1" if "q \<in> set (ports (Config ?s))" for q
        using that live [of q] x ps by auto
      ultimately show ?thesis unfolding ports_ok_def m by blast
    qed
    moreover have "life_same s ?s" using x by (simp add: life_same_def)
    moreover have "life_same ?s s' \<and> (ports_ok ?s \<longrightarrow> ports_ok s')" using "2.IH"(2) [OF f Some d r] .
    ultimately show ?thesis using life_same_trans by blast
  qed
qed simp


lemma BindPorts_kept:
  assumes "BindPorts inet_pton maxbuf s = Some (b, s')" and "ports_ok s"
  shows "life_same s s' \<and> ports_ok s' \<and> accounted b"
proof -
  from assms(1) obtain names b1 s1
    where sec: "bind_sections inet_pton maxbuf 0 (ConfValueEnum (config_data (Config s)) ''bind'')
        (\<lparr>bs_bound = 0, ports_found = 0, failed_ports = [], old_ports = names\<rparr>, s) = Some (b1, s1)"
      and r: "(if ports (Config s) \<noteq> [] then do { s2 \<leftarrow> close_removed (old_ports b1) s1; Some (b1, s2) } else Some (b1, s1)) = Some (b, s')"
    by (auto simp: BindPorts_def split: bind_splits)
  have k: "life_same s s1" "ports_ok s1" "accounted b1"
    using bind_sections_kept [OF sec] assms(2) by (auto simp: bind_kept_def accounted_def)
  have "b = b1" "life_same s1 s' \<and> (ports_ok s1 \<longrightarrow> ports_ok s')"
    using r close_removed_kept by (auto split: if_splits bind_splits)
  with k show ?thesis using life_same_trans by blast
qed

text \<open>Claim C36: binding ports keeps the listeners in order: afterwards each one that the configuration's vector
  points at is alive and has a socket, no two of them have the same address and port, every port that
  was tried is counted either as bound or as failed, and connections are not touched.\<close>

theorem BindPorts_consistent:
  assumes "BindPorts inet_pton maxbuf s = Some (b, s')" and "ports_ok s" and "life_inv s"
  shows "(\<forall>p\<in>set (ports (Config s')). \<exists>l. listeners s' p = Some l \<and> ls_fd l > - 1) \<and>
    distinct (map (\<lambda>p. ls_name (the (listeners s' p))) (ports (Config s'))) \<and>
    0 \<le> bs_bound b \<and> ports_found b = bs_bound b + int (length (failed_ports b)) \<and>
    life_inv s' \<and> conns s' = conns s \<and> local_connections s' = local_connections s"
  using BindPorts_kept [OF assms(1,2)] life_same_inv [of s s'] assms(3) by (simp add: ports_ok_def accounted_def life_same_def)

definition ports_demo :: server where
  "ports_demo = fs_demo\<lparr>Config := (Config fs_demo)\<lparr>ports := [9]\<rparr>,
     listeners := [9 \<mapsto> \<lparr>ls_fd = 4, ls_v6 = False, bind_addr = [], bind_port = 80\<rparr>], next_addr := 10\<rparr>"

lemma ports_demo_ok: "ports_ok ports_demo" "life_inv ports_demo"
  by (simp_all add: ports_ok_def life_inv_def ports_demo_def fs_demo_def)

lemma ports_demo_run: "\<exists>b s'. BindPorts (\<lambda>_ _. None) 514 ports_demo = Some (b, s') \<and> ports (Config s') = []"
  by (simp add: BindPorts_def ports_demo_def fs_demo_def ConfValueEnum_def mm_count_def ListenSocket_delete_def DelFd_def
      epoll_DelFd_def set_ref_def engine_new_def syscall_def quiet_kernel_def SE_Shutdown_def SE_Close_def Let_def ls_name_def)

theorem BindPorts_consistent_witness:
  "\<exists>b s'. BindPorts (\<lambda>_ _. None) 514 ports_demo = Some (b, s') \<and> ports (Config s') = [] \<and> ports_found b = bs_bound b + int (length (failed_ports b)) \<and> life_inv s'"
proof -
  obtain b s' where r: "BindPorts (\<lambda>_ _. None) 514 ports_demo = Some (b, s')" "ports (Config s') = []" using ports_demo_run by blast
  with BindPorts_consistent [OF r(1) ports_demo_ok] show ?thesis by blast
qed

text \<open>A listener whose socket cannot be shut down is forgotten without being closed.\<close>

lemma ListenSocket_leak:
  assumes "listeners s p = Some l" and "ls_fd l > - 1" and d: "DelFd (H_Listen p) (ls_fd l) False s = Some (b, s1)"
    and "SE_Shutdown (ls_fd l) 2 s1 = (r, s2)" and "r \<noteq> 0"
  shows "ListenSocket_delete p s = Some (s2\<lparr>listeners := (listeners s2)(p := None)\<rparr>)"
  using assms by (simp add: ListenSocket_delete_def)

end
