(* ===== verification/Dispatch.thy ===== *)
theory Dispatch
  imports Ports
begin

text \<open>
  \<open>DispatchEvents\<close> of the four engines (\<open>src/socketengines/\<close>): the events that the kernel reports are
  delivered to the objects in the table \<open>ref\<close>. An event for an object that is gone, an access outside
  the table or outside an \<open>fd_set\<close>, or an exception that nobody catches is \<open>None\<close>.
\<close>

section \<open>Delivery\<close>

text \<open>An event on the socket of a CGI program. The connection is only looked at when a response is sent; if it
  is gone by then, the run is undefined. The connection that stands for the missing one here never is
  what an operation leaves unchanged by accident: a response changes its state.\<close>

definition lost_conn :: conn where
  "lost_conn = \<lparr>this_ptr = 0, fd = - 1, age = 0, State = HTTP_WAIT_REQUEST, ip = [], sendq = [], requestbuf = [],
      LastSocketEvent = 0, RequestsCompleted = 0, conn_headers = [], http_method = [], uri = [], uriquery = [],
      upath = [], http_version = HTTP_UNSPECIFIED, keepalive = True, RequestBodyLength = 0, RequestBody = [],
      ResponseBufferDone = False, ResponseBackend = False, filefd = - 1, rfilesize = 0, rfilesent = 0,
      quitting = False, privip = None\<rparr>"

definition cgi_event :: "event_type \<Rightarrow> nat \<Rightarrow> server \<Rightarrow> server option" where
  "cgi_event et n s = do {
     r \<leftarrow> cgis s n;
     (case conns s (cgi_conn r) of
        Some c \<Rightarrow> do { (c', s') \<leftarrow> CGI_HandleEvent et n (c, s); Some (put_conn c' s') }
      | None \<Rightarrow> do { (c', s') \<leftarrow> CGI_HandleEvent et n (lost_conn, s); if c' = lost_conn then Some s' else None })
   }"

definition conn_event :: "event_type \<Rightarrow> nat \<Rightarrow> server \<Rightarrow> server option" where
  "conn_event et a s = do {
     c \<leftarrow> conns s a;
     (c', s') \<leftarrow> Connection_HandleEvent et (c, s);
     Some (put_conn c' s')
   }"

definition log_event :: "server \<Rightarrow> server option" where
  "log_event s = do {
     g \<leftarrow> LogFile s;
     (g', s') \<leftarrow> FileLogger_HandleEvent (g, s);
     Some (s'\<lparr>LogFile := Some g'\<rparr>)
   }"

definition deliver :: "event_type \<Rightarrow> handler \<Rightarrow> server \<Rightarrow> server option" where
  "deliver et h s =
     (case h of
        H_Conn a \<Rightarrow> conn_event et a s
      | H_Listen p \<Rightarrow> ListenSocket_HandleEvent p s
      | H_Cgi n \<Rightarrow> cgi_event et n s
      | H_Log \<Rightarrow> log_event s)"

definition deliver_fd :: "event_type \<Rightarrow> int \<Rightarrow> server \<Rightarrow> server option" where
  "deliver_fd et sk s = do {
     h \<leftarrow> ref_at (SE s) sk;
     (case h of None \<Rightarrow> Some s | Some h \<Rightarrow> deliver et h s)
   }"

fun each_event :: "(io_event \<Rightarrow> server \<Rightarrow> server option) \<Rightarrow> io_event list \<Rightarrow> server \<Rightarrow> server option" where
  "each_event f [] s = Some s"
| "each_event f (e # es) s = do { s' \<leftarrow> f e s; each_event f es s' }"

section \<open>epoll\<close>

text \<open>The descriptor that was waiting to be written is set back to reading before its object hears of it.\<close>

definition epoll_event :: "io_event \<Rightarrow> server \<Rightarrow> server option" where
  "epoll_event e s =
     (if ev_hup e then deliver_fd EVENT_ERROR (ev_fd e) s
      else if ev_err e then deliver_fd EVENT_ERROR (ev_fd e) (snd (syscall (Sys_so_error (ev_fd e)) s))
      else if ev_out e then deliver_fd EVENT_WRITE (ev_fd e) (snd (syscall (Sys_epoll_ctl CTL_MOD (ev_fd e) WANT_IN) s))
      else deliver_fd EVENT_READ (ev_fd e) s)"

definition epoll_Dispatch :: "server \<Rightarrow> server option" where
  "epoll_Dispatch s =
     (case syscall (Sys_epoll_wait (nat (MAX_DESCRIPTORS (SE s)))) s of (r, s1) \<Rightarrow>
        each_event epoll_event (take (nat (r_ret r)) (r_events r)) s1)"

section \<open>kqueue\<close>

text \<open>\<open>EV_EOF\<close> is \<open>0x8000\<close>, \<open>EVFILT_WRITE\<close> is \<open>-2\<close>; the latter is a filter, but tested as a flag.\<close>

unbundle bit_operations_syntax

definition kqueue_event :: "io_event \<Rightarrow> server \<Rightarrow> server option" where
  "kqueue_event e s =
     (if ev_flags e AND 0x8000 \<noteq> 0 then deliver_fd EVENT_ERROR (ev_fd e) s
      else if ev_flags e AND (- 2) \<noteq> 0 then
        deliver_fd EVENT_WRITE (ev_fd e) (snd (syscall (Sys_kevent_add (ev_fd e) WANT_IN False) s))
      else deliver_fd EVENT_READ (ev_fd e) s)"

definition kqueue_Dispatch :: "server \<Rightarrow> server option" where
  "kqueue_Dispatch s =
     (case syscall (Sys_kevent_wait (nat (MAX_DESCRIPTORS (SE s)))) s of (r, s1) \<Rightarrow>
        each_event kqueue_event (take (nat (r_ret r)) (r_events r)) s1)"

section \<open>Event ports\<close>

text \<open>The descriptor is associated again for reading, whatever its object is waiting for.\<close>

definition ports_event :: "io_event \<Rightarrow> server \<Rightarrow> server option" where
  "ports_event e s =
     (if ev_source_fd e then do {
        h \<leftarrow> ref_at (SE s) (ev_fd e);
        (case h of
           None \<Rightarrow> Some s
         | Some _ \<Rightarrow>
             deliver_fd (if ev_in e then EVENT_READ else EVENT_WRITE) (ev_fd e)
               (snd (syscall (Sys_port_associate (ev_fd e) WANT_IN) s)))
      } else Some s)"

definition ports_Dispatch :: "server \<Rightarrow> server option" where
  "ports_Dispatch s =
     (case syscall (Sys_port_getn (nat (MAX_DESCRIPTORS (SE s)))) s of (r, s1) \<Rightarrow>
        if r_ret r = - 1 then Some s1 else each_event ports_event (r_events r) s1)"

section \<open>select\<close>

text \<open>The descriptor that an object has now; one that is not in an \<open>fd_set\<close> must not be used with it.\<close>

definition handler_fd :: "handler \<Rightarrow> server \<Rightarrow> int option" where
  "handler_fd h s =
     (case h of
        H_Conn a \<Rightarrow> map_option fd (conns s a)
      | H_Listen p \<Rightarrow> map_option ls_fd (listeners s p)
      | H_Cgi n \<Rightarrow> map_option cgi_fd (cgis s n)
      | H_Log \<Rightarrow> Option.bind (LogFile s) log_fd)"

definition in_fd_set :: "int \<Rightarrow> server \<Rightarrow> bool" where
  "in_fd_set sk s \<longleftrightarrow> 0 \<le> sk \<and> sk < FD_SETSIZE (SE s)"

text \<open>The three sets that are built from the map \<open>fds\<close>; a null entry of \<open>ref\<close> is dereferenced.\<close>

fun select_sets :: "server \<Rightarrow> (int \<times> int) list \<Rightarrow> (int list \<times> int list \<times> int list) option" where
  "select_sets s [] = Some ([], [], [])"
| "select_sets s ((k, sk) # m) = do {
     h \<leftarrow> ref_at (SE s) sk;
     eh \<leftarrow> h;
     (rs, ws, es) \<leftarrow> (if in_fd_set sk s then select_sets s m else None);
     Some (if Readable eh then sk # rs else rs,
           (if Readable eh then [] else [sk]) @ (if sel_writeable (SE s) sk then [sk] else []) @ ws, sk # es)
   }"

text \<open>The objects that are ready, in the order of the map.\<close>

fun select_ready :: "int list \<times> int list \<times> int list \<Rightarrow> server \<Rightarrow> (int \<times> int) list \<Rightarrow> handler option list option" where
  "select_ready (rd, wr, er) s [] = Some []"
| "select_ready (rd, wr, er) s ((k, sk) # m) =
     (if sk \<in> set rd \<or> sk \<in> set wr \<or> sk \<in> set er then do {
        h \<leftarrow> ref_at (SE s) sk; hs \<leftarrow> select_ready (rd, wr, er) s m; Some (h # hs)
      } else select_ready (rd, wr, er) s m)"

definition select_event :: "int list \<Rightarrow> handler \<Rightarrow> server \<Rightarrow> server option" where
  "select_event er h s = do {
     sk \<leftarrow> handler_fd h s;
     if \<not> in_fd_set sk s then None
     else if sk \<in> set er then deliver EVENT_ERROR h (snd (syscall (Sys_so_error sk) s))
     else if \<not> (0 \<le> sk \<and> sk < MAX_DESCRIPTORS (SE s)) then None
     else if sel_writeable (SE s) sk then
       deliver EVENT_WRITE h (s\<lparr>SE := (SE s)\<lparr>sel_writeable := (sel_writeable (SE s))(sk := False)\<rparr>\<rparr>)
     else deliver (if Readable h then EVENT_READ else EVENT_WRITE) h s
   }"

fun select_loop :: "int list \<Rightarrow> handler option list \<Rightarrow> server \<Rightarrow> server option" where
  "select_loop er [] s = Some s"
| "select_loop er (None # hs) s = select_loop er hs s"
| "select_loop er (Some h # hs) s = do { s' \<leftarrow> select_event er h s; select_loop er hs s' }"

definition select_Dispatch :: "server \<Rightarrow> server option" where
  "select_Dispatch s = do {
     (rs, ws, es) \<leftarrow> select_sets s (sel_fds (SE s));
     (case syscall (Sys_select rs ws es) s of (r, s1) \<Rightarrow>
        if r_ret r > 0 then do {
          hs \<leftarrow> select_ready (r_sets r) s1 (sel_fds (SE s1));
          select_loop (snd (snd (r_sets r))) hs s1
        } else Some s1)
   }"

definition DispatchEvents :: "server \<Rightarrow> server option" where
  "DispatchEvents s =
     (case engine_kind (SE s) of
        EPollEngine \<Rightarrow> epoll_Dispatch s | KQueueEngine \<Rightarrow> kqueue_Dispatch s
      | PortsEngine \<Rightarrow> ports_Dispatch s | SelectEngine \<Rightarrow> select_Dispatch s)"

section \<open>Dispatching keeps the server consistent\<close>

definition run_keeps :: "server \<Rightarrow> server \<Rightarrow> bool" where
  "run_keeps s s' \<longleftrightarrow> listeners s' = listeners s \<and> Config s' = Config s \<and> ShuttingDown s' = ShuttingDown s \<and>
     next_addr s \<le> next_addr s' \<and> (life_inv s \<longrightarrow> life_inv s')"

lemma run_keeps_refl [simp, intro]: "run_keeps s s"
  by (simp add: run_keeps_def)

lemma run_keeps_trans: "run_keeps s s' \<Longrightarrow> run_keeps s' s'' \<Longrightarrow> run_keeps s s''"
  by (simp add: run_keeps_def)

lemma ports_ok_cong: "listeners s' = listeners s \<Longrightarrow> Config s' = Config s \<Longrightarrow> next_addr s \<le> next_addr s' \<Longrightarrow> ports_ok s \<Longrightarrow> ports_ok s'"
  unfolding ports_ok_def by (metis less_le_trans)

lemma run_keeps_same:
  assumes "srv_same s s'" and "culls s' = culls s"
  shows "run_keeps s s'"
proof -
  have f: "listeners s' = listeners s" "Config s' = Config s" "next_addr s \<le> next_addr s'" "life_same s s'"
    using assms by (simp_all add: srv_same_def life_same_def)
  moreover have "ShuttingDown s' = ShuttingDown s" using assms(1) by (simp add: srv_same_def)
  ultimately show ?thesis using life_same_inv by (simp add: run_keeps_def)
qed

lemma run_keeps_srv: "srv_step s s' \<Longrightarrow> run_keeps s s'"
  by (rule run_keeps_same) (simp_all add: srv_step_def)

lemma run_keeps_syscall: "run_keeps s (snd (syscall c s))"
proof -
  have "srv_same s (snd (syscall c s))"
    using kstep_syscall [of c s "fst (syscall c s)" "snd (syscall c s)" 0 0 False] by (simp add: kstep_def)
  moreover have "culls (snd (syscall c s)) = culls s" by (simp add: syscall_def Let_def)
  ultimately show ?thesis by (rule run_keeps_same)
qed

lemma run_keeps_conn:
  assumes c: "conns s a = Some c" and k: "kstep (this_ptr c, fd c, quitting c, s) (this_ptr c', fd c', quitting c', s')"
  shows "run_keeps s (put_conn c' s')"
proof -
  have "life_inv s \<Longrightarrow> life_inv (put_conn c' s')" using life_inv_put [OF _ c, of c' s'] k by simp
  moreover have "listeners (put_conn c' s') = listeners s" "Config (put_conn c' s') = Config s" "next_addr s \<le> next_addr (put_conn c' s')"
    "ShuttingDown (put_conn c' s') = ShuttingDown s"
    using k by (simp_all add: put_conn_def kstep_def srv_same_def)
  ultimately show ?thesis by (simp add: run_keeps_def)
qed

lemma run_keeps_accept: "accept_step s s' \<Longrightarrow> run_keeps s s'"
  by (simp add: accept_step_def run_keeps_def)

lemma run_keeps_ports: "run_keeps s s' \<Longrightarrow> ports_ok s \<Longrightarrow> ports_ok s'"
  using ports_ok_cong [of s' s] by (simp add: run_keeps_def)

lemma conn_event_keeps: "conn_event et a s = Some s' \<Longrightarrow> run_keeps s s'"
  by (auto simp: conn_event_def split: bind_splits dest!: cstepsD [OF HandleEvent_csteps] intro!: run_keeps_conn)

lemma cgi_event_keeps:
  assumes "cgi_event et n s = Some s'"
  shows "run_keeps s s'"
proof -
  from assms obtain r where r: "cgis s n = Some r" by (auto simp: cgi_event_def split: bind_splits)
  show ?thesis
  proof (cases "conns s (cgi_conn r)")
    case (Some c)
    with assms r show ?thesis
      by (auto simp: cgi_event_def split: bind_splits dest!: cstepsD [OF CGI_HandleEvent_csteps] intro!: run_keeps_conn)
  next
    case None
    with assms r have "CGI_HandleEvent et n (lost_conn, s) = Some (lost_conn, s')"
      by (auto simp: cgi_event_def split: bind_splits if_splits)
    from cstepsD [OF CGI_HandleEvent_csteps this] show ?thesis
      by (intro run_keeps_same) (auto simp: kstep_def split: if_splits)
  qed
qed

lemma run_keeps_syscall': "syscall c s = (r, s') \<Longrightarrow> run_keeps s s'"
  using run_keeps_syscall [of s c] by simp

lemma WriteLogLine_keeps:
  assumes e: "WriteLogLine line (g, s) = Some (g', s')"
  shows "run_keeps s s'"
proof (cases "log_fd g")
  case (Some sk)
  obtain r s1 where call: "syscall (Sys_fprintf (c_str (log_buffer g @ line))) s = (r, s1)" by fastforce
  have add: "run_keeps s1 s2" if "AddFd H_Log sk s1 = Some (b, s2)" for b s2
    by (rule run_keeps_srv [OF AddFd_srv_step [OF that]])
  define fl where "fl = (\<lambda>s2. s' = s2 \<or> s' = snd (syscall Sys_fflush s2))"
  have "fl s1 \<or> (\<exists>b s2. AddFd H_Log sk s1 = Some (b, s2) \<and> fl s2)"
  proof (cases "0 \<le> r_ret r \<and> r_ret r < int (length (log_buffer g @ line))")
    case True
    with e Some call show ?thesis
      by (cases "AddFd H_Log sk s1") (auto simp: WriteLogLine_def Let_def fl_def)
  next
    case False
    with e Some call show ?thesis
      by (cases "r_ret r = - 1"; cases "errno s1 = EAGAIN"; cases "AddFd H_Log sk s1")
        (auto simp: WriteLogLine_def Let_def fl_def)
  qed
  then obtain s2 where 2: "s2 = s1 \<or> (\<exists>b. AddFd H_Log sk s1 = Some (b, s2))" and 3: "fl s2" by blast
  have "run_keeps s1 s2" using 2 add by auto
  moreover have "run_keeps s2 s'" using 3 run_keeps_syscall by (auto simp: fl_def)
  ultimately show ?thesis using run_keeps_syscall' [OF call] run_keeps_trans by blast
qed (use e in \<open>auto simp: WriteLogLine_def Let_def\<close>)

lemma log_event_keeps:
  assumes "log_event s = Some s'"
  shows "run_keeps s s'"
proof -
  from assms obtain g g' s1 where h: "FileLogger_HandleEvent (g, s) = Some (g', s1)" and s': "s' = s1\<lparr>LogFile := Some g'\<rparr>"
    by (auto simp: log_event_def split: bind_splits)
  from h obtain g2 s2 where w: "WriteLogLine [] (g, s) = Some (g2, s2)"
    by (auto simp: FileLogger_HandleEvent_def split: bind_splits)
  have r: "s1 = s2 \<or> (\<exists>sk b. DelFd H_Log sk False s2 = Some (b, s1))"
    using h w by (auto simp: FileLogger_HandleEvent_def split: bind_splits option.splits)
  from r have "run_keeps s2 s1" using run_keeps_srv [OF DelFd_srv_step] by auto
  moreover have "run_keeps s1 s'" by (auto simp: s' run_keeps_def life_inv_def ports_ok_def)
  ultimately show ?thesis using WriteLogLine_keeps [OF w] run_keeps_trans by blast
qed

lemma deliver_keeps: "deliver et h s = Some s' \<Longrightarrow> run_keeps s s'"
  by (cases h) (auto simp: deliver_def ListenSocket_HandleEvent_def
      intro: conn_event_keeps cgi_event_keeps log_event_keeps run_keeps_accept accept_loop_step)

lemma deliver_fd_keeps: "deliver_fd et sk s = Some s' \<Longrightarrow> run_keeps s s'"
  by (auto simp: deliver_fd_def split: bind_splits option.splits intro: deliver_keeps)

lemma each_event_keeps:
  assumes "\<And>e s s'. f e s = Some s' \<Longrightarrow> run_keeps s s'" and "each_event f es s = Some s'"
  shows "run_keeps s s'"
  using assms(2)
proof (induction es arbitrary: s)
  case (Cons e es)
  then obtain s1 where "f e s = Some s1" "each_event f es s1 = Some s'" by (auto split: bind_splits)
  with assms(1) Cons.IH show ?case using run_keeps_trans by blast
qed simp

lemma deliver_after_call:
  "deliver_fd et sk (snd (syscall c s)) = Some s' \<Longrightarrow> run_keeps s s'"
  by (rule run_keeps_trans [OF run_keeps_syscall deliver_fd_keeps])

lemma event_keeps:
  "epoll_event e s = Some s' \<Longrightarrow> run_keeps s s'"
  "kqueue_event e s = Some s' \<Longrightarrow> run_keeps s s'"
  "ports_event e s = Some s' \<Longrightarrow> run_keeps s s'"
  by (auto simp: epoll_event_def kqueue_event_def ports_event_def split: if_splits bind_splits option.splits
      intro: deliver_fd_keeps deliver_after_call)

lemma select_event_keeps:
  assumes "select_event er h s = Some s'"
  shows "run_keeps s s'"
proof -
  have upd: "run_keeps s (s\<lparr>SE := e\<rparr>)" for e by (rule run_keeps_srv) simp
  from assms consider c where "deliver EVENT_ERROR h (snd (syscall c s)) = Some s'" | et e where "deliver et h (s\<lparr>SE := e\<rparr>) = Some s'"
    | et where "deliver et h s = Some s'"
    by (auto simp: select_event_def split: bind_splits if_splits)
  then show ?thesis
  proof cases
    case 1
    then show ?thesis by (rule run_keeps_trans [OF run_keeps_syscall deliver_keeps])
  next
    case 2
    then show ?thesis by (rule run_keeps_trans [OF upd deliver_keeps])
  qed (rule deliver_keeps)
qed

lemma select_loop_keeps: "select_loop er hs s = Some s' \<Longrightarrow> run_keeps s s'"
proof (induction er hs s rule: select_loop.induct)
  case (3 er h hs s)
  then obtain s1 where "select_event er h s = Some s1" "select_loop er hs s1 = Some s'" by (auto split: bind_splits)
  with 3 select_event_keeps show ?case using run_keeps_trans by blast
qed auto

lemma Dispatch_keeps: "DispatchEvents s = Some s' \<Longrightarrow> run_keeps s s'"
proof -
  assume e: "DispatchEvents s = Some s'"
  have loop: "run_keeps s s'" if "syscall c s = (r, s1)" "each_event f es s1 = Some s'"
    "\<And>e s s'. f e s = Some s' \<Longrightarrow> run_keeps s s'" for c r s1 f es
    using run_keeps_trans [OF run_keeps_syscall' [OF that(1)]] each_event_keeps [of f es s1 s'] that(2,3) by blast
  show ?thesis
  proof (cases "engine_kind (SE s)")
    case EPollEngine
    with e loop event_keeps(1) show ?thesis
      by (auto simp: DispatchEvents_def epoll_Dispatch_def split: prod.splits)
  next
    case KQueueEngine
    with e loop event_keeps(2) show ?thesis
      by (auto simp: DispatchEvents_def kqueue_Dispatch_def split: prod.splits)
  next
    case PortsEngine
    with e loop event_keeps(3) run_keeps_syscall' show ?thesis
      by (auto simp: DispatchEvents_def ports_Dispatch_def split: prod.splits if_splits)
  next
    case SelectEngine
    with e obtain rs ws es where sets: "select_sets s (sel_fds (SE s)) = Some (rs, ws, es)"
      by (auto simp: DispatchEvents_def select_Dispatch_def split: bind_splits)
    obtain r s1 where call: "syscall (Sys_select rs ws es) s = (r, s1)" by fastforce
    have l: "s' = s1 \<or> (\<exists>er hs. select_loop er hs s1 = Some s')"
      using e SelectEngine sets call by (auto simp: DispatchEvents_def select_Dispatch_def split: if_splits bind_splits)
    have "run_keeps s1 s'" using l select_loop_keeps by auto
    with run_keeps_syscall' [OF call] show ?thesis by (rule run_keeps_trans)
  qed
qed

section \<open>The defect of the select engine\<close>

text \<open>Claim C37: once a descriptor has been removed from the select engine (which leaves an entry for it that
  points at descriptor 0), the next round of dispatching dereferences a null pointer unless
  something is registered for descriptor 0.\<close>

theorem select_remove_crashes:
  assumes "engine_kind (SE s) = SelectEngine" and "DelFd eh sk force s = Some (True, s1)" and "ref (SE s1) 0 = None"
  shows "DispatchEvents s1 = None"
proof -
  from assms(1,2) obtain e where d: "set_ref sk None ((SE s)\<lparr>sel_fds := om_erase int_less sk (sel_fds (SE s)), CurrentSetSize := CurrentSetSize (SE s) - 1\<rparr>) = Some e"
    and s1: "s1 = s\<lparr>SE := e\<lparr>sel_fds := om_insert int_less sk 0 (sel_fds e)\<rparr>\<rparr>"
    by (auto simp: DelFd_def select_DelFd_def Let_def split: if_splits bind_splits)
  have "(sk, 0) \<in> set (om_insert int_less sk (0::int) m)" for m
    by (induction m) auto
  then have m: "(sk, 0) \<in> set (sel_fds (SE s1))" by (simp add: s1)
  have "select_sets s1 m = None" if "(sk, 0) \<in> set m" for m
    using that assms(3)
  proof (induction m)
    case (Cons p m)
    then show ?case by (cases p) (auto simp: ref_at_def split: bind_splits)
  qed simp
  with m have "select_sets s1 (sel_fds (SE s1)) = None" by blast
  moreover have "engine_kind (SE s1) = SelectEngine" using engine_kind_DelFd [OF assms(2)] assms(1) by simp
  ultimately show ?thesis by (simp add: DispatchEvents_def select_Dispatch_def)
qed

text \<open>The very first connection that goes away.\<close>

definition select_demo :: server where
  "select_demo = cull_demo\<lparr>SE := (engine_new SelectEngine 64 64)\<lparr>sel_fds := [(5, 5)], ref := [5 \<mapsto> H_Conn 1], CurrentSetSize := 1\<rparr>\<rparr>"

theorem select_remove_crashes_witness:
  "\<exists>s1. DelFd (H_Conn 1) 5 False select_demo = Some (True, s1) \<and> DispatchEvents s1 = None"
proof -
  have k: "engine_kind (SE select_demo) = SelectEngine" by (simp add: select_demo_def engine_new_def)
  obtain s1 where d: "DelFd (H_Conn 1) 5 False select_demo = Some (True, s1)" and r: "ref (SE s1) 0 = None"
    by (simp add: DelFd_def select_DelFd_def select_demo_def engine_new_def set_ref_def)
  from select_remove_crashes [OF k d r] d show ?thesis by blast
qed

end
