(* ===== verification/Shutdown.thy ===== *)
theory Shutdown
  imports Dispatch
begin

text \<open>
  How the daemon stops (\<open>src/server.cpp\<close> and \<open>Cleanup\<close>, \<open>Restart\<close> of \<open>src/inspircd.cpp\<close>). \<open>None\<close> is
  the use of an object that is gone. The virtual method \<open>GetVersion\<close> of the modules is the
  parameter \<open>ver\<close>.
\<close>

section \<open>Cleaning up\<close>

text \<open>The listeners that the vector \<open>ports\<close> points at are deleted, one after the other.\<close>

fun delete_ports :: "nat list \<Rightarrow> server \<Rightarrow> server option" where
  "delete_ports [] s = Some s"
| "delete_ports (p # ps) s = do { s' \<leftarrow> ListenSocket_delete p s; delete_ports ps s' }"

fun close_sockets :: "nat list \<Rightarrow> server \<Rightarrow> server option" where
  "close_sockets [] s = Some s"
| "close_sockets (a # as) s = do { c \<leftarrow> conns s a; close_sockets as (CloseSocket c s) }"

text \<open>\<open>Unload\<close> with what it asks of the dynamic linker. The modules of the sources override neither the
  two events nor \<open>Prioritize\<close>, and their destructors do nothing.\<close>

definition server_code :: "(hmodule \<Rightarrow> module_version) \<Rightarrow> hmodule module_code" where
  "server_code ver =
     \<lparr>version_of = ver, on_load = (\<lambda>_ _ _ mm. mm), on_unload = (\<lambda>_ _ _ mm. mm), prioritize = (\<lambda>_ mm. mm), destroy = (\<lambda>_ mm. mm)\<rparr>"

definition unload_module :: "(hmodule \<Rightarrow> module_version) \<Rightarrow> string \<Rightarrow> server \<Rightarrow> (bool \<times> server) option" where
  "unload_module ver fname s = do {
     (ok, mm) \<leftarrow> Unload (server_code ver) fname (ModMgr s);
     let s1 = s\<lparr>ModMgr := mm\<rparr>;
     Some (ok, if ok then snd (syscall (Sys_unload fname) s1) else s1)
   }"

fun unload_names :: "(hmodule \<Rightarrow> module_version) \<Rightarrow> string list \<Rightarrow> server \<Rightarrow> server option" where
  "unload_names ver [] s = Some s"
| "unload_names ver (f # fs) s = do { (_, s') \<leftarrow> unload_module ver f s; unload_names ver fs s' }"

definition unload_all :: "(hmodule \<Rightarrow> module_version) \<Rightarrow> server \<Rightarrow> server option" where
  "unload_all ver s = unload_names ver (GetAllModuleNames ver 0 (ModMgr s)) s"

text \<open>\<open>CloseLog\<close>.\<close>

definition CloseLog :: "server \<Rightarrow> server option" where
  "CloseLog s =
     (case LogFile s of
        None \<Rightarrow> Some s
      | Some g \<Rightarrow> do { (g', s') \<leftarrow> FileLogger_Close (g, s); Some (s'\<lparr>LogFile := Some g'\<rparr>) })"

definition Cleanup :: "(hmodule \<Rightarrow> module_version) \<Rightarrow> server \<Rightarrow> server option" where
  "Cleanup ver s = do {
     s1 \<leftarrow> delete_ports (ports (Config s)) s;
     let s2 = s1\<lparr>Config := (Config s1)\<lparr>ports := []\<rparr>\<rparr>;
     s3 \<leftarrow> close_sockets (local_connections s2) s2;
     s4 \<leftarrow> unload_all ver s3;
     s5 \<leftarrow> unload_all ver s4;
     s6 \<leftarrow> unload_all ver s5;
     CloseLog s6
   }"

section \<open>Ends of a run\<close>

text \<open>What a part of the program comes to: it goes on, it exits, it is replaced by another program, or an
  exception ends it.\<close>

datatype 'a outcome = Running 'a | Exited int server | Replaced server | Uncaught string server

definition Exit :: "(hmodule \<Rightarrow> module_version) \<Rightarrow> int \<Rightarrow> server \<Rightarrow> 'a outcome option" where
  "Exit ver status s = do { s1 \<leftarrow> Cleanup ver s; Some (Exited status (snd (syscall (Sys_exit status) s1))) }"

text \<open>\<open>strerror\<close> is the parameter \<open>etext\<close>.\<close>

definition Restart :: "(hmodule \<Rightarrow> module_version) \<Rightarrow> (errcode \<Rightarrow> string) \<Rightarrow> server \<Rightarrow> 'a outcome option" where
  "Restart ver etext s = do {
     s1 \<leftarrow> Cleanup ver s;
     (case syscall (Sys_execv (MyDir (Config s1) @ ''/inspircd'')) s1 of (r, s2) \<Rightarrow>
        Some (if r_ret r = - 1 then Uncaught (''Failed to execv()! error: '' @ etext (errno s2)) s2 else Replaced s2))
   }"

text \<open>The vector keeps the pointers. No module of the sources overrides \<open>OnGracefulShutdown\<close>.\<close>

definition GracefulShutdown :: "server \<Rightarrow> server option" where
  "GracefulShutdown s = do { s1 \<leftarrow> delete_ports (ports (Config s)) s; Some (s1\<lparr>ShuttingDown := True\<rparr>) }"

definition SIGHUP :: int where "SIGHUP = 1"
definition SIGTERM :: int where "SIGTERM = 15"

definition SetSignal :: "int \<Rightarrow> server \<Rightarrow> server" where
  "SetSignal sig s = s\<lparr>s_signal := sig\<rparr>"

definition SignalHandler :: "(hmodule \<Rightarrow> module_version) \<Rightarrow> int \<Rightarrow> server \<Rightarrow> server outcome option" where
  "SignalHandler ver sig s =
     (if sig = SIGHUP then map_option Running (GracefulShutdown s)
      else if sig = SIGTERM then Exit ver sig s
      else Some (Running s))"

section \<open>What deleting listeners does\<close>

lemma delete_ports_result:
  "delete_ports ps s = Some s' \<Longrightarrow> Config s' = Config s \<and> life_same s s' \<and> ShuttingDown s' = ShuttingDown s \<and>
    listeners s' = (\<lambda>p. if p \<in> set ps then None else listeners s p)"
proof (induction ps s rule: delete_ports.induct)
  case (2 p ps s)
  then obtain s1 where d: "ListenSocket_delete p s = Some s1" and r: "delete_ports ps s1 = Some s'" by (auto split: bind_splits)
  have "ShuttingDown s1 = ShuttingDown s" by (rule ListenSocket_delete_shutting [OF d])
  with ListenSocket_delete_result [OF d] "2.IH" [OF d r] life_same_trans [of s s1 s'] show ?case by auto
qed simp

lemma delete_ports_gone: "p \<in> set ps \<Longrightarrow> listeners s p = None \<Longrightarrow> delete_ports ps s = None"
proof (induction ps s rule: delete_ports.induct)
  case (2 q ps s)
  show ?case
  proof (cases "ListenSocket_delete q s")
    case (Some s1)
    then have "q \<noteq> p" using "2.prems"(2) by (auto simp: ListenSocket_delete_def)
    moreover have "listeners s1 p = None" using ListenSocket_delete_result [OF Some] "2.prems"(2) by simp
    ultimately show ?thesis using 2 Some by simp
  qed simp
qed simp

text \<open>A pointer that occurs twice is freed twice.\<close>

lemma delete_ports_some:
  "distinct ps \<Longrightarrow> \<forall>p\<in>set ps. \<exists>l. listeners s p = Some l \<and> ls_fd l \<noteq> MAX_DESCRIPTORS (SE s) \<Longrightarrow> \<exists>s'. delete_ports ps s = Some s'"
proof (induction ps s rule: delete_ports.induct)
  case (2 p ps s)
  obtain l where l: "listeners s p = Some l" "ls_fd l \<noteq> MAX_DESCRIPTORS (SE s)" using "2.prems" by auto
  from ListenSocket_delete_total [OF l] obtain s1 where d: "ListenSocket_delete p s = Some s1"
    and m: "MAX_DESCRIPTORS (SE s1) = MAX_DESCRIPTORS (SE s)" by blast
  have "\<forall>q\<in>set ps. \<exists>l. listeners s1 q = Some l \<and> ls_fd l \<noteq> MAX_DESCRIPTORS (SE s1)"
    using "2.prems" ListenSocket_delete_result [OF d] m by auto
  with "2.IH" [OF d] "2.prems"(1) d show ?case by auto
qed simp

section \<open>A complete end\<close>

text \<open>What the operations of \<open>Cleanup\<close> leave alone, and that the trace only grows.\<close>

definition stop_step :: "server \<Rightarrow> server \<Rightarrow> bool" where
  "stop_step s s' \<longleftrightarrow> (\<exists>new. trace s' = trace s @ new) \<and> LogFile s' = LogFile s \<and> conns s' = conns s \<and>
     local_connections s' = local_connections s \<and> listeners s' = listeners s \<and> Config s' = Config s \<and>
     MAX_DESCRIPTORS (SE s') = MAX_DESCRIPTORS (SE s)"

lemma stop_step_refl [simp]: "stop_step s s"
  by (simp add: stop_step_def)

lemma stop_step_trans [trans]: "stop_step s s' \<Longrightarrow> stop_step s' s'' \<Longrightarrow> stop_step s s''"
  by (auto simp: stop_step_def)

lemma stop_step_call: "syscall c s = (r, s') \<Longrightarrow> stop_step s s'"
  by (auto simp: stop_step_def srv_io_fields [OF syscall_frame] syscall_trace syscall_SE')

lemma stop_step_calls [simp]:
  "stop_step s (snd (syscall c s))" "stop_step s (snd (SE_Close sk s))" "stop_step s (snd (SE_Shutdown sk how s))"
  by (auto simp: SE_Close_def SE_Shutdown_def split: prod.split dest: stop_step_call intro: stop_step_call prod.collapse [symmetric])

lemma stop_step_DelFd:
  assumes "DelFd eh sk force s = Some (b, s')"
  shows "stop_step s s'"
  using quiet_prefix [OF DelFd_srv_step [OF assms]] srv_io_fields [OF DelFd_frame [OF assms]] DelFd_MAX [OF assms]
  by (simp add: stop_step_def)

lemma stop_step_CloseSocket: "stop_step s (CloseSocket c s)"
  unfolding CloseSocket_def by (rule stop_step_trans [OF stop_step_calls(3) stop_step_calls(2)])

lemma close_sockets_total:
  "\<forall>a\<in>set as. conns s a \<noteq> None \<Longrightarrow> \<exists>s' new. close_sockets as s = Some s' \<and> stop_step s s' \<and> trace s' = trace s @ new \<and>
    (\<forall>a\<in>set as. Sys_close (fd (the (conns s a))) \<in> fst ` set new)"
proof (induction as arbitrary: s)
  case (Cons a as)
  then obtain c where c: "conns s a = Some c" by auto
  have st: "stop_step s (CloseSocket c s)" by (rule stop_step_CloseSocket)
  then have same: "conns (CloseSocket c s) = conns s" by (simp add: stop_step_def)
  obtain s' new where r: "close_sockets as (CloseSocket c s) = Some s'" "stop_step (CloseSocket c s) s'"
    "trace s' = trace (CloseSocket c s) @ new" "\<forall>b\<in>set as. Sys_close (fd (the (conns s b))) \<in> fst ` set new"
    using Cons.IH [of "CloseSocket c s"] Cons.prems same by auto
  obtain x y where "trace (CloseSocket c s) = trace s @ [(Sys_shutdown (fd c) 2, x), (Sys_close (fd c), y)]"
    using CloseSocket_trace by blast
  then have "trace s' = trace s @ ([(Sys_shutdown (fd c) 2, x), (Sys_close (fd c), y)] @ new)" using r(3) by simp
  moreover have "stop_step s s'" by (rule stop_step_trans [OF st r(2)])
  ultimately show ?case using c r(1,4) by (intro exI conjI) auto
qed simp

lemma server_code_lawful: "lawful_code (server_code ver)"
  by (simp add: lawful_code_def server_code_def tells_refl reorders_refl)

lemma server_code_Unload: "\<exists>ok mm'. Unload (server_code ver) f mm = Some (ok, mm')"
proof -
  have "foreach_vector i (\<lambda>h. on_unload (server_code ver) h md f) hs mm = Some mm" for i md hs and mm :: "hmodule module_manager"
    by (rule foreach_vector_idle) (simp add: server_code_def)
  then show ?thesis by (auto simp: Unload_def mod_error_def Let_def split: option.split prod.split)
qed

lemma unload_module_step: "\<exists>ok s'. unload_module ver f s = Some (ok, s') \<and> stop_step s s'"
proof -
  obtain ok mm where u: "Unload (server_code ver) f (ModMgr s) = Some (ok, mm)" using server_code_Unload by blast
  have "stop_step s (s\<lparr>ModMgr := mm\<rparr>)" by (simp add: stop_step_def)
  moreover from this have "stop_step s (snd (syscall (Sys_unload f) (s\<lparr>ModMgr := mm\<rparr>)))"
    by (rule stop_step_trans) (rule stop_step_calls(1))
  ultimately show ?thesis by (simp add: unload_module_def u Let_def)
qed

lemma unload_all_step: "\<exists>s'. unload_all ver s = Some s' \<and> stop_step s s'"
proof -
  have "\<exists>s'. unload_names ver fs s = Some s' \<and> stop_step s s'" for fs
  proof (induction fs arbitrary: s)
    case (Cons f fs)
    obtain ok s1 where u: "unload_module ver f s = Some (ok, s1)" "stop_step s s1" using unload_module_step by blast
    obtain s2 where "unload_names ver fs s1 = Some s2" "stop_step s1 s2" using Cons by blast
    with u show ?case using stop_step_trans by auto
  qed (simp add: stop_step_def)
  then show ?thesis by (simp add: unload_all_def)
qed

lemma unload_all_steps:
  obtains s1 s2 s3 where "unload_all ver s = Some s1" "unload_all ver s1 = Some s2" "unload_all ver s2 = Some s3"
    "stop_step s s3"
proof -
  obtain s1 where 1: "unload_all ver s = Some s1" "stop_step s s1" using unload_all_step by blast
  obtain s2 where 2: "unload_all ver s1 = Some s2" "stop_step s1 s2" using unload_all_step by blast
  obtain s3 where 3: "unload_all ver s2 = Some s3" "stop_step s2 s3" using unload_all_step by blast
  show ?thesis by (rule that [OF 1(1) 2(1) 3(1)]) (rule stop_step_trans [OF stop_step_trans [OF 1(2) 2(2)] 3(2)])
qed

lemma ListenSocket_delete_stop:
  assumes "ListenSocket_delete p s = Some s'"
  shows "stop_step s (s'\<lparr>listeners := listeners s\<rparr>)"
proof -
  from assms obtain l where l: "listeners s p = Some l" by (auto simp: ListenSocket_delete_def split: bind_splits)
  show ?thesis
  proof (cases "ls_fd l > - 1")
    case True
    with assms l obtain b s1 where d: "DelFd (H_Listen p) (ls_fd l) False s = Some (b, s1)"
      by (auto simp: ListenSocket_delete_def split: bind_splits)
    define s2 where "s2 = snd (SE_Shutdown (ls_fd l) 2 s1)"
    define s3 where "s3 = (if fst (SE_Shutdown (ls_fd l) 2 s1) \<noteq> 0 then s2 else snd (SE_Close (ls_fd l) s2))"
    have "stop_step s2 s3" by (simp add: s3_def)
    then have 3: "stop_step s s3"
      using stop_step_trans [OF stop_step_DelFd [OF d]] stop_step_calls(3) [of s1] stop_step_trans unfolding s2_def by blast
    have "s' = s3\<lparr>listeners := (listeners s3)(p := None)\<rparr>"
      using assms l True d by (auto simp: ListenSocket_delete_def s2_def s3_def Let_def case_prod_beta)
    with 3 show ?thesis by (simp add: stop_step_def)
  qed (use assms l in \<open>auto simp: ListenSocket_delete_def stop_step_def\<close>)
qed

lemma delete_ports_stop: "delete_ports ps s = Some s' \<Longrightarrow> stop_step s (s'\<lparr>listeners := listeners s\<rparr>)"
proof (induction ps s rule: delete_ports.induct)
  case (2 p ps s)
  then obtain s1 where d: "ListenSocket_delete p s = Some s1" and r: "delete_ports ps s1 = Some s'" by (auto split: bind_splits)
  from ListenSocket_delete_stop [OF d] "2.IH" [OF d r] show ?case by (auto simp: stop_step_def)
qed simp

lemma CloseLog_total:
  assumes "\<And>g sk. LogFile s = Some g \<Longrightarrow> log_fd g = Some sk \<Longrightarrow> sk \<noteq> MAX_DESCRIPTORS (SE s)"
  shows "\<exists>s' new. CloseLog s = Some s' \<and> trace s' = trace s @ new \<and> listeners s' = listeners s \<and>
    (\<forall>g. LogFile s = Some g \<and> log_fd g \<noteq> None \<longrightarrow> Sys_fclose [] \<in> fst ` set new \<and>
       (log_buffer g \<noteq> [] \<longrightarrow> Sys_fprintf (c_str (log_buffer g)) \<in> fst ` set new))"
proof (cases "LogFile s")
  case (Some g)
  show ?thesis
  proof (cases "log_fd g")
    case sk: (Some sk)
    define s1 where "s1 = snd (Blocking sk s)"
    have 1: "stop_step s s1"
      using stop_step_trans [OF stop_step_call stop_step_call] by (auto simp: s1_def Blocking_def split: prod.split)
    define s2 where "s2 = (if log_buffer g \<noteq> [] then snd (syscall (Sys_fprintf (c_str (log_buffer g))) s1) else s1)"
    have 2: "stop_step s1 s2" by (simp add: s2_def)
    obtain n1 where n1: "trace s1 = trace s @ n1" using 1 by (auto simp: stop_step_def)
    have "\<exists>n2. trace s2 = trace s1 @ n2 \<and> (log_buffer g \<noteq> [] \<longrightarrow> Sys_fprintf (c_str (log_buffer g)) \<in> fst ` set n2)"
      by (cases "log_buffer g = []") (auto simp: s2_def syscall_def Let_def)
    then obtain n2 where n2: "trace s2 = trace s1 @ n2" "log_buffer g \<noteq> [] \<longrightarrow> Sys_fprintf (c_str (log_buffer g)) \<in> fst ` set n2"
      by blast
    have "sk \<noteq> MAX_DESCRIPTORS (SE s2)" using assms [OF Some sk] 1 2 by (simp add: stop_step_def)
    then obtain b s3 where d: "DelFd H_Log sk False s2 = Some (b, s3)" using DelFd_total by blast
    obtain has where has: "HasFd sk s2 = Some has"
      using \<open>sk \<noteq> MAX_DESCRIPTORS (SE s2)\<close> by (cases "sk < 0 \<or> sk > MAX_DESCRIPTORS (SE s2)") (simp_all add: HasFd_def ref_at_def)
    define s4 where "s4 = (if has then s3 else s2)"
    have "stop_step s2 s4" using stop_step_DelFd [OF d] by (simp add: s4_def)
    then obtain n3 where n3: "trace s4 = trace s2 @ n3" and l4: "listeners s4 = listeners s2" by (auto simp: stop_step_def)
    define s5 where "s5 = snd (syscall (Sys_fclose []) (snd (syscall Sys_fflush s4)))"
    obtain n4 where n4: "trace s5 = trace s4 @ n4" "Sys_fclose [] \<in> fst ` set n4" by (auto simp: s5_def syscall_def Let_def)
    have "FileLogger_Close (g, s) = Some (g\<lparr>log_buffer := []\<rparr>, s5)"
      using sk has d by (cases "log_buffer g = []"; cases has) (simp_all add: FileLogger_Close_def Let_def s5_def s4_def s2_def s1_def)
    then have "CloseLog s = Some (s5\<lparr>LogFile := Some (g\<lparr>log_buffer := []\<rparr>)\<rparr>)" by (simp add: CloseLog_def Some)
    moreover have "listeners s5 = listeners s"
      using 1 2 l4 stop_step_trans [OF stop_step_calls(1) stop_step_calls(1), of s4 "Sys_fclose []" Sys_fflush]
      by (simp add: s5_def stop_step_def)
    ultimately show ?thesis using Some n1 n2 n3 n4
      by (intro exI [of _ "s5\<lparr>LogFile := Some (g\<lparr>log_buffer := []\<rparr>)\<rparr>"] exI [of _ "n1 @ n2 @ n3 @ n4"]) auto
  next
    case None
    then show ?thesis by (auto simp: CloseLog_def FileLogger_Close_def Some)
  qed
qed (auto simp: CloseLog_def)

text \<open>Claim C40: as long as no graceful shutdown was asked for, an exit is complete: it returns, every listener of the
  configuration is deleted, the socket of every connection is closed, what the log still holds is
  printed and the file closed, and the call that ends the process comes last, with the status asked for.\<close>

theorem Exit_complete:
  assumes "life_inv s" and "ports_ok s"
    and "\<forall>p\<in>set (ports (Config s)). ls_fd (the (listeners s p)) \<noteq> MAX_DESCRIPTORS (SE s)"
    and "\<forall>g sk. LogFile s = Some g \<and> log_fd g = Some sk \<longrightarrow> sk \<noteq> MAX_DESCRIPTORS (SE s)"
  shows "\<exists>s' new r. Exit ver k s = Some (Exited k s') \<and> trace s' = trace s @ new @ [(Sys_exit k, r)] \<and>
    (\<forall>p\<in>set (ports (Config s)). listeners s' p = None) \<and>
    (\<forall>c\<in>ran (conns s). Sys_close (fd c) \<in> fst ` set new) \<and>
    (\<forall>g. LogFile s = Some g \<and> log_fd g \<noteq> None \<longrightarrow> Sys_fclose [] \<in> fst ` set new \<and>
       (log_buffer g \<noteq> [] \<longrightarrow> Sys_fprintf (c_str (log_buffer g)) \<in> fst ` set new))"
proof -
  have "distinct (ports (Config s))" "\<forall>p\<in>set (ports (Config s)). \<exists>l. listeners s p = Some l \<and> ls_fd l \<noteq> MAX_DESCRIPTORS (SE s)"
    using assms(2,3) by (force simp: ports_ok_def distinct_map)+
  then obtain s1 where d: "delete_ports (ports (Config s)) s = Some s1" using delete_ports_some by blast
  note st1 = delete_ports_stop [OF d] and r1 = delete_ports_result [OF d]
  obtain n1 where n1: "trace s1 = trace s @ n1" using st1 by (auto simp: stop_step_def)
  define s2 where "s2 = s1\<lparr>Config := (Config s1)\<lparr>ports := []\<rparr>\<rparr>"
  have same2: "conns s2 = conns s" "local_connections s2 = local_connections s" using r1 by (simp_all add: s2_def life_same_def)
  have dom: "set (local_connections s) = dom (conns s)" using assms(1) by (simp add: life_inv_def)
  obtain s3 n2 where c: "close_sockets (local_connections s2) s2 = Some s3" and st3: "stop_step s2 s3"
    and n2: "trace s3 = trace s2 @ n2" "\<forall>a\<in>dom (conns s). Sys_close (fd (the (conns s a))) \<in> fst ` set n2"
    using close_sockets_total [of "local_connections s2" s2] dom same2 by auto
  obtain u1 u2 s4 where un: "unload_all ver s3 = Some u1" "unload_all ver u1 = Some u2" "unload_all ver u2 = Some s4"
    and us: "stop_step s3 s4"
    by (rule unload_all_steps)
  have st4: "stop_step s2 s4" by (rule stop_step_trans [OF st3 us])
  obtain n3 where n3: "trace s4 = trace s3 @ n3" using us by (auto simp: stop_step_def)
  have same4: "LogFile s4 = LogFile s" "MAX_DESCRIPTORS (SE s4) = MAX_DESCRIPTORS (SE s)" "listeners s4 = listeners s1"
    using st1 st4 by (simp_all add: stop_step_def s2_def)
  obtain s5 n4 where l: "CloseLog s4 = Some s5" "trace s5 = trace s4 @ n4" "listeners s5 = listeners s4"
    "\<forall>g. LogFile s4 = Some g \<and> log_fd g \<noteq> None \<longrightarrow> Sys_fclose [] \<in> fst ` set n4 \<and>
       (log_buffer g \<noteq> [] \<longrightarrow> Sys_fprintf (c_str (log_buffer g)) \<in> fst ` set n4)"
    using CloseLog_total [of s4] assms(4) by (auto simp: same4)
  obtain r s6 where e: "syscall (Sys_exit k) s5 = (r, s6)" by fastforce
  have "Exit ver k s = Some (Exited k s6)"
  proof -
    have "local_connections s2 = local_connections s1" by (simp add: s2_def)
    with d c l(1) e show ?thesis by (simp add: Exit_def Cleanup_def s2_def [symmetric] un)
  qed
  moreover have "trace s6 = trace s @ (n1 @ n2 @ n3 @ n4) @ [(Sys_exit k, r)]"
    using syscall_trace [OF e] n1 n2(1) n3 l(2) by (simp add: s2_def)
  moreover have "listeners s6 = listeners s1" using stop_step_call [OF e] l(3) same4(3) by (simp add: stop_step_def)
  then have "\<forall>p\<in>set (ports (Config s)). listeners s6 p = None" using r1 by simp
  moreover have "\<forall>c\<in>ran (conns s). Sys_close (fd c) \<in> fst ` set (n1 @ n2 @ n3 @ n4)" using n2(2) by (force simp: ran_def)
  moreover have "\<forall>g. LogFile s = Some g \<and> log_fd g \<noteq> None \<longrightarrow> Sys_fclose [] \<in> fst ` set (n1 @ n2 @ n3 @ n4) \<and>
       (log_buffer g \<noteq> [] \<longrightarrow> Sys_fprintf (c_str (log_buffer g)) \<in> fst ` set (n1 @ n2 @ n3 @ n4))"
    using l(4) same4(1) by auto
  ultimately show ?thesis by blast
qed

text \<open>A daemon with a listener, a connection and a line in its log.\<close>

definition stop_demo :: server where
  "stop_demo = ports_demo\<lparr>LogFile := Some \<lparr>log_fd = Some 3, log_buffer = ''bye'', writeops = 0\<rparr>,
     local_connections := [1], conns := [1 \<mapsto> (Connection_new 1 990 fs_demo)\<lparr>fd := 5\<rparr>]\<rparr>"

lemma stop_demo_sel:
  "local_connections stop_demo = [1]" "conns stop_demo = [1 \<mapsto> (Connection_new 1 990 fs_demo)\<lparr>fd := 5\<rparr>]" "culls stop_demo = []"
  "next_addr stop_demo = 10" "listeners stop_demo = listeners ports_demo" "Config stop_demo = Config ports_demo"
  "MAX_DESCRIPTORS (SE stop_demo) = 64" "trace stop_demo = []"
  "LogFile stop_demo = Some \<lparr>log_fd = Some 3, log_buffer = ''bye'', writeops = 0\<rparr>" "next_addr ports_demo = 10"
  by (simp_all add: stop_demo_def ports_demo_def fs_demo_def engine_new_def)

lemma stop_demo_conn: "this_ptr (Connection_new p t s) = p" "quitting (Connection_new p t s) = False"
  by (simp_all add: Connection_new_def)

lemma stop_demo_ok: "life_inv stop_demo" "ports_ok stop_demo"
  using ports_demo_ok(1) by (auto simp: life_inv_def ports_ok_def stop_demo_sel stop_demo_conn)

theorem Exit_complete_witness:
  "\<exists>s' new r. Exit (\<lambda>_. \<lparr>v_flags = 2, v_api = 0\<rparr>) 15 stop_demo = Some (Exited 15 s' :: unit outcome) \<and>
     trace s' = new @ [(Sys_exit 15, r)] \<and> listeners s' 9 = None \<and> Sys_close 5 \<in> fst ` set new \<and>
     Sys_fclose [] \<in> fst ` set new \<and> Sys_fprintf ''bye'' \<in> fst ` set new"
proof -
  have p: "ports (Config ports_demo) = [9]" "ls_fd (the (listeners ports_demo 9)) = 4" by (simp_all add: ports_demo_def)
  have h: "\<forall>p\<in>set (ports (Config stop_demo)). ls_fd (the (listeners stop_demo p)) \<noteq> MAX_DESCRIPTORS (SE stop_demo)"
    "\<forall>g sk. LogFile stop_demo = Some g \<and> log_fd g = Some sk \<longrightarrow> sk \<noteq> MAX_DESCRIPTORS (SE stop_demo)"
    by (simp_all add: p stop_demo_sel)
  show ?thesis
    using Exit_complete [OF stop_demo_ok h, where 'a = unit and k = 15 and ver = "\<lambda>_. \<lparr>v_flags = 2, v_api = 0\<rparr>"]
    by (simp add: p stop_demo_sel c_str_def)
qed

end
