(* ===== verification/MainLoop.thy ===== *)
theory MainLoop
  imports Shutdown Timers
begin

text \<open>
  The main loop (\<open>InspIRCd::Run\<close> of \<open>src/inspircd.cpp\<close>): timeouts, timers, the dispatch of events, the
  culling of connections and signals. The state is the local variable \<open>times\<close> and the queue of
  timers, whose component \<open>outside\<close> is the server. \<open>None\<close> is undefined behaviour, or a round that
  does not end.
\<close>

section \<open>One round\<close>

text \<open>No module of the sources overrides \<open>OnGarbageCollect\<close>.\<close>

definition OnGarbageCollect :: "hmodule \<Rightarrow> server \<Rightarrow> server option" where
  "OnGarbageCollect m s = Some s"

type_synonym ticker = "nat \<Rightarrow> int \<Rightarrow> server timer_state \<Rightarrow> server timer_state option"

definition background :: "server \<Rightarrow> server option" where
  "background s =
     (if TIME s mod 5 = 0 then foreach_mod OnBackgroundTimer (event_handlers s I_OnBackgroundTimer) s else Some s)"

text \<open>What is done when the clock has moved.\<close>

definition every_second :: "(hmodule \<Rightarrow> module_version) \<Rightarrow> ticker \<Rightarrow> sorter \<Rightarrow> server timer_state \<Rightarrow>
  server timer_state outcome option"
where
  "every_second ver tick srt ts =
     (let s = outside ts in
      if ShuttingDown s \<and> local_connections s = [] then Exit ver 0 s
      else do {
        s1 \<leftarrow> (if TIME s mod 3600 = 0 then foreach_mod OnGarbageCollect (event_handlers s I_OnGarbageCollect) s else Some s);
        ts1 \<leftarrow> TickTimers tick srt (TIME s1) (ts\<lparr>outside := s1\<rparr>);
        s2 \<leftarrow> background (outside ts1);
        Some (Running (ts1\<lparr>outside := s2\<rparr>))
      })"

fun and_then :: "'a outcome option \<Rightarrow> ('a \<Rightarrow> 'b outcome option) \<Rightarrow> 'b outcome option" where
  "and_then None f = None"
| "and_then (Some (Running a)) f = f a"
| "and_then (Some (Exited k s)) f = Some (Exited k s)"
| "and_then (Some (Replaced s)) f = Some (Replaced s)"
| "and_then (Some (Uncaught e s)) f = Some (Uncaught e s)"

text \<open>A signal is noted by its handler at any time; what counts is what \<open>s_signal\<close> holds when it is tested. One
  that arrives while \<open>SignalHandler\<close> runs is lost when \<open>s_signal\<close> is reset.\<close>

definition after_events :: "(hmodule \<Rightarrow> module_version) \<Rightarrow> int option \<Rightarrow> server \<Rightarrow> server outcome option" where
  "after_events ver sig s = do {
     s4 \<leftarrow> DispatchEvents s;
     (_, s5) \<leftarrow> CullList_Apply s4;
     let s6 = (case sig of None \<Rightarrow> s5 | Some g \<Rightarrow> SetSignal g s5);
     if s_signal s6 \<noteq> 0 then and_then (SignalHandler ver (s_signal s6) s6) (\<lambda>s7. Some (Running (SetSignal 0 s7)))
     else Some (Running s6)
   }"

text \<open>The sweep for timeouts, every \<open>TimeoutCullFrequency\<close> rounds; \<open>n\<close> is \<open>times\<close>.\<close>

definition sweep :: "int \<Rightarrow> server \<Rightarrow> (int \<times> server) option" where
  "sweep n s = (if n > TimeoutCullFrequency (Config s) then map_option (Pair 1) (timeout_connections s) else Some (n, s))"

type_synonym run_state = "int \<times> server timer_state"

definition run_once :: "(hmodule \<Rightarrow> module_version) \<Rightarrow> ticker \<Rightarrow> sorter \<Rightarrow> int option \<Rightarrow> run_state \<Rightarrow> run_state outcome option" where
  "run_once ver tick srt sig st = (case st of (tms, ts) \<Rightarrow>
     case syscall Sys_time (outside ts) of (t, s0) \<Rightarrow>
       do {
         (n', s2) \<leftarrow> sweep (tms + 1) (s0\<lparr>OLDTIME := TIME s0, TIME := r_ret t\<rparr>);
         let ts2 = ts\<lparr>outside := s2\<rparr>;
         and_then (if TIME s2 \<noteq> OLDTIME s2 then every_second ver tick srt ts2 else Some (Running ts2)) (\<lambda>ts3.
           and_then (after_events ver sig (outside ts3)) (\<lambda>s7. Some (Running (n', ts3\<lparr>outside := s7\<rparr>))))
       })"

text \<open>The loop; \<open>sigs\<close> are the signals that arrive in its rounds.\<close>

partial_function (option) Run :: "(hmodule \<Rightarrow> module_version) \<Rightarrow> ticker \<Rightarrow> sorter \<Rightarrow> (nat \<Rightarrow> int option) \<Rightarrow> run_state \<Rightarrow>
  unit outcome option"
where
  "Run ver tick srt sigs st = do {
     o1 \<leftarrow> run_once ver tick srt (sigs 0) st;
     (case o1 of
        Running st' \<Rightarrow> Run ver tick srt (\<lambda>k. sigs (Suc k)) st'
      | Exited k s \<Rightarrow> Some (Exited k s)
      | Replaced s \<Rightarrow> Some (Replaced s)
      | Uncaught e s \<Rightarrow> Some (Uncaught e s))
   }"

text \<open>The states between rounds.\<close>

inductive reached :: "(hmodule \<Rightarrow> module_version) \<Rightarrow> ticker \<Rightarrow> sorter \<Rightarrow> run_state \<Rightarrow> run_state \<Rightarrow> bool"
  for ver tick srt st
where
  start: "reached ver tick srt st st"
| round: "reached ver tick srt st st' \<Longrightarrow> run_once ver tick srt sig st' = Some (Running st'') \<Longrightarrow> reached ver tick srt st st''"

section \<open>What a round keeps\<close>

text \<open>Between rounds the list of connections is right; the listeners are, too, until a graceful shutdown, and
  after it every pointer in \<open>ports\<close> dangles.\<close>

definition server_ok :: "server \<Rightarrow> bool" where
  "server_ok s \<longleftrightarrow> life_inv s \<and>
     (if ShuttingDown s then \<forall>p\<in>set (ports (Config s)). listeners s p = None else ports_ok s)"

definition tick_keeps :: "ticker \<Rightarrow> bool" where
  "tick_keeps tick \<longleftrightarrow> (\<forall>t now ts ts'. tick t now ts = Some ts' \<longrightarrow> run_keeps (outside ts) (outside ts'))"

lemma server_ok_keeps: "run_keeps s s' \<Longrightarrow> server_ok s \<Longrightarrow> server_ok s'"
  using run_keeps_ports [of s s'] by (auto simp: server_ok_def run_keeps_def split: if_splits)

lemma run_keeps_update:
  "run_keeps s (s\<lparr>OLDTIME := a, TIME := b\<rparr>)" "run_keeps s (SetSignal g s)"
  by (auto simp: run_keeps_def life_inv_def SetSignal_def)

lemma TickTimers_keeps:
  assumes ret: "TickTimers tick srt now ts = Some ts'" and k: "tick_keeps tick"
  shows "run_keeps (outside ts) (outside ts')"
proof -
  have "tick_keeps tick \<longrightarrow> run_keeps (outside ts) (outside ts')"
  proof (rule TickTimers.raw_induct [where P = "\<lambda>tick srt now ts ts'. tick_keeps tick \<longrightarrow> run_keeps (outside ts) (outside ts')", OF _ ret])
    fix f tick srt now and ts ts' :: "server timer_state"
    assume IH: "\<And>tick srt now ts ts'. f tick srt now ts = Some ts' \<Longrightarrow> tick_keeps tick \<longrightarrow> run_keeps (outside ts) (outside ts')"
      and e: "(case Timers ts of [] \<Rightarrow> Some ts
        | t # us \<Rightarrow> do {
            tm \<leftarrow> timer_at ts t;
            if now > trigger tm then do {
              s1 \<leftarrow> tick t now (ts\<lparr>Timers := us\<rparr>);
              tm1 \<leftarrow> timer_at s1 t;
              if repeat tm1 then do {
                s2 \<leftarrow> AddTimer srt t (s1\<lparr>timer_at := (timer_at s1)(t \<mapsto> SetTimer (now + secs tm1) tm1)\<rparr>);
                f tick srt now s2
              } else f tick srt now (s1\<lparr>timer_at := (timer_at s1)(t := None)\<rparr>)
            } else Some ts
          }) = Some ts'"
    show "tick_keeps tick \<longrightarrow> run_keeps (outside ts) (outside ts')"
    proof
      assume k: "tick_keeps tick"
      have tick: "run_keeps (outside ts) (outside s1)" if "tick t now (ts\<lparr>Timers := us\<rparr>) = Some s1" for t us s1
        using k that unfolding tick_keeps_def by fastforce
      have rest: "run_keeps (outside s2) (outside ts')" if "f tick srt now s2 = Some ts'" for s2 using IH [OF that] k by blast
      show "run_keeps (outside ts) (outside ts')"
      proof (cases "ts' = ts")
        case False
        with e obtain t us tm s1 tm1 where l: "Timers ts = t # us" and t: "tick t now (ts\<lparr>Timers := us\<rparr>) = Some s1"
          and tm1: "timer_at s1 t = Some tm1"
          and c: "(if repeat tm1 then do {
              s2 \<leftarrow> AddTimer srt t (s1\<lparr>timer_at := (timer_at s1)(t \<mapsto> SetTimer (now + secs tm1) tm1)\<rparr>);
              f tick srt now s2
            } else f tick srt now (s1\<lparr>timer_at := (timer_at s1)(t := None)\<rparr>)) = Some ts'"
          by (cases "Timers ts") (simp_all split: bind_splits if_split_asm)
        have "\<exists>s2. outside s2 = outside s1 \<and> f tick srt now s2 = Some ts'"
        proof (cases "repeat tm1")
          case True
          with c obtain s2 where "AddTimer srt t (s1\<lparr>timer_at := (timer_at s1)(t \<mapsto> SetTimer (now + secs tm1) tm1)\<rparr>) = Some s2"
            "f tick srt now s2 = Some ts'" by (auto split: bind_splits)
          then show ?thesis by (intro exI [of _ s2]) (auto simp: AddTimer_def Let_def split: if_splits)
        next
          case False
          with c show ?thesis by (intro exI [of _ "s1\<lparr>timer_at := (timer_at s1)(t := None)\<rparr>"]) simp
        qed
        with tick [OF t] rest show ?thesis using run_keeps_trans by metis
      qed simp
    qed
  qed
  with k show ?thesis by blast
qed

lemma foreach_keeps:
  assumes "\<And>m s s'. f m s = Some s' \<Longrightarrow> run_keeps s s'" and "foreach_mod f ms s = Some s'"
  shows "run_keeps s s'"
  using assms(2)
proof (induction ms arbitrary: s)
  case (Cons m ms)
  then obtain s1 where "f m s = Some s1" "foreach_mod f ms s1 = Some s'" by (auto split: bind_splits)
  with assms(1) Cons.IH show ?case using run_keeps_trans by blast
qed simp

lemma foreach_garbage [simp]: "foreach_mod OnGarbageCollect ms s = Some s"
  by (induction ms) (simp_all add: OnGarbageCollect_def)

lemma timeout_loop_keeps: "timeout_loop as s = Some s' \<Longrightarrow> run_keeps s s'"
proof (induction as s rule: timeout_loop.induct)
  case (2 a as s)
  then obtain s1 where 1: "timeout_conn a s = Some s1" and r: "timeout_loop as s1 = Some s'" by (auto split: bind_splits)
  have "run_keeps s s1"
    using 1 by (auto simp: timeout_conn_def delete_conn_def split: bind_splits if_splits prod.splits
        intro!: run_keeps_conn dest: kstep_Delete_parts)
  with "2.IH" [OF 1 r] show ?case by (rule run_keeps_trans [rotated])
qed simp

lemma background_keeps:
  assumes "background s = Some s'"
  shows "run_keeps s s'"
proof -
  from assms have "s' = s \<or> foreach_mod OnBackgroundTimer (event_handlers s I_OnBackgroundTimer) s = Some s'"
    by (auto simp: background_def split: if_splits)
  then show ?thesis using foreach_keeps [of OnBackgroundTimer] run_keeps_srv OnBackgroundTimer_step by blast
qed

lemma every_second_eq:
  "every_second ver tick srt ts =
     (if ShuttingDown (outside ts) \<and> local_connections (outside ts) = [] then Exit ver 0 (outside ts)
      else do {
        ts1 \<leftarrow> TickTimers tick srt (TIME (outside ts)) ts;
        s2 \<leftarrow> background (outside ts1);
        Some (Running (ts1\<lparr>outside := s2\<rparr>))
      })"
  by (simp add: every_second_def Let_def)

lemma Exit_not_running [simp]: "Exit ver k s \<noteq> Some (Running a)"
  by (simp add: Exit_def split: Option.bind_split)

lemma every_second_keeps:
  assumes "every_second ver tick srt ts = Some (Running ts')" and "tick_keeps tick"
  shows "run_keeps (outside ts) (outside ts')"
proof -
  from assms(1) obtain ts1 s2 where t: "TickTimers tick srt (TIME (outside ts)) ts = Some ts1"
    and b: "background (outside ts1) = Some s2" and ts': "ts' = ts1\<lparr>outside := s2\<rparr>"
    by (auto simp: every_second_eq split: bind_splits if_splits)
  show ?thesis unfolding ts' using run_keeps_trans [OF TickTimers_keeps [OF t assms(2)] background_keeps [OF b]] by simp
qed

lemma and_then_cases:
  assumes "and_then m f = Some x"
  obtains a where "m = Some (Running a)" "f a = Some x" | k s where "m = Some (Exited k s)" "x = Exited k s"
  | s where "m = Some (Replaced s)" "x = Replaced s" | e s where "m = Some (Uncaught e s)" "x = Uncaught e s"
  using assms by (cases "(m, f)" rule: and_then.cases) auto

lemma and_then_Running: "and_then m f = Some (Running b) \<longleftrightarrow> (\<exists>a. m = Some (Running a) \<and> f a = Some (Running b))"
  by (cases "(m, f)" rule: and_then.cases) auto

text \<open>What holds of the server from one round to the next.\<close>

definition round_keeps :: "server \<Rightarrow> server \<Rightarrow> bool" where
  "round_keeps s s' \<longleftrightarrow> (server_ok s \<longrightarrow> server_ok s') \<and> Config s' = Config s \<and> (ShuttingDown s \<longrightarrow> ShuttingDown s')"

lemma round_keeps_run: "run_keeps s s' \<Longrightarrow> round_keeps s s'"
  using server_ok_keeps [of s s'] by (simp add: round_keeps_def run_keeps_def)

lemma round_keeps_trans: "round_keeps s s' \<Longrightarrow> round_keeps s' s'' \<Longrightarrow> round_keeps s s''"
  by (simp add: round_keeps_def)

lemma CullList_Apply_keeps:
  assumes "CullList_Apply s = Some (n, s')"
  shows "round_keeps s s' \<and> (server_ok s \<longrightarrow> culls s' = [])"
proof -
  from assms have c: "cull_loop s = Some s'" by (auto simp: CullList_Apply_def)
  have "run_keeps s s' \<and> (life_inv s \<longrightarrow> culls s' = [])"
    using cull_loop_frame [OF c] cull_loop_result [OF c] by (simp add: run_keeps_def)
  then show ?thesis using round_keeps_run by (auto simp: server_ok_def)
qed

lemma GracefulShutdown_keeps:
  assumes "GracefulShutdown s = Some s'"
  shows "round_keeps s s' \<and> culls s' = culls s \<and> ShuttingDown s' \<and> (\<forall>p\<in>set (ports (Config s')). listeners s' p = None)"
proof -
  from assms obtain s1 where d: "delete_ports (ports (Config s)) s = Some s1" and s': "s' = s1\<lparr>ShuttingDown := True\<rparr>"
    by (auto simp: GracefulShutdown_def split: bind_splits)
  have same: "life_same s s1" using delete_ports_result [OF d] by simp
  have "life_inv s' = life_inv s1" by (simp add: s' life_inv_def)
  with life_same_inv [OF same] delete_ports_result [OF d] show ?thesis
    by (simp add: s' round_keeps_def server_ok_def life_same_def)
qed

lemma SignalHandler_keeps:
  assumes "SignalHandler ver sig s = Some (Running s')"
  shows "round_keeps s s' \<and> culls s' = culls s"
proof (cases "sig = SIGHUP")
  case True
  with assms have "GracefulShutdown s = Some s'" by (auto simp: SignalHandler_def)
  from GracefulShutdown_keeps [OF this] show ?thesis by blast
next
  case False
  with assms have "s' = s" by (auto simp: SignalHandler_def split: if_splits)
  then show ?thesis by (simp add: round_keeps_def)
qed

lemma SetSignal_keeps: "round_keeps s (SetSignal g s)" "culls (SetSignal g s) = culls s"
  by (rule round_keeps_run [OF run_keeps_update(2)]) (simp add: SetSignal_def)

lemma after_events_keeps:
  assumes "after_events ver sig s = Some (Running s')"
  shows "round_keeps s s' \<and> (server_ok s \<longrightarrow> culls s' = [])"
proof -
  from assms obtain s4 n s5 where d: "DispatchEvents s = Some s4" and c: "CullList_Apply s4 = Some (n, s5)"
    by (auto simp: after_events_def split: bind_splits)
  define s6 where "s6 = (case sig of None \<Rightarrow> s5 | Some g \<Rightarrow> SetSignal g s5)"
  have 4: "round_keeps s s4" by (rule round_keeps_run [OF Dispatch_keeps [OF d]])
  have 6: "round_keeps s5 s6" "culls s6 = culls s5"
    using SetSignal_keeps by (auto simp: s6_def round_keeps_def split: option.split)
  have 7: "round_keeps s6 s' \<and> culls s' = culls s6"
  proof (cases "s_signal s6 = 0")
    case True
    with assms d c have "s' = s6" by (simp add: after_events_def s6_def Let_def)
    then show ?thesis by (simp add: round_keeps_def)
  next
    case False
    with assms d c have "and_then (SignalHandler ver (s_signal s6) s6) (\<lambda>s7. Some (Running (SetSignal 0 s7))) = Some (Running s')"
      by (simp add: after_events_def s6_def Let_def)
    then obtain s7 where h: "SignalHandler ver (s_signal s6) s6 = Some (Running s7)" and s': "s' = SetSignal 0 s7"
      by (auto simp: and_then_Running)
    from SignalHandler_keeps [OF h] SetSignal_keeps(1) [of s7 0] SetSignal_keeps(2) [of 0 s7] round_keeps_trans [of s6 s7 s'] show ?thesis by (simp add: s')
  qed
  note 5 = CullList_Apply_keeps [OF c]
  have "round_keeps s s'" using 4 5 6(1) 7 round_keeps_trans by blast
  moreover have "server_ok s \<longrightarrow> culls s' = []" using 4 5 6(2) 7 by (simp add: round_keeps_def)
  ultimately show ?thesis by blast
qed

text \<open>The first half of a round, up to the events.\<close>

lemma run_once_split:
  assumes "run_once ver tick srt sig (n, ts) = Some x" and "tick_keeps tick"
  obtains s1 where "run_keeps (outside ts) s1" "ShuttingDown s1" "local_connections s1 = []" "Exit ver 0 s1 = Some x"
  | n' ts3 where "run_keeps (outside ts) (outside ts3)"
      "and_then (after_events ver sig (outside ts3)) (\<lambda>s7. Some (Running (n', ts3\<lparr>outside := s7\<rparr>))) = Some x"
proof -
  obtain t s0 where call: "syscall Sys_time (outside ts) = (t, s0)" by fastforce
  define s1 where "s1 = s0\<lparr>OLDTIME := TIME s0, TIME := r_ret t\<rparr>"
  from assms(1) call obtain n' s2 where sw: "sweep (n + 1) s1 = Some (n', s2)"
    and r: "and_then (if TIME s2 \<noteq> OLDTIME s2 then every_second ver tick srt (ts\<lparr>outside := s2\<rparr>) else Some (Running (ts\<lparr>outside := s2\<rparr>))) (\<lambda>ts3.
           and_then (after_events ver sig (outside ts3)) (\<lambda>s7. Some (Running (n', ts3\<lparr>outside := s7\<rparr>)))) = Some x"
    unfolding run_once_def Let_def by (auto simp: s1_def split: bind_splits)
  have "run_keeps s1 s2" using sw by (auto simp: sweep_def timeout_connections_def split: if_splits intro: timeout_loop_keeps)
  then have k2: "run_keeps (outside ts) s2"
    using run_keeps_trans [OF run_keeps_syscall' [OF call] run_keeps_update(1)] run_keeps_trans unfolding s1_def by blast
  show ?thesis
  proof (cases "TIME s2 = OLDTIME s2")
    case True
    with r have "and_then (after_events ver sig s2) (\<lambda>s7. Some (Running (n', ts\<lparr>outside := s7\<rparr>))) = Some x" by simp
    with k2 show ?thesis by (intro that(2) [of "ts\<lparr>outside := s2\<rparr>" n']) simp_all
  next
    case False
    show ?thesis
    proof (cases "ShuttingDown s2 \<and> local_connections s2 = []")
      case True
      with r False have "and_then (Exit ver 0 s2) (\<lambda>ts3.
           and_then (after_events ver sig (outside ts3)) (\<lambda>s7. Some (Running (n', ts3\<lparr>outside := s7\<rparr>)))) = Some x"
        by (simp add: every_second_eq)
      then have "Exit ver 0 s2 = Some x" by (auto simp: Exit_def split: bind_splits)
      with True k2 show ?thesis by (intro that(1)) auto
    next
      case go: False
      then have "\<exists>ts3. every_second ver tick srt (ts\<lparr>outside := s2\<rparr>) = Some (Running ts3)"
        using r False by (auto simp: every_second_eq split: bind_splits if_splits)
      then obtain ts3 where e: "every_second ver tick srt (ts\<lparr>outside := s2\<rparr>) = Some (Running ts3)" by blast
      have "run_keeps (outside ts) (outside ts3)" using run_keeps_trans [OF k2] every_second_keeps [OF e assms(2)] by simp
      moreover have "and_then (after_events ver sig (outside ts3)) (\<lambda>s7. Some (Running (n', ts3\<lparr>outside := s7\<rparr>))) = Some x"
        using r e False by simp
      ultimately show ?thesis by (rule that(2))
    qed
  qed
qed

section \<open>What the loop keeps\<close>

lemma run_once_keeps:
  assumes "run_once ver tick srt sig st = Some (Running st')" and "tick_keeps tick"
  shows "round_keeps (outside (snd st)) (outside (snd st')) \<and> (server_ok (outside (snd st)) \<longrightarrow> culls (outside (snd st')) = [])"
proof -
  obtain n ts where st: "st = (n, ts)" by (cases st)
  show ?thesis
  proof (rule run_once_split [OF assms [unfolded st]])
    fix n' ts3
    assume k: "run_keeps (outside ts) (outside ts3)"
      and a: "and_then (after_events ver sig (outside ts3)) (\<lambda>s7. Some (Running (n', ts3\<lparr>outside := s7\<rparr>))) = Some (Running st')"
    then obtain s7 where e: "after_events ver sig (outside ts3) = Some (Running s7)" and st': "st' = (n', ts3\<lparr>outside := s7\<rparr>)"
      by (auto simp: and_then_Running)
    note 3 = round_keeps_run [OF k] and 7 = after_events_keeps [OF e]
    then have "round_keeps (outside ts) s7" using round_keeps_trans by blast
    moreover have "server_ok (outside ts) \<longrightarrow> culls s7 = []" using 3 7 by (simp add: round_keeps_def)
    ultimately show ?thesis by (simp add: st st')
  qed simp
qed

text \<open>Claim C38: however long the main loop runs, whatever the kernel reports and whatever signals arrive, between two
  rounds the list of connections names exactly the connections in memory, each once, none of them is
  quitting, the cull list is empty and, as long as no graceful shutdown was asked for, every listener
  of the configuration is alive and no two have the same name.\<close>

theorem main_loop_invariant:
  assumes "reached ver tick srt st st'" and "tick_keeps tick"
    and "server_ok (outside (snd st))" and "culls (outside (snd st)) = []"
  shows "(let s = outside (snd st') in
     distinct (local_connections s) \<and> set (local_connections s) = dom (conns s) \<and> culls s = [] \<and>
     (\<forall>c\<in>ran (conns s). \<not> quitting c) \<and> Config s = Config (outside (snd st)) \<and> (ShuttingDown s \<or> ports_ok s))"
proof -
  have "server_ok (outside (snd st')) \<and> culls (outside (snd st')) = [] \<and> Config (outside (snd st')) = Config (outside (snd st))"
    using assms(1)
  proof induction
    case (round st1 sig st2)
    with run_once_keeps [OF round.hyps(2) assms(2)] show ?case by (auto simp: round_keeps_def)
  qed (use assms in simp)
  then show ?thesis
    by (auto simp: server_ok_def life_inv_def Let_def ran_def split: if_splits)
qed

section \<open>After a graceful shutdown\<close>

definition dangling :: "server \<Rightarrow> bool" where
  "dangling s \<longleftrightarrow> ShuttingDown s \<and> ports (Config s) \<noteq> [] \<and> (\<forall>p\<in>set (ports (Config s)). listeners s p = None)"

lemma dangling_delete: "dangling s \<Longrightarrow> delete_ports (ports (Config s)) s = None"
  by (rule delete_ports_gone [of "hd (ports (Config s))"]) (simp_all add: dangling_def)

lemma dangling_ends:
  assumes "dangling s"
  shows "Exit ver k s = None" "GracefulShutdown s = None"
  using dangling_delete [OF assms] by (simp_all add: Exit_def Cleanup_def GracefulShutdown_def)

lemma dangling_keeps: "run_keeps s s' \<Longrightarrow> dangling s \<Longrightarrow> dangling s'"
  by (simp add: dangling_def run_keeps_def)

lemma dangling_signal [simp]: "dangling (SetSignal g s) = dangling s"
  by (simp add: dangling_def SetSignal_def)

lemma dangling_after_events:
  assumes "after_events ver sig s = Some x" and "dangling s"
  shows "\<exists>s'. x = Running s' \<and> dangling s'"
proof -
  from assms obtain s4 n s5 where d: "DispatchEvents s = Some s4" and c: "CullList_Apply s4 = Some (n, s5)"
    by (auto simp: after_events_def split: bind_splits)
  define s6 where "s6 = (case sig of None \<Rightarrow> s5 | Some g \<Rightarrow> SetSignal g s5)"
  have "cull_loop s4 = Some s5" using c by (auto simp: CullList_Apply_def)
  from cull_loop_frame [OF this] dangling_keeps [OF Dispatch_keeps [OF d] assms(2)] have "dangling s5" by (simp add: dangling_def)
  then have 6: "dangling s6" by (simp add: s6_def split: option.split)
  have "x = (if s_signal s6 \<noteq> 0 then Running (SetSignal 0 s6) else Running s6)"
    using assms(1) d c
    by (auto simp: after_events_def s6_def [symmetric] SignalHandler_def Let_def dangling_ends [OF 6] split: if_splits)
  with 6 show ?thesis by simp
qed

lemma dangling_round:
  assumes "run_once ver tick srt sig st = Some x" and "tick_keeps tick" and "dangling (outside (snd st))"
  shows "\<exists>st'. x = Running st' \<and> dangling (outside (snd st'))"
proof -
  obtain n ts where st: "st = (n, ts)" by (cases st)
  have d: "dangling (outside ts)" using assms(3) by (simp add: st)
  show ?thesis
  proof (rule run_once_split [OF assms(1) [unfolded st] assms(2)])
    fix s1 assume "run_keeps (outside ts) s1" "Exit ver 0 s1 = Some x"
    then show ?thesis by (simp add: dangling_ends(1) [OF dangling_keeps [OF _ d]])
  next
    fix n' ts3
    assume k: "run_keeps (outside ts) (outside ts3)"
      and a: "and_then (after_events ver sig (outside ts3)) (\<lambda>s7. Some (Running (n', ts3\<lparr>outside := s7\<rparr>))) = Some x"
    obtain y where y: "after_events ver sig (outside ts3) = Some y" using a by (cases "after_events ver sig (outside ts3)") auto
    from dangling_after_events [OF this dangling_keeps [OF k d]] obtain s7 where "y = Running s7" "dangling s7" by blast
    with a y show ?thesis by auto
  qed
qed

lemma Run_dangling:
  assumes "tick_keeps tick" and "dangling (outside (snd st))"
  shows "Run ver tick srt sigs st = None"
proof (rule ccontr)
  assume "Run ver tick srt sigs st \<noteq> None"
  then obtain r where ret: "Run ver tick srt sigs st = Some r" by blast
  have "tick_keeps tick \<and> dangling (outside (snd st)) \<longrightarrow> False"
  proof (rule Run.raw_induct [where P = "\<lambda>ver tick srt sigs st r. tick_keeps tick \<and> dangling (outside (snd st)) \<longrightarrow> False", OF _ ret])
    fix f :: "(hmodule \<Rightarrow> module_version) \<Rightarrow> ticker \<Rightarrow> sorter \<Rightarrow> (nat \<Rightarrow> int option) \<Rightarrow> run_state \<Rightarrow> unit outcome option"
      and ver tick srt sigs st r
    assume IH: "\<And>ver tick srt sigs st r. f ver tick srt sigs st = Some r \<Longrightarrow> tick_keeps tick \<and> dangling (outside (snd st)) \<longrightarrow> False"
      and e: "do {
          o1 \<leftarrow> run_once ver tick srt (sigs 0) st;
          (case o1 of
             Running st' \<Rightarrow> f ver tick srt (\<lambda>k. sigs (Suc k)) st'
           | Exited k s \<Rightarrow> Some (Exited k s)
           | Replaced s \<Rightarrow> Some (Replaced s)
           | Uncaught e s \<Rightarrow> Some (Uncaught e s))
        } = Some r"
    show "tick_keeps tick \<and> dangling (outside (snd st)) \<longrightarrow> False"
    proof
      assume a: "tick_keeps tick \<and> dangling (outside (snd st))"
      from e obtain x where x: "run_once ver tick srt (sigs 0) st = Some x" by (auto split: bind_splits)
      with a dangling_round obtain st' where "x = Running st'" "dangling (outside (snd st'))" by blast
      with e x IH a show False by auto
    qed
  qed
  with assms show False by blast
qed

text \<open>Claim C39: a graceful shutdown never ends properly. Once \<open>SIGHUP\<close> has closed the listeners, of which there was at
  least one, their pointers stay in the configuration, and the daemon can neither exit by itself nor
  by \<open>SIGTERM\<close> nor stand another \<open>SIGHUP\<close>: each deletes them again. The main loop never returns from there.\<close>

theorem shutdown_never_exits:
  assumes "GracefulShutdown s = Some s'" and "ports (Config s) \<noteq> []" and "tick_keeps tick"
  shows "Exit ver k s' = None \<and> GracefulShutdown s' = None \<and> Run ver tick srt sigs (n, ts\<lparr>outside := s'\<rparr>) = None"
proof -
  have "dangling s'" using GracefulShutdown_keeps [OF assms(1)] assms(2) by (simp add: dangling_def round_keeps_def)
  with Run_dangling [of tick "(n, ts\<lparr>outside := s'\<rparr>)"] assms(3) show ?thesis by (simp add: dangling_ends)
qed

text \<open>A daemon with one listener and no timers, in the first round of which \<open>SIGHUP\<close> arrives.\<close>

definition no_timers :: "server \<Rightarrow> server timer_state" where
  "no_timers s = \<lparr>Timers = [], timer_at = (\<lambda>_. None), outside = s\<rparr>"

definition no_tick :: ticker where
  "no_tick t now ts = None"

lemma no_tick_keeps: "tick_keeps no_tick"
  by (simp add: tick_keeps_def no_tick_def)

lemma ports_demo_server_ok: "server_ok ports_demo" "culls ports_demo = []"
  using ports_demo_ok by (simp_all add: server_ok_def ports_demo_def fs_demo_def)

lemma TickTimers_Nil: "Timers ts = [] \<Longrightarrow> TickTimers tick srt now ts = Some ts"
  by (subst TickTimers.simps) simp

lemma cull_loop_Nil: "culls s = [] \<Longrightarrow> cull_loop s = Some s"
  by (subst cull_loop.simps) simp

lemma ports_demo_round:
  "\<exists>s'. run_once ver no_tick insertion_sort (Some SIGHUP) (1, no_timers ports_demo) = Some (Running (2, no_timers s')) \<and>
     ShuttingDown s'"
proof -
  obtain t s0 where call: "syscall Sys_time ports_demo = (t, s0)" by fastforce
  then have t: "r_ret t = 0" "TIME s0 = 1000" "s0 = snd (syscall Sys_time ports_demo)"
    by (auto simp: syscall_def ports_demo_def fs_demo_def quiet_kernel_def Let_def)
  define s1 where "s1 = s0\<lparr>OLDTIME := 1000, TIME := 0\<rparr>"
  define s2 where "s2 = snd (syscall (Sys_epoll_wait 64) s1)"
  have s2: "SE s2 = SE ports_demo" "listeners s2 = listeners ports_demo" "Config s2 = Config ports_demo" "world s2 = world ports_demo"
    by (simp_all add: s2_def s1_def t(3) ports_demo_def fs_demo_def syscall_def Let_def)
  have e: "every_second ver no_tick insertion_sort (no_timers s1) = Some (Running (no_timers s1))"
    by (simp add: every_second_eq no_timers_def TickTimers_Nil background_def s1_def t(3) ports_demo_def fs_demo_def
        syscall_def Let_def ModuleManager_new_def)
  have d: "DispatchEvents s1 = Some s2"
    by (simp add: DispatchEvents_def epoll_Dispatch_def s2_def s1_def t(3) ports_demo_def fs_demo_def engine_new_def quiet_kernel_def
        syscall_def Let_def)
  have c: "cull_loop s2 = Some s2" by (rule cull_loop_Nil) (simp add: s2_def s1_def t(3) ports_demo_def fs_demo_def syscall_def Let_def)
  obtain s3 where del: "delete_ports [9] (SetSignal SIGHUP s2) = Some s3"
    by (auto simp: ListenSocket_delete_def DelFd_def epoll_DelFd_def set_ref_def s2 SetSignal_def ports_demo_def fs_demo_def
        engine_new_def syscall_def quiet_kernel_def SE_Shutdown_def SE_Close_def Let_def)
  have g: "GracefulShutdown (SetSignal SIGHUP s2) = Some (s3\<lparr>ShuttingDown := True\<rparr>)"
  proof -
    have "ports (Config (SetSignal SIGHUP s2)) = [9]" by (simp add: SetSignal_def s2 ports_demo_def)
    with del show ?thesis by (simp add: GracefulShutdown_def)
  qed
  have a: "after_events ver (Some SIGHUP) s1 = Some (Running (SetSignal 0 (s3\<lparr>ShuttingDown := True\<rparr>)))"
    by (simp add: after_events_def d CullList_Apply_def c Let_def SignalHandler_def g)
      (simp add: SetSignal_def SIGHUP_def)
  have "run_once ver no_tick insertion_sort (Some SIGHUP) (1, no_timers ports_demo) =
      Some (Running (2, no_timers (SetSignal 0 (s3\<lparr>ShuttingDown := True\<rparr>))))"
  proof -
    have u: "(no_timers s)\<lparr>outside := s'\<rparr> = no_timers s'" "outside (no_timers s) = s" for s s' by (simp_all add: no_timers_def)
    have "sweep 2 s1 = Some (2, s1)" by (simp add: sweep_def s1_def t(3) ports_demo_def fs_demo_def syscall_def Let_def)
    moreover have "TIME s1 \<noteq> OLDTIME s1" by (simp add: s1_def)
    ultimately show ?thesis by (simp add: run_once_def u call t(1,2) s1_def [symmetric] e a)
  qed
  then show ?thesis by (auto simp: SetSignal_def)
qed

theorem main_loop_invariant_witness:
  "\<exists>s'. reached (\<lambda>_. \<lparr>v_flags = 2, v_api = 0\<rparr>) no_tick insertion_sort (1, no_timers ports_demo) (2, no_timers s') \<and>
     ShuttingDown s' \<and> ports (Config s') = [9] \<and> culls s' = []"
proof -
  obtain s' where r: "run_once (\<lambda>_. \<lparr>v_flags = 2, v_api = 0\<rparr>) no_tick insertion_sort (Some SIGHUP) (1, no_timers ports_demo) =
      Some (Running (2, no_timers s'))" and d: "ShuttingDown s'" using ports_demo_round by blast
  have q: "reached (\<lambda>_. \<lparr>v_flags = 2, v_api = 0\<rparr>) no_tick insertion_sort (1, no_timers ports_demo) (2, no_timers s')"
    by (rule reached.round [OF reached.start r])
  from main_loop_invariant [OF q no_tick_keeps] ports_demo_server_ok d q show ?thesis
    by (auto simp: no_timers_def Let_def ports_demo_def intro!: exI [of _ s'])
qed

theorem shutdown_never_exits_witness:
  "\<exists>s'. GracefulShutdown ports_demo = Some s' \<and> Exit (\<lambda>_. \<lparr>v_flags = 2, v_api = 0\<rparr>) 15 s' = (None :: unit outcome option) \<and>
     Run (\<lambda>_. \<lparr>v_flags = 2, v_api = 0\<rparr>) no_tick insertion_sort (\<lambda>_. None) (1, no_timers s') = None"
proof -
  have "\<exists>s'. delete_ports [9] ports_demo = Some s'"
    by (simp add: ListenSocket_delete_def DelFd_def epoll_DelFd_def set_ref_def ports_demo_def fs_demo_def
        engine_new_def syscall_def quiet_kernel_def SE_Shutdown_def SE_Close_def Let_def)
  then obtain s1 where d: "delete_ports [9] ports_demo = Some s1" by blast
  have p: "ports (Config ports_demo) = [9]" by (simp add: ports_demo_def)
  have g: "GracefulShutdown ports_demo = Some (s1\<lparr>ShuttingDown := True\<rparr>)" by (simp add: GracefulShutdown_def p d del: delete_ports.simps)
  have "ports (Config ports_demo) \<noteq> []" by (simp add: p)
  note r = shutdown_never_exits [OF g this no_tick_keeps]
  have "Exit (\<lambda>_. \<lparr>v_flags = 2, v_api = 0\<rparr>) 15 (s1\<lparr>ShuttingDown := True\<rparr>) = (None :: unit outcome option)"
    by (rule r [THEN conjunct1])
  moreover have "Run (\<lambda>_. \<lparr>v_flags = 2, v_api = 0\<rparr>) no_tick insertion_sort (\<lambda>_. None)
      (1, (no_timers ports_demo)\<lparr>outside := s1\<lparr>ShuttingDown := True\<rparr>\<rparr>) = None" using r by blast
  ultimately show ?thesis using g by (auto simp: no_timers_def intro!: exI [of _ "s1\<lparr>ShuttingDown := True\<rparr>"])
qed

end
