(* ===== verification/Loading.thy ===== *)
theory Loading
  imports MainLoop ConfigRead
begin

text \<open>
  What the daemon does with its configuration: the modules of the sources and their constructors
  (\<open>src/modules/\<close>), \<open>ModuleManager::LoadAll\<close> on the whole server, and \<open>ServerConfig::Read\<close> from end to end
  (\<open>src/configreader.cpp\<close>), with the log file (\<open>src/helperfuncs.cpp\<close>).
\<close>

section \<open>The log\<close>

text \<open>\<open>OpenLog\<close>; the name is empty unless it was given on the command line.\<close>

definition OpenLog :: "string \<Rightarrow> server \<Rightarrow> bool \<times> server" where
  "OpenLog LogFileName s =
     (case GetFullProgDir (hd (prog_argv (Config s))) s of (d, s1) \<Rightarrow>
        let s2 = upd_config (\<lambda>c. c\<lparr>MyDir := d\<rparr>) s1;
            s3 = (if LogFileName = [] \<and> logpath (Config s2) = [] then upd_config (\<lambda>c. c\<lparr>logpath := d @ ''/httpd.log''\<rparr>) s2 else s2);
            path = (if LogFileName = [] then logpath (Config s3) else LogFileName)
        in (case syscall (Sys_fopen (c_str path) ''a+'') s3 of (r, s4) \<Rightarrow>
              if r_ret r < 0 then (False, (upd_config (\<lambda>c. c\<lparr>log_file := False\<rparr>) s4)\<lparr>LogFile := None\<rparr>)
              else (case FileLogger_new (Some (r_ret r)) (upd_config (\<lambda>c. c\<lparr>log_file := True\<rparr>) s4) of
                      (g, s5) \<Rightarrow> (True, s5\<lparr>LogFile := Some g\<rparr>))))"

fun level_number :: "log_level \<Rightarrow> int" where
  "level_number DEBUG = 10"
| "level_number VERBOSE = 20"
| "level_number DEFAULT = 30"
| "level_number SPARSE = 40"
| "level_number NONE = 50"

text \<open>The static variables \<open>TIMESTR\<close> and \<open>LAST\<close>; \<open>clock\<close> is \<open>asctime(localtime(t))\<close>, which depends on the time
  zone and has 25 characters. The level is a number, as the callers may give any.\<close>

record log_clock =
  TIMESTR :: string
  LAST :: int

definition Log :: "(int \<Rightarrow> string) \<Rightarrow> int \<Rightarrow> string \<Rightarrow> log_clock \<times> server \<Rightarrow> (log_clock \<times> server) option" where
  "Log clock level line st = (case st of (k, s) \<Rightarrow>
     (case LogFile s of
        None \<Rightarrow> Some (k, s)
      | Some g \<Rightarrow>
          if level < level_number (LogLevel (Config s)) \<and> \<not> forcedebug (Config s) then Some (k, s)
          else
            let k1 = (if TIME s \<noteq> LAST k then \<lparr>TIMESTR = take 24 (clock (TIME s)) @ '':'', LAST = TIME s\<rparr> else k) in do {
              s1 \<leftarrow> (if log_file (Config s) \<and> writelog (Config s) then do {
                       (g', s1) \<leftarrow> WriteLogLine (TIMESTR k1 @ '' '' @ c_str line @ [LF]) (g, s);
                       Some (s1\<lparr>LogFile := Some g'\<rparr>)
                     } else Some s);
              Some (k1, if nofork (Config s1) then snd (syscall (Sys_write 1 (TIMESTR k1 @ '' '' @ c_str line @ [LF])) s1) else s1)
            }))"

section \<open>The modules of the sources\<close>

text \<open>The events that the constructors attach to. The base class attaches to none.\<close>

fun module_hooks :: "hmodule \<Rightarrow> hook list" where
  "module_hooks M_CGI = [I_OnPreRequest, I_OnBufferFlushed, I_OnConnectionDisconnect]"
| "module_hooks M_Test = [I_OnConnectionConnect, I_OnConnectionDisconnect, I_OnPreRequest]"
| "module_hooks (M_Base n) = []"

text \<open>\<open>GetVersion\<close>; the version of the base class has the wrong interface.\<close>

definition GetVersion :: "int \<Rightarrow> hmodule \<Rightarrow> module_version" where
  "GetVersion api md = (case md of M_Base n \<Rightarrow> \<lparr>v_flags = VF_VENDOR, v_api = - 1\<rparr> | _ \<Rightarrow> \<lparr>v_flags = VF_VENDOR, v_api = api\<rparr>)"

text \<open>What the dynamic linker finds in a file is the parameter \<open>dl\<close>.\<close>

definition init_module :: "(string \<Rightarrow> hmodule init_result) \<Rightarrow> string \<Rightarrow> hmodule module_manager \<Rightarrow>
  hmodule init_result \<times> hmodule module_manager"
where
  "init_module dl f mm = (case dl f of I_Module md \<Rightarrow> (I_Module md, AttachAll (module_hooks md) md mm) | e \<Rightarrow> (e, mm))"

text \<open>The constructor of \<open>ModuleCGI\<close> reads the sections \<open>cgi\<close>, from the \<open>i\<close>-th on.\<close>

fun read_cgi_types :: "nat \<Rightarrow> nat \<Rightarrow> (string \<times> string) list \<Rightarrow> config_reader \<times> server \<Rightarrow> (string \<times> string) list \<times> config_reader \<times> server" where
  "read_cgi_types i 0 types st = (types, st)"
| "read_cgi_types i (Suc n) types st =
     (case ReadValue ''cgi'' ''extension'' [] i False st of
        (extension, st1) \<Rightarrow>
          (case ReadValue ''cgi'' ''executable'' [] i False st1 of
             (executable, st2) \<Rightarrow> read_cgi_types (i + 1) n (om_insert str_less extension executable types) st2))"

definition ModuleCGI_new :: "bool \<Rightarrow> server \<Rightarrow> server" where
  "ModuleCGI_new mem s =
     (let st = (ConfigReader_new mem, s) in
      case read_cgi_types 0 (Enumerate ''cgi'' st) [] st of (types, _, s1) \<Rightarrow> s1\<lparr>CGITypes := types, CGIRequests := []\<rparr>)"

text \<open>\<open>Load\<close> with the side effects of that constructor on the rest of the server. Only a module that was not
  there before has been constructed.\<close>

definition has_cgi :: "server \<Rightarrow> bool" where
  "has_cgi s \<longleftrightarrow> M_CGI \<in> snd ` set (Modules (ModMgr s))"

definition load_module :: "nat \<Rightarrow> hmodule loader \<Rightarrow> bool \<Rightarrow> string \<Rightarrow> server \<Rightarrow> (bool \<times> server) option" where
  "load_module k ld mem fname s = do {
     (ok, mm) \<leftarrow> Load k ld fname (ModMgr s);
     let s1 = s\<lparr>ModMgr := mm\<rparr>;
     Some (ok, if has_cgi s1 \<and> \<not> has_cgi s then ModuleCGI_new mem s1 else s1)
   }"

text \<open>\<open>LoadAll\<close>: the sections \<open>module\<close> from the \<open>i\<close>-th on.\<close>

definition EXIT_STATUS_MODULE :: int where "EXIT_STATUS_MODULE = 13"

fun load_sections :: "nat \<Rightarrow> hmodule loader \<Rightarrow> bool \<Rightarrow> nat \<Rightarrow> nat \<Rightarrow> nat \<Rightarrow> server \<Rightarrow> server outcome option" where
  "load_sections k ld mem maxbuf i 0 s = Some (Running s)"
| "load_sections k ld mem maxbuf i (Suc n) s =
     (case ConfValue_buf maxbuf (config_data (Config s)) ''module'' ''name'' [] i False of
        (_, configToken, t) \<Rightarrow> do {
          (ok, s1) \<leftarrow> load_module k ld mem configToken (upd_config (\<lambda>c. c\<lparr>config_data := t\<rparr>) s);
          if ok then load_sections k ld mem maxbuf (i + 1) n s1 else Exit (version_of ld) EXIT_STATUS_MODULE s1
        })"

definition load_all :: "nat \<Rightarrow> hmodule loader \<Rightarrow> bool \<Rightarrow> nat \<Rightarrow> server \<Rightarrow> server outcome option" where
  "load_all k ld mem maxbuf s =
     load_sections k ld mem maxbuf 0 (ConfValueEnum (config_data (Config s)) ''module'')
       (s\<lparr>ModMgr := (ModMgr s)\<lparr>ModCount := - 1\<rparr>\<rparr>)"

section \<open>\<open>ServerConfig::Read\<close>\<close>

definition EXIT_STATUS_CONFIG :: int where "EXIT_STATUS_CONFIG = 4"

definition ReportConfigError :: "(hmodule \<Rightarrow> module_version) \<Rightarrow> string \<Rightarrow> bool \<Rightarrow> server \<Rightarrow> server outcome option" where
  "ReportConfigError ver errormessage bail s = (if bail then Exit ver EXIT_STATUS_CONFIG s else Some (Running s))"

text \<open>\<open>WritePID\<close> with the exit that it may end in.\<close>

definition write_pid :: "(hmodule \<Rightarrow> module_version) \<Rightarrow> server \<Rightarrow> server outcome option" where
  "write_pid ver s =
     (case WritePID ConvNumeric (ConfigFileName s) (PID (Config s)) s of
        Inl status \<Rightarrow> Exit ver status (snd (syscall (Sys_fopen (c_str (pid_path (ConfigFileName s) (PID (Config s)))) ''w'') s))
      | Inr s1 \<Rightarrow> Some (Running s1))"

fun load_added :: "nat \<Rightarrow> hmodule loader \<Rightarrow> bool \<Rightarrow> bool \<Rightarrow> string list \<Rightarrow> server \<Rightarrow> server outcome option" where
  "load_added k ld mem bail [] s = Some (Running s)"
| "load_added k ld mem bail (f # fs) s =
     (if Module_Find f (ModMgr s) \<noteq> None then load_added k ld mem bail fs s
      else do {
        (ok, s1) \<leftarrow> load_module k ld mem f s;
        if \<not> ok \<and> bail then Exit (version_of ld) EXIT_STATUS_MODULE s1 else load_added k ld mem bail fs s1
      })"

text \<open>The whole function. The exception of \<open>CheckOnce\<close> is thrown outside the \<open>try\<close> block. The build, the loader
  and what the memory held are parameters; \<open>bail\<close> is set when the daemon starts.\<close>

definition Read :: "build \<Rightarrow> pton \<Rightarrow> nat \<Rightarrow> hmodule loader \<Rightarrow> bool \<Rightarrow> bool \<Rightarrow> server \<Rightarrow> server outcome option" where
  "Read b inet_pton k ld mem bail s =
     (case Read_config b s of
        (Inl e, s1) \<Rightarrow> ReportConfigError (version_of ld) e bail s1
      | (Inr l, s1) \<Rightarrow>
          and_then (load_all k ld mem (b_maxbuf b) s1) (\<lambda>s2.
            (case CheckOnce (config_data (Config s2)) ''server'' of
               Inl e \<Rightarrow> Some (Uncaught e s2)
             | Inr _ \<Rightarrow>
                 and_then (write_pid (version_of ld) s2) (\<lambda>s3. do {
                   s4 \<leftarrow> (if bail then Some s3 else map_option snd (BindPorts inet_pton (b_maxbuf b) s3));
                   s5 \<leftarrow> unload_names (version_of ld) (removed_modules l) s4;
                   load_added k ld mem bail (added_modules l) s5
                 }))))"

end
