(* ===== verification/Startup.thy ===== *)
theory Startup
  imports Loading
begin

text \<open>
  How the daemon starts: the constructor \<open>InspIRCd::InspIRCd\<close>, \<open>DaemonSeed\<close>, \<open>SetSignals\<close> and \<open>QuickExit\<close>
  (\<open>src/inspircd.cpp\<close>). \<open>mem\<close> is what the memory of the object held before. \<open>None\<close> is undefined
  behaviour, or a wait that does not end.
\<close>

section \<open>Signals and processes\<close>

definition SetSignals :: "server \<Rightarrow> server" where
  "SetSignals = fold (\<lambda>(sig, h) s. snd (syscall (Sys_signal sig h) s))
     [(14, ''SIG_IGN''), (SIGHUP, ''SetSignal''), (13, ''SIG_IGN''), (17, ''SIG_IGN''), (SIGTERM, ''SetSignal'')]"

text \<open>The status is ignored.\<close>

definition QuickExit :: "int \<Rightarrow> server \<Rightarrow> 'a outcome" where
  "QuickExit status s = Exited 0 (snd (syscall (Sys_exit 0) s))"

text \<open>The parent polls the child once a second.\<close>

partial_function (option) wait_child :: "int \<Rightarrow> server \<Rightarrow> server option" where
  "wait_child childpid s =
     (case syscall (Sys_kill childpid 0) s of (r, s1) \<Rightarrow>
        if r_ret r \<noteq> - 1 then wait_child childpid (snd (syscall (Sys_sleep 1) s1)) else Some s1)"

text \<open>\<open>DaemonSeed\<close>; the result of a run that goes on is the child's.\<close>

definition daemon_child :: "server \<Rightarrow> bool \<times> server" where
  "daemon_child s =
     (let s1 = snd (syscall (Sys_signal SIGTERM ''SetSignal'') (snd (syscall (Sys_umask 7) (snd (syscall Sys_setsid s))))) in
      case syscall Sys_getrlimit s1 of (r, s2) \<Rightarrow>
        if r_ret r = - 1 then (False, s2) else (True, snd (syscall Sys_setrlimit s2)))"

definition DaemonSeed :: "server \<Rightarrow> (bool \<times> server) outcome option" where
  "DaemonSeed s =
     (case syscall Sys_fork (snd (syscall (Sys_signal SIGTERM ''QuickExit'') s)) of (f, s1) \<Rightarrow>
        if r_ret f < 0 then Some (Running (False, s1))
        else if r_ret f > 0 then map_option (\<lambda>s2. Exited 0 (snd (syscall (Sys_exit 0) s2))) (wait_child (r_ret f) s1)
        else Some (Running (daemon_child s1)))"

section \<open>Giving up privileges\<close>

definition drop_chroot :: "server \<Rightarrow> server outcome" where
  "drop_chroot s =
     (if ChRoot (Config s) = [] then Running s
      else (case syscall (Sys_chroot (ChRoot (Config s))) s of (r, s1) \<Rightarrow> if r_ret r = - 1 then QuickExit 0 s1 else Running s1))"

text \<open>\<open>getpwnam\<close> and \<open>getgrnam\<close> reply with the number of the user or group in \<open>r_pair\<close>, or with a null pointer.\<close>

definition drop_user :: "server \<Rightarrow> server outcome" where
  "drop_user s =
     (if SetUser (Config s) = [] then Running s
      else (case syscall (Sys_getpwnam (SetUser (Config s))) (s\<lparr>errno := E_NONE\<rparr>) of (u, s1) \<Rightarrow>
        if r_ret u < 0 then QuickExit 0 s1
        else (case syscall (Sys_setuid (fst (r_pair u))) s1 of (r, s2) \<Rightarrow> if r_ret r = - 1 then QuickExit 0 s2 else Running s2)))"

definition drop_group :: "server \<Rightarrow> server outcome" where
  "drop_group s =
     (if SetGroup (Config s) = [] then Running s
      else (case syscall (Sys_getgrnam (SetGroup (Config s))) (s\<lparr>errno := E_NONE\<rparr>) of (g, s1) \<Rightarrow>
        if r_ret g < 0 then QuickExit 0 s1
        else (case syscall (Sys_setgid (fst (r_pair g))) s1 of (r, s2) \<Rightarrow> if r_ret r = - 1 then QuickExit 0 s2 else Running s2)))"

definition drop_privileges :: "server \<Rightarrow> server outcome option" where
  "drop_privileges s = and_then (Some (drop_chroot s)) (\<lambda>s1. and_then (Some (drop_user s1)) (\<lambda>s2. Some (drop_group s2)))"

section \<open>The command line\<close>

text \<open>The answers of \<open>getopt_long_only\<close>, one after the other.\<close>

datatype option_answer = Opt_logfile string | Opt_config string | Opt_nofork | Opt_debug | Opt_nolog | Opt_runasroot
  | Opt_version | Opt_unknown

record start_options =
  do_version :: bool
  do_nofork :: bool
  do_debug :: bool
  do_nolog :: bool
  do_root :: bool
  LogFileName :: string

fun parse_options :: "(hmodule \<Rightarrow> module_version) \<Rightarrow> nat \<Rightarrow> option_answer list \<Rightarrow> start_options \<times> server \<Rightarrow> (start_options \<times> server) outcome option" where
  "parse_options ver maxbuf [] st = Some (Running st)"
| "parse_options ver maxbuf (a # as) (o1, s) =
     (case a of
        Opt_logfile p \<Rightarrow> parse_options ver maxbuf as (o1\<lparr>LogFileName := take (maxbuf - 1) p\<rparr>, s)
      | Opt_config p \<Rightarrow> parse_options ver maxbuf as (o1, s\<lparr>ConfigFileName := take (maxbuf - 1) p\<rparr>)
      | Opt_nofork \<Rightarrow> parse_options ver maxbuf as (o1\<lparr>do_nofork := True\<rparr>, s)
      | Opt_debug \<Rightarrow> parse_options ver maxbuf as (o1\<lparr>do_debug := True\<rparr>, s)
      | Opt_nolog \<Rightarrow> parse_options ver maxbuf as (o1\<lparr>do_nolog := True\<rparr>, s)
      | Opt_runasroot \<Rightarrow> parse_options ver maxbuf as (o1\<lparr>do_root := True\<rparr>, s)
      | Opt_version \<Rightarrow> parse_options ver maxbuf as (o1\<lparr>do_version := True\<rparr>, s)
      | Opt_unknown \<Rightarrow> Exit ver 7 s)"

section \<open>The constructor\<close>

text \<open>The members, before any of the functions below has run. \<open>LogFile\<close> is not set and keeps what the memory
  held; the heap has no listeners, connections and requests yet.\<close>

definition fresh_server :: "build \<Rightarrow> string list \<Rightarrow> server \<Rightarrow> server" where
  "fresh_server b argv mem =
     mem\<lparr>ShuttingDown := False, s_signal := 0,
       Config := (ServerConfig_new b (MAXCLIENTS mem) (Config mem))\<lparr>config_data := [], ports := [], logpath := [], MyDir := [], prog_argv := argv\<rparr>,
       ModMgr := ModuleManager_new, MimeTypes := builtin_types, StatCache := [], LinkStatCache := [],
       local_connections := [], culls := [], conns := Map.empty, listeners := Map.empty, cgis := Map.empty, next_addr := 1\<rparr>"

text \<open>Opening the log, finding the configuration file and going into the background.\<close>

definition start_files :: "(hmodule \<Rightarrow> module_version) \<Rightarrow> start_options \<Rightarrow> server \<Rightarrow> server outcome option" where
  "start_files ver op s =
     (case OpenLog (LogFileName op) s of (ok, s1) \<Rightarrow>
        if \<not> ok then Exit ver 5 s1
        else (case FileExists (ConfigFileName s1) s1 of (found, s2) \<Rightarrow>
          if \<not> found then Exit ver 4 s2
          else Some (Running (SetSignals (upd_config (\<lambda>c. c\<lparr>nofork := do_nofork op, forcedebug := do_debug op, writelog := \<not> do_nolog op\<rparr>) s2)))))"

definition start_fork :: "(hmodule \<Rightarrow> module_version) \<Rightarrow> server \<Rightarrow> server outcome option" where
  "start_fork ver s =
     and_then (if nofork (Config s) then Some (Running (True, s)) else DaemonSeed s) (\<lambda>(ok, s1).
       if \<not> ok then Exit ver 6 s1
       else (case RecoverFromFork s1 of Inl status \<Rightarrow> Exit ver status s1 | Inr s2 \<Rightarrow> Some (Running s2)))"

text \<open>The ports, and the end of the parent.\<close>

definition start_ports :: "(hmodule \<Rightarrow> module_version) \<Rightarrow> pton \<Rightarrow> nat \<Rightarrow> server \<Rightarrow> server outcome option" where
  "start_ports ver inet_pton maxbuf s = do {
     (bs, s1) \<leftarrow> BindPorts inet_pton maxbuf s;
     if ports (Config s1) = [] \<and> ports_found bs > 0 then Exit ver 8 s1
     else Some (Running
       (if nofork (Config s1) then s1
        else (case syscall Sys_getppid s1 of (p, s2) \<Rightarrow> snd (syscall (Sys_kill (r_ret p) SIGTERM) s2))))
   }"

text \<open>The standard streams are closed when all three of them are terminals.\<close>

definition close_streams :: "bool \<Rightarrow> server \<Rightarrow> server" where
  "close_streams nf s =
     (let tty = (\<lambda>n (all_tty, s). if all_tty then (case syscall (Sys_isatty n) s of (r, s1) \<Rightarrow> (r_ret r \<noteq> 0, s1)) else (False, s)) in
      case fold tty [0, 1, 2] (True, s) of (all_tty, s1) \<Rightarrow>
        if all_tty \<and> \<not> nf then fold (\<lambda>f s. snd (syscall (Sys_fclose f) s)) [''stdin'', ''stderr'', ''stdout''] s1 else s1)"

definition InspIRCd_new :: "build \<Rightarrow> pton \<Rightarrow> nat \<Rightarrow> hmodule loader \<Rightarrow> engine_kind \<Rightarrow> int \<Rightarrow> int \<Rightarrow> string \<Rightarrow> bool \<Rightarrow>
  string list \<Rightarrow> option_answer list \<Rightarrow> server \<Rightarrow> server outcome option"
where
  "InspIRCd_new b inet_pton k ld kind maxd setsize CONFIG_FILE memb argv opts mem =
     (let ver = version_of ld in
      case engine_create kind maxd setsize mem of
        Inl status \<Rightarrow> None
      | Inr mem1 \<Rightarrow>
          (case GetFullProgDir (hd argv) (fresh_server b argv mem1) of (dir, s0) \<Rightarrow>
             (case syscall (Sys_chdir (c_str dir)) s0 of (r, s1) \<Rightarrow>
                if r_ret r \<noteq> 0 then Some (Exited 0 (snd (syscall (Sys_exit 0) s1)))
                else
                  (case syscall Sys_time s1 of (t, s2) \<Rightarrow>
                     let s3 = s2\<lparr>TIME := r_ret t, OLDTIME := r_ret t, ConfigFileName := take (b_maxbuf b - 1) CONFIG_FILE\<rparr>;
                         o0 = \<lparr>do_version = False, do_nofork = False, do_debug = False, do_nolog = False, do_root = False, LogFileName = []\<rparr>
                     in and_then (parse_options ver (b_maxbuf b) opts (o0, s3)) (\<lambda>(op, s4).
                          if do_version op then Exit ver 0 s4
                          else
                            and_then (start_files ver op (upd_config (\<lambda>c. c\<lparr>MyExecutable := take (b_maxbuf b - 1) (hd argv)\<rparr>) s4)) (\<lambda>s5.
                            and_then (start_fork ver s5) (\<lambda>s6.
                            and_then (Read b inet_pton k ld memb True s6) (\<lambda>s7.
                            and_then (start_ports ver inet_pton (b_maxbuf b) s7) (\<lambda>s8.
                            and_then (drop_privileges (close_streams (do_nofork op) s8)) (\<lambda>s9.
                            write_pid ver s9)))))))))) "

end
