(* ===== verification/Priv.thy ===== *)
theory Priv
  imports Startup
begin

text \<open>
  What the start of the daemon comes to when its configuration asks for both a user and a group: the
  order in which \<open>InspIRCd::InspIRCd\<close> (\<open>src/inspircd.cpp\<close>) gives up its privileges.
\<close>

section \<open>A user and a group exclude each other\<close>

text \<open>What \<open>setgid\<close> is documented to do: once the process has become another user than root, it may not take a
  group that is not its own; \<open>g0\<close> is the group it has, as long as it has not called \<open>setgid\<close>.\<close>

definition no_setgid :: "(syscall \<times> reply) list \<Rightarrow> bool" where
  "no_setgid tr \<longleftrightarrow> (\<forall>gid r. (Sys_setgid gid, r) \<notin> set tr)"

lemma no_setgid_append [simp]: "no_setgid (tr @ tr') \<longleftrightarrow> no_setgid tr \<and> no_setgid tr'" "no_setgid []"
  by (auto simp: no_setgid_def)

definition setgid_needs_root :: "((syscall \<times> reply) list \<Rightarrow> syscall \<Rightarrow> reply) \<Rightarrow> int \<Rightarrow> bool" where
  "setgid_needs_root orc g0 \<longleftrightarrow>
     (\<forall>tr uid r gid. no_setgid tr \<and> (Sys_setuid uid, r) \<in> set tr \<and> uid \<noteq> 0 \<and> r_ret r \<noteq> - 1 \<and> gid \<noteq> g0 \<longrightarrow> r_ret (orc tr (Sys_setgid gid)) = - 1)"

lemma syscall_world: "syscall c s = (r, s') \<Longrightarrow> world s' = world s \<and> trace s' = trace s @ [(c, r)] \<and> r = world s (trace s) c"
  by (auto simp: syscall_def Let_def)

lemma drop_chroot_keeps:
  "drop_chroot s = Running s' \<Longrightarrow> Config s' = Config s \<and> world s' = world s \<and> (no_setgid (trace s) \<longrightarrow> no_setgid (trace s'))"
  by (auto simp: drop_chroot_def QuickExit_def srv_io_fields [OF syscall_frame] no_setgid_def dest!: syscall_trace
      split: if_splits prod.splits)

lemma drop_outcomes:
  "(\<exists>s'. drop_chroot s = Running s') \<or> (\<exists>s'. drop_chroot s = Exited 0 s')"
  "(\<exists>s'. drop_user s = Running s') \<or> (\<exists>s'. drop_user s = Exited 0 s')"
  "(\<exists>s'. drop_group s = Running s') \<or> (\<exists>s'. drop_group s = Exited 0 s')"
  by (auto simp: drop_chroot_def drop_user_def drop_group_def QuickExit_def split: prod.split)

lemma drop_user_becomes:
  assumes "drop_user s = Running s'" and "SetUser (Config s) \<noteq> []"
    and "\<forall>tr. fst (r_pair (world s tr (Sys_getpwnam (SetUser (Config s))))) \<noteq> 0"
  shows "Config s' = Config s \<and> world s' = world s \<and> (no_setgid (trace s) \<longrightarrow> no_setgid (trace s')) \<and>
    (\<exists>uid r. (Sys_setuid uid, r) \<in> set (trace s') \<and> uid \<noteq> 0 \<and> r_ret r \<noteq> - 1)"
proof -
  let ?s = "s\<lparr>errno := E_NONE\<rparr>"
  obtain u s1 where 1: "syscall (Sys_getpwnam (SetUser (Config s))) ?s = (u, s1)" by fastforce
  obtain r s2 where 2: "syscall (Sys_setuid (fst (r_pair u))) s1 = (r, s2)" by fastforce
  from assms(1,2) 1 2 have r: "s' = s2" "r_ret r \<noteq> - 1" by (auto simp: drop_user_def QuickExit_def split: if_splits)
  have "fst (r_pair u) \<noteq> 0" using syscall_world [OF 1] assms(3) by simp
  with syscall_world [OF 1] syscall_world [OF 2] r srv_io_fields(1) [OF syscall_frame [OF 1]] srv_io_fields(1) [OF syscall_frame [OF 2]]
  show ?thesis by (auto simp: no_setgid_def)
qed

lemma drop_group_fails:
  assumes "setgid_needs_root (world s) g0" and "SetGroup (Config s) \<noteq> []"
    and "\<forall>tr. fst (r_pair (world s tr (Sys_getgrnam (SetGroup (Config s))))) \<noteq> g0"
    and "no_setgid (trace s)" and "(Sys_setuid uid, q) \<in> set (trace s)" and "uid \<noteq> 0" and "r_ret q \<noteq> - 1"
  shows "\<exists>s'. drop_group s = Exited 0 s'"
proof -
  let ?s = "s\<lparr>errno := E_NONE\<rparr>"
  obtain g s1 where 1: "syscall (Sys_getgrnam (SetGroup (Config s))) ?s = (g, s1)" by fastforce
  obtain r s2 where 2: "syscall (Sys_setgid (fst (r_pair g))) s1 = (r, s2)" by fastforce
  note w = syscall_world [OF 1] syscall_world [OF 2]
  have "fst (r_pair g) \<noteq> g0" using w(1) assms(3) by simp
  moreover have "(Sys_setuid uid, q) \<in> set (trace s1)" "no_setgid (trace s1)" using w(1) assms(4,5) by (auto simp: no_setgid_def)
  ultimately have "r_ret (world s (trace s1) (Sys_setgid (fst (r_pair g)))) = - 1"
    using assms(1,6,7) unfolding setgid_needs_root_def by blast
  then have "r_ret r = - 1" using w by simp
  with assms(2) 1 2 show ?thesis by (simp add: drop_group_def QuickExit_def)
qed


text \<open>A kernel that knows the user 33 and the group 33 and follows the rule, for a process of group 0.\<close>

definition strict_kernel :: "(syscall \<times> reply) list \<Rightarrow> syscall \<Rightarrow> reply" where
  "strict_kernel tr c =
     (quiet_kernel tr c)\<lparr>r_pair := (33, 0),
        r_ret := (case c of Sys_setgid g \<Rightarrow> if g \<noteq> 0 \<and> (\<exists>p\<in>set tr. case fst p of Sys_setuid u \<Rightarrow> u \<noteq> 0 | _ \<Rightarrow> False) then - 1 else 0 | _ \<Rightarrow> 0)\<rparr>"


end
