(* ===== verification/Spec2Isabelle.thy ===== *)
theory Spec2Isabelle
  imports Wildcard Cidr PortParser HeaderRead Fuel Timers ConfigRead ModuleManager MainLoop Priv
begin

text \<open>
  The verification library of hottpd, a single-threaded HTTP server in C++ (\<open>src/\<close>, \<open>include/\<close>): one
  process, one loop (\<open>InspIRCd::Run\<close>), a socket engine that reports which descriptors are ready,
  connections that read requests and send files, and modules that hook into the events of both.

  \<^bold>\<open>How the code is modelled.\<close> The state of the daemon is the record \<open>server\<close> (\<open>ServerState\<close>), an
  extension of \<open>io\<close> (\<open>Kernel\<close>): the members of \<open>InspIRCd\<close>, \<open>ServerConfig\<close>, \<open>ConnectionManager\<close>,
  \<open>FileSystem\<close>, \<open>MimeManager\<close>, \<open>ModuleManager\<close>, of \<open>ModuleCGI\<close> and of the engine, and the heap of
  connections, listeners and CGI requests as maps from addresses, with \<open>next_addr\<close> the next fresh one.
  A method is a function from the state to the new state. The kernel is not part of the sources: its
  answers come from \<open>world\<close>, an arbitrary function of the calls made so far, which \<open>trace\<close>
  records with their replies; what a theorem needs of it is a hypothesis. \<open>None\<close> is undefined
  behaviour (the use of an object that is gone, an access out of range, signed overflow), an exception that
  nobody catches, or a loop that does not end; exceptions that are caught are values of a sum. Strings
  are lists of bytes; \<open>int\<close> stands for a C integer that cannot overflow in the function at hand, and
  where one can its width is written out (\<open>to_int32\<close>, \<open>to_uint32\<close>, \<open>long_of\<close>, \<open>8 word\<close>). The clock and
  the trigger of a timer are the exception: they are unbounded, as overflow of \<open>time_t\<close> is out of reach.

  \<^bold>\<open>Text and tables.\<close>
  \<^item> \<open>Prelude\<close>: \<open>std::string\<close> searches, \<open>istringstream\<close>, \<open>atoi\<close>; \<open>OrderedMap\<close>: \<open>std::map\<close> and
    \<open>std::multimap\<close>, the locale \<open>dictionary\<close> and its instances for the orders the sources use.
  \<^item> \<open>Numeric\<close> (\<open>ConvToStr\<close>, \<open>itoa\<close>, \<open>Duration\<close>), \<open>Hashcomp\<close> and \<open>PortParser\<close> (\<open>hashcomp.cpp\<close>),
    \<open>Wildcard\<close>, \<open>Cidr\<close>: each is compared with what its result means (digits and their value, the
    list that was joined, the ports a list names, the masks a string matches, the leading bits).
  \<^item> \<open>Headers\<close> (\<open>HTTPHeaders\<close>, \<open>MimeManager\<close>) and \<open>HeaderRead\<close>, the way of a header map through
    \<open>GetFormattedHeaders\<close> and back through \<open>CheckRequest\<close>.

  \<^bold>\<open>The kernel, the engines and the log.\<close> \<open>Kernel\<close> has the system calls; \<open>SocketEngines\<close> the tables of the
  four engines (\<open>socketengines/\<close>) with \<open>AddFd\<close>, \<open>DelFd\<close>, \<open>WantWrite\<close>; their common contract is the
  locale \<open>socket_engine\<close>, interpreted on each of them and on the dispatch between them. \<open>Logger\<close> is
  \<open>filelogger.cpp\<close>. \<open>Dispatch\<close> has \<open>DispatchEvents\<close> of each engine and the delivery of an event to the
  object in the table.

  \<^bold>\<open>Requests and responses.\<close> \<open>UriPath\<close> (\<open>HandleURI\<close>) and \<open>FileSystem\<close> (\<open>Stat\<close> with its caches,
  \<open>CheckFilePath\<close>) decide which file is served. \<open>Connection\<close> and \<open>Request\<close> have the operations of a
  connection (\<open>connections.cpp\<close>, \<open>buffer.cpp\<close>, \<open>request.cpp\<close>, \<open>backend_write.cpp\<close>) and the hooks of
  the two modules (\<open>m_cgi.cpp\<close>, \<open>m_testmodule.cpp\<close>). \<open>CheckRequest\<close>, \<open>EndRequest\<close> and everything between
  call each other in a circle, so every operation takes the call of \<open>CheckRequest(0)\<close> that
  \<open>EndRequest\<close> makes as its argument \<open>chk\<close>, and \<open>CheckRequest\<close> is closed with fuel: one more than
  the length of \<open>requestbuf\<close>. That is enough because each nested call finds the buffer shorter by a
  header block, and \<open>Fuel\<close> proves that any larger amount gives the same result. \<open>ConnFrame\<close>,
  \<open>ConnProps\<close> and \<open>ConnEvents\<close> hold what is true of each operation and then of each event: the
  invariant \<open>conn_inv\<close>, the stream of bytes that is only extended at its end (\<open>out_item\<close>), and the
  entry into the cull list. \<open>CullSteps\<close> has the part that also holds between output of CGI programs.

  \<^bold>\<open>The life of the daemon.\<close> \<open>ConfigParse\<close> is \<open>LoadConf\<close>, character by character; \<open>ConfigLookup\<close> the
  functions on the parsed multimap; \<open>ConfigFiles\<close> files and paths; \<open>ConfigRead\<close> \<open>ServerConfig::Read\<close> up to
  the end of its \<open>try\<close> block with the table of validated values; \<open>Loading\<close> the rest of \<open>Read\<close>, the
  log file and the constructors of the modules. \<open>ModuleManager\<close> has handlers, priorities, features,
  interfaces, loading and unloading, for modules of any kind whose code is a parameter (\<open>loader\<close>); what
  is relied on of that code is \<open>lawful_init\<close> and \<open>lawful_code\<close>. \<open>Timers\<close> is \<open>timer.cpp\<close>; the effect of a
  timer and \<open>std::sort\<close> are parameters, for the sort is only asked for a sorted permutation. \<open>Lifecycle\<close>
  has \<open>ConnectionManager\<close>, \<open>CullList::Apply\<close> and the timeouts, \<open>Listen\<close> and \<open>Ports\<close> the listeners
  (\<open>socket.cpp\<close>), \<open>MainLoop\<close> \<open>Run\<close>, \<open>Shutdown\<close> \<open>Cleanup\<close>, \<open>Exit\<close>, signals and restarts,
  \<open>Startup\<close> the constructor of \<open>InspIRCd\<close> and \<open>DaemonSeed\<close>, and \<open>Priv\<close> what its last steps come to.

  \<^bold>\<open>What is shown.\<close> Safety of what leaves the server: the stream of a connection, the cleaned path and its
  components, the vetted file, the stat cache. Invariants: connections, the cull list, the descriptor
  count of the engines, the listeners, the module tables, all of them between any two rounds of
  \<open>main_loop_invariant\<close>. Functional correctness of the parsers, printers and matchers, mostly as round
  trips or equivalences. Ends: \<open>CheckRequest\<close>, culling, accepting, exit. Errors of the code that a
  theorem pins down: the bounds tests of the engines, \<open>DelFd\<close> of \<open>select\<close>, \<open>PRIO_AFTER\<close>, negative
  timer intervals, line feeds in \<open>ConfValue\<close>, \<open>DirValid\<close>, the double deletion after a graceful
  shutdown, and the order in which privileges are given up.

  \<^bold>\<open>Fuel and loops.\<close> Fuel is used in \<open>CheckRequest\<close> (above) and in \<open>Load\<close>, where a pattern may name a file
  that is a pattern again and the code may recurse for ever: \<open>None\<close> then, and one unit is enough for
  a name. The loops of \<open>CullList::Apply\<close>, of
  \<open>ListenSocket::HandleEvent\<close>, of \<open>BindPorts\<close> over a range, of the timers, of the module's background
  timer and of the parent that waits for its child may run for ever, as \<open>Run\<close> itself does; they are
  \<open>partial_function\<close>s, and a theorem says when they return.

  \<^bold>\<open>What is not modelled.\<close> The calls of \<open>Log\<close> outside its own theory and what is printed on the terminal; the
  Windows branches, the wrapper under \<open>win/\<close> and the engine for completion ports; \<open>urlencode.cpp\<close>, which does
  not compile and which nothing uses; \<open>dynamic.cpp\<close>, whose result is the parameter \<open>call_init\<close>; \<open>base.cpp\<close>
  and \<open>inspstring.cpp\<close>, helpers whose effect stands in the definitions of their callers (\<open>take\<close> for a
  buffer of fixed size); the child of a CGI \<open>fork\<close>, which becomes another program.
\<close>

end
